(* ===== verification/Prelude.thy ===== *)
theory Prelude
  imports Main "HOL-Library.Word"
begin

text \<open>
  Shared vocabulary of the development: machine integers, fixed-size byte values and their
  big-endian encodings, the outcome of a fallible Rust computation, and the build profile that
  decides what an arithmetic overflow does.

  \<^item> \<open>B256\<close>, \<open>Address\<close> and \<open>B64\<close> (\<open>FixedBytes\<close> of 32, 20 and 8 bytes) are words of that many
    bits; \<open>as_slice\<close> is \<open>to_be_bytes\<close>, the big-endian byte string of the word.
  \<^item> A computation that may panic or return an error has a \<open>result\<close>: \<open>Inl\<close> of a \<open>failure\<close>,
    \<open>Inr\<close> of a value. \<open>Panic\<close> is a panic, a failed \<open>assert!\<close>, \<open>unwrap\<close> or \<open>expect\<close>, or an
    index out of bounds; \<open>Bail\<close> is an \<open>Err\<close> value with its chain of messages, the outermost
    first, to which \<open>context\<close> adds.
  \<^item> The host workspace is built with \<open>overflow-checks = true\<close> for a 64-bit target
    (\<open>src/Cargo.toml\<close>), the zkVM guest without overflow checks for a 32-bit target
    (\<open>src/build/risczero/kona/Cargo.toml\<close>). Arithmetic takes the \<open>build\<close> as an argument.
\<close>

section \<open>Types\<close>

type_synonym byte = "8 word"
type_synonym u32 = "32 word"
type_synonym u64 = "64 word"
type_synonym U256 = "256 word"
type_synonym B256 = "256 word"
type_synonym B64 = "64 word"
type_synonym Address = "160 word"
type_synonym bytes = "byte list"

datatype failure = Panic string | Bail "string list"

type_synonym 'a result = "failure + 'a"

record build =
  overflow_checks :: bool
  usize_bits :: nat

section \<open>Fallible computations\<close>

definition and_then :: "'a result \<Rightarrow> ('a \<Rightarrow> 'b result) \<Rightarrow> 'b result" where
  "and_then r f = (case r of Inl e \<Rightarrow> Inl e | Inr x \<Rightarrow> f x)"

text \<open>\<open>expect\<close> and \<open>unwrap\<close> turn an error value into a panic.\<close>

definition expect :: "'a result \<Rightarrow> string \<Rightarrow> 'a result" where
  "expect r msg = (case r of Inl e \<Rightarrow> Inl (Panic msg) | Inr x \<Rightarrow> Inr x)"

definition err_context :: "'a result \<Rightarrow> string \<Rightarrow> 'a result" where
  "err_context r msg = (case r of Inl (Bail ms) \<Rightarrow> Inl (Bail (msg # ms)) | _ \<Rightarrow> r)"

definition bail :: "string \<Rightarrow> 'a result" where
  "bail msg = Inl (Bail [msg])"

definition unwrap_opt :: "'a option \<Rightarrow> string \<Rightarrow> 'a result" where
  "unwrap_opt r msg = (case r of None \<Rightarrow> Inl (Panic msg) | Some x \<Rightarrow> Inr x)"

definition ensure :: "bool \<Rightarrow> string \<Rightarrow> unit result" where
  "ensure b msg = (if b then Inr () else Inl (Panic msg))"

text \<open>\<open>xs[i]\<close> and \<open>xs[i..j]\<close> panic out of bounds.\<close>

definition index_vec :: "'a list \<Rightarrow> nat \<Rightarrow> 'a result" where
  "index_vec xs i = (if i < length xs then Inr (xs ! i) else Inl (Panic ''index out of bounds''))"

definition slice_vec :: "'a list \<Rightarrow> nat \<Rightarrow> nat \<Rightarrow> 'a list result" where
  "slice_vec xs i j =
     (if i \<le> j \<and> j \<le> length xs then Inr (take (j - i) (drop i xs))
      else Inl (Panic ''range out of bounds''))"

text \<open>Running a fallible step over every element, stopping at the first failure.\<close>

fun try_map :: "('a \<Rightarrow> 'b result) \<Rightarrow> 'a list \<Rightarrow> 'b list result" where
  "try_map f [] = Inr []"
| "try_map f (x # xs) = and_then (f x) (\<lambda>y. and_then (try_map f xs) (\<lambda>ys. Inr (y # ys)))"

fun try_fold :: "('s \<Rightarrow> 'a \<Rightarrow> 's result) \<Rightarrow> 's \<Rightarrow> 'a list \<Rightarrow> 's result" where
  "try_fold f s [] = Inr s"
| "try_fold f s (x # xs) = and_then (f s x) (\<lambda>s'. try_fold f s' xs)"

section \<open>Machine arithmetic\<close>

definition host :: build where
  "host = \<lparr>overflow_checks = True, usize_bits = 64\<rparr>"

definition guest :: build where
  "guest = \<lparr>overflow_checks = False, usize_bits = 32\<rparr>"

definition add_u64 :: "build \<Rightarrow> u64 \<Rightarrow> u64 \<Rightarrow> u64 result" where
  "add_u64 T a b =
     (if overflow_checks T \<and> 2 ^ 64 \<le> unat a + unat b
      then Inl (Panic ''attempt to add with overflow'') else Inr (a + b))"

definition mul_u64 :: "build \<Rightarrow> u64 \<Rightarrow> u64 \<Rightarrow> u64 result" where
  "mul_u64 T a b =
     (if overflow_checks T \<and> 2 ^ 64 \<le> unat a * unat b
      then Inl (Panic ''attempt to multiply with overflow'') else Inr (a * b))"

definition sub_u64 :: "build \<Rightarrow> u64 \<Rightarrow> u64 \<Rightarrow> u64 result" where
  "sub_u64 T a b =
     (if overflow_checks T \<and> unat a < unat b
      then Inl (Panic ''attempt to subtract with overflow'') else Inr (a - b))"

definition div_u64 :: "u64 \<Rightarrow> u64 \<Rightarrow> u64 result" where
  "div_u64 a b = (if b = 0 then Inl (Panic ''attempt to divide by zero'') else Inr (a div b))"

definition rem_u64 :: "u64 \<Rightarrow> u64 \<Rightarrow> u64 result" where
  "rem_u64 a b =
     (if b = 0 then Inl (Panic ''attempt to calculate the remainder with a divisor of zero'')
      else Inr (a mod b))"

text \<open>\<open>x as usize\<close> truncates to the width of the target; \<open>n as u64\<close> of a \<open>usize\<close> is \<open>of_nat\<close>.\<close>

definition as_usize :: "build \<Rightarrow> u64 \<Rightarrow> nat" where
  "as_usize T w = unat w mod 2 ^ usize_bits T"

definition sub_usize :: "build \<Rightarrow> nat \<Rightarrow> nat \<Rightarrow> nat result" where
  "sub_usize T a b =
     (if b \<le> a then Inr (a - b)
      else if overflow_checks T then Inl (Panic ''attempt to subtract with overflow'')
      else Inr (2 ^ usize_bits T + a - b))"

definition saturating_add_u64 :: "u64 \<Rightarrow> u64 \<Rightarrow> u64" where
  "saturating_add_u64 a b = (if unat a + unat b < 2 ^ 64 then a + b else - 1)"

definition saturating_sub_u64 :: "u64 \<Rightarrow> u64 \<Rightarrow> u64" where
  "saturating_sub_u64 a b = (if b \<le> a then a - b else 0)"

section \<open>Big-endian encodings\<close>

fun be_bytes :: "nat \<Rightarrow> nat \<Rightarrow> bytes" where
  "be_bytes 0 x = []"
| "be_bytes (Suc n) x = be_bytes n (x div 256) @ [of_nat (x mod 256)]"

definition be_nat :: "bytes \<Rightarrow> nat" where
  "be_nat bs = foldl (\<lambda>a b. a * 256 + unat b) 0 bs"

definition to_be_bytes :: "'a::len word \<Rightarrow> bytes" where
  "to_be_bytes w = be_bytes (LENGTH('a) div 8) (unat w)"

definition from_be_bytes :: "bytes \<Rightarrow> 'a::len word" where
  "from_be_bytes bs = of_nat (be_nat bs)"

text \<open>\<open>slice.try_into::<[u8; N]>()\<close>, then the fixed-size value it holds.\<close>

definition try_into_word :: "bytes \<Rightarrow> 'a::len word result" where
  "try_into_word bs =
     (if length bs = LENGTH('a) div 8 then Inr (from_be_bytes bs)
      else Inl (Bail [''TryFromSliceError'']))"

named_theorems enc_len \<open>lengths of the byte encodings\<close>
named_theorems res_simps \<open>when a fallible step succeeds\<close>

section \<open>Results\<close>

lemma and_then_simps [simp]:
  "and_then (Inl e) f = Inl e"
  "and_then (Inr x) f = f x"
  by (simp_all add: and_then_def)

lemma and_then_eq_Inr [res_simps]:
  "and_then r f = Inr y \<longleftrightarrow> (\<exists>x. r = Inr x \<and> f x = Inr y)"
  by (cases r) auto

lemma Inr_eq_and_then [res_simps]:
  "Inr y = and_then r f \<longleftrightarrow> (\<exists>x. r = Inr x \<and> f x = Inr y)"
  by (cases r) auto

lemma and_then_cong [fundef_cong]:
  "r = r' \<Longrightarrow> (\<And>x. r' = Inr x \<Longrightarrow> f x = g x) \<Longrightarrow> and_then r f = and_then r' g"
  by (cases r') auto

lemma and_then_eq_Inl:
  "and_then r f = Inl e \<longleftrightarrow> r = Inl e \<or> (\<exists>x. r = Inr x \<and> f x = Inl e)"
  by (cases r) auto

lemma and_then_assoc: "and_then (and_then r f) g = and_then r (\<lambda>x. and_then (f x) g)"
  by (cases r) auto

text \<open>A computation that returns, with a value or an error, and does not panic.\<close>

definition no_panic :: "'a result \<Rightarrow> bool" where
  "no_panic r \<longleftrightarrow> (\<forall>m. r \<noteq> Inl (Panic m))"

lemma no_panic_simps [simp]:
  "no_panic (Inr x)" "no_panic (bail m)" "no_panic (Inl (Bail ms))" "\<not> no_panic (Inl (Panic p))"
  "no_panic (and_then r f) \<longleftrightarrow> no_panic r \<and> (\<forall>x. r = Inr x \<longrightarrow> no_panic (f x))"
  by (auto simp: no_panic_def bail_def and_then_eq_Inl)

lemma expect_eq_Inr [res_simps]: "expect r m = Inr x \<longleftrightarrow> r = Inr x"
  by (cases r) (auto simp: expect_def)

lemma expect_simps [simp]:
  "expect (Inr x) m = Inr x"
  "expect (Inl e) m = Inl (Panic m)"
  by (simp_all add: expect_def)

lemma err_context_eq_Inr [res_simps]: "err_context r m = Inr x \<longleftrightarrow> r = Inr x"
  by (cases r) (auto simp: err_context_def split: failure.splits)

lemma err_context_simps [simp]:
  "err_context (Inr x) m = Inr x"
  "err_context (Inl (Panic p)) m = Inl (Panic p)"
  "err_context (Inl (Bail ms)) m = Inl (Bail (m # ms))"
  by (simp_all add: err_context_def)

lemma bail_neq_Inr [simp, res_simps]: "bail m \<noteq> Inr x" "Inr x \<noteq> bail m"
  by (simp_all add: bail_def)

lemma unwrap_opt_eq_Inr [res_simps]: "unwrap_opt r m = Inr x \<longleftrightarrow> r = Some x"
  by (cases r) (auto simp: unwrap_opt_def)

lemma unwrap_opt_simps [simp]:
  "unwrap_opt (Some x) m = Inr x"
  "unwrap_opt None m = Inl (Panic m)"
  by (simp_all add: unwrap_opt_def)

lemma ensure_eq_Inr [res_simps]: "ensure b m = Inr u \<longleftrightarrow> b"
  by (auto simp: ensure_def)

lemma ensure_simps [simp]:
  "ensure True m = Inr ()"
  "ensure False m = Inl (Panic m)"
  by (simp_all add: ensure_def)

lemma index_vec_eq_Inr [res_simps]: "index_vec xs i = Inr x \<longleftrightarrow> i < length xs \<and> x = xs ! i"
  by (auto simp: index_vec_def)

lemma slice_vec_eq_Inr [res_simps]:
  "slice_vec xs i j = Inr ys \<longleftrightarrow> i \<le> j \<and> j \<le> length xs \<and> ys = take (j - i) (drop i xs)"
  by (auto simp: slice_vec_def)

lemma length_slice_vec: "slice_vec xs i j = Inr ys \<Longrightarrow> length ys = j - i"
  by (auto simp: slice_vec_def split: if_splits)

lemma try_map_eq_Inr:
  "try_map f xs = Inr ys \<longleftrightarrow>
     length ys = length xs \<and> (\<forall>i < length xs. f (xs ! i) = Inr (ys ! i))"
proof (induction xs arbitrary: ys)
  case Nil
  then show ?case by auto
next
  case (Cons x xs)
  show ?case
    by (cases ys) (auto simp: res_simps Cons.IH All_less_Suc2)
qed

lemma try_map_all_Inr: "(\<And>x. x \<in> set xs \<Longrightarrow> f x = Inr (g x)) \<Longrightarrow> try_map f xs = Inr (map g xs)"
  by (induction xs) auto

lemma try_map_map_Inr: "(\<And>x. x \<in> set xs \<Longrightarrow> f (g x) = Inr (h x)) \<Longrightarrow> try_map f (map g xs) = Inr (map h xs)"
  by (induction xs) auto

lemma try_map_set: "try_map f xs = Inr ys \<Longrightarrow> y \<in> set ys \<Longrightarrow> \<exists>x \<in> set xs. f x = Inr y"
  by (metis in_set_conv_nth try_map_eq_Inr)

lemma try_map_append:
  "try_map f (xs @ ys) =
     and_then (try_map f xs) (\<lambda>us. and_then (try_map f ys) (\<lambda>vs. Inr (us @ vs)))"
  by (induction xs) (auto simp: and_then_assoc and_then_def split: sum.splits)

text \<open>An invariant of the step is an invariant of the loop.\<close>

lemma try_fold_invariant:
  assumes "try_fold f s xs = Inr s'" and "P s"
    and "\<And>s x s'. x \<in> set xs \<Longrightarrow> P s \<Longrightarrow> f s x = Inr s' \<Longrightarrow> P s'"
  shows "P s'"
  using assms
proof (induction xs arbitrary: s)
  case Nil
  then show ?case by simp
next
  case (Cons x xs)
  then obtain t where t: "f s x = Inr t" "try_fold f t xs = Inr s'"
    by (auto simp: res_simps)
  have "P t" using Cons.prems(2) Cons.prems(3) [of x s t] t(1) by simp
  then show ?case using Cons.IH [OF t(2)] Cons.prems(3) by auto
qed

lemma try_fold_append:
  "try_fold f s (xs @ ys) = and_then (try_fold f s xs) (\<lambda>t. try_fold f t ys)"
  by (induction xs arbitrary: s) (auto simp: and_then_assoc)

section \<open>Arithmetic\<close>

lemma build_simps [simp]:
  "overflow_checks host" "\<not> overflow_checks guest" "usize_bits host = 64" "usize_bits guest = 32"
  by (simp_all add: host_def guest_def)

lemma unat_add_u64:
  "add_u64 T a b = Inr c \<Longrightarrow> unat a + unat b < 2 ^ 64 \<Longrightarrow> unat c = unat a + unat b"
  by (auto simp: add_u64_def unat_word_ariths split: if_splits)

lemma add_u64_ok: "unat a + unat b < 2 ^ 64 \<Longrightarrow> add_u64 T a b = Inr (a + b)"
  by (simp add: add_u64_def)

lemma mul_u64_ok: "unat a * unat b < 2 ^ 64 \<Longrightarrow> mul_u64 T a b = Inr (a * b)"
  by (simp add: mul_u64_def)

lemma sub_u64_ok: "b \<le> a \<Longrightarrow> sub_u64 T a b = Inr (a - b)"
  by (simp add: sub_u64_def word_le_nat_alt)

lemma add_u64_guest [simp]: "add_u64 guest a b = Inr (a + b)"
  by (simp add: add_u64_def)

lemma mul_u64_guest [simp]: "mul_u64 guest a b = Inr (a * b)"
  by (simp add: mul_u64_def)

lemma sub_u64_guest [simp]: "sub_u64 guest a b = Inr (a - b)"
  by (simp add: sub_u64_def)

lemma unat_add_small: "unat (a :: u64) + unat b < 2 ^ 64 \<Longrightarrow> unat (a + b) = unat a + unat b"
  by (simp add: unat_word_ariths)

lemma unat_mul_small: "unat (a :: u64) * unat b < 2 ^ 64 \<Longrightarrow> unat (a * b) = unat a * unat b"
  by (simp add: unat_word_ariths)

lemma unat_u64_bound [simp]: "unat (a :: u64) < 18446744073709551616"
  using unsigned_less [of a] by simp

section \<open>Encodings\<close>

lemma length_be_bytes [simp]: "length (be_bytes n x) = n"
  by (induction n x rule: be_bytes.induct) auto

lemma be_nat_snoc: "be_nat (bs @ [b]) = be_nat bs * 256 + unat b"
  by (simp add: be_nat_def)

lemma be_nat_Nil [simp]: "be_nat [] = 0"
  by (simp add: be_nat_def)

lemma unat_of_nat_byte: "x < 256 \<Longrightarrow> unat (of_nat x :: byte) = x"
  by (simp add: unat_of_nat take_bit_eq_mod)

lemma be_nat_be_bytes: "x < 256 ^ n \<Longrightarrow> be_nat (be_bytes n x) = x"
proof (induction n arbitrary: x)
  case 0
  then show ?case by simp
next
  case (Suc n)
  then have "x div 256 < 256 ^ n" by (simp add: less_mult_imp_div_less mult.commute)
  then have "be_nat (be_bytes n (x div 256)) = x div 256" by (rule Suc.IH)
  then show ?case by (simp add: be_nat_snoc unat_of_nat_byte)
qed

lemma be_nat_less: "be_nat bs < 256 ^ length bs"
proof (induction bs rule: rev_induct)
  case Nil
  then show ?case by simp
next
  case (snoc b bs)
  have "unat b < 256" using unsigned_less [of b] by simp
  with snoc show ?case by (simp add: be_nat_snoc)
qed

lemma be_bytes_be_nat: "be_bytes (length bs) (be_nat bs) = bs"
proof (induction bs rule: rev_induct)
  case Nil
  then show ?case by simp
next
  case (snoc b bs)
  have b: "unat b < 256" using unsigned_less [of b] by simp
  have "(be_nat bs * 256 + unat b) div 256 = be_nat bs"
    and "(be_nat bs * 256 + unat b) mod 256 = unat b"
    using b by simp_all
  with snoc show ?case by (simp add: be_nat_snoc)
qed

lemma length_to_be_bytes [enc_len, simp]:
  "length (to_be_bytes (w :: 'a::len word)) = LENGTH('a) div 8"
  by (simp add: to_be_bytes_def)

lemma power_256_div_8: "8 dvd n \<Longrightarrow> (256 :: nat) ^ (n div 8) = 2 ^ n"
proof -
  assume "8 dvd n"
  then have "(2 :: nat) ^ n = 2 ^ (8 * (n div 8))" by simp
  then show ?thesis by (simp only: power_mult) simp
qed

lemma from_to_be_bytes:
  assumes "8 dvd LENGTH('a)"
  shows "from_be_bytes (to_be_bytes (w :: 'a::len word)) = w"
proof -
  have "be_nat (be_bytes (LENGTH('a) div 8) (unat w)) = unat w"
    by (intro be_nat_be_bytes) (simp add: power_256_div_8 [OF assms])
  then show ?thesis by (simp add: from_be_bytes_def to_be_bytes_def)
qed

lemma to_from_be_bytes:
  assumes "8 dvd LENGTH('a)" and "length bs = LENGTH('a) div 8"
  shows "to_be_bytes (from_be_bytes bs :: 'a::len word) = bs"
proof -
  have "(256 :: nat) ^ length bs = 2 ^ LENGTH('a)"
    using assms by (simp add: power_256_div_8)
  then have "unat (of_nat (be_nat bs) :: 'a word) = be_nat bs"
    using be_nat_less [of bs] by (simp add: unat_of_nat take_bit_eq_mod)
  then show ?thesis
    using assms(2) be_bytes_be_nat [of bs] by (simp add: from_be_bytes_def to_be_bytes_def)
qed

lemma from_to_be_bytes_widths [simp]:
  "from_be_bytes (to_be_bytes (a :: 8 word)) = a"
  "from_be_bytes (to_be_bytes (b :: 32 word)) = b"
  "from_be_bytes (to_be_bytes (c :: 64 word)) = c"
  "from_be_bytes (to_be_bytes (d :: 160 word)) = d"
  "from_be_bytes (to_be_bytes (e :: 256 word)) = e"
  by (rule from_to_be_bytes, simp)+

lemma to_be_bytes_inj:
  "to_be_bytes (a :: 8 word) = to_be_bytes a' \<longleftrightarrow> a = a'"
  "to_be_bytes (b :: 32 word) = to_be_bytes b' \<longleftrightarrow> b = b'"
  "to_be_bytes (c :: 64 word) = to_be_bytes c' \<longleftrightarrow> c = c'"
  "to_be_bytes (d :: 160 word) = to_be_bytes d' \<longleftrightarrow> d = d'"
  "to_be_bytes (e :: 256 word) = to_be_bytes e' \<longleftrightarrow> e = e'"
  by (metis from_to_be_bytes_widths)+

lemmas [simp] = to_be_bytes_inj

lemma try_into_word_to_be [simp]:
  "try_into_word (to_be_bytes (c :: 64 word)) = Inr c"
  "try_into_word (to_be_bytes (d :: 160 word)) = Inr d"
  "try_into_word (to_be_bytes (e :: 256 word)) = Inr e"
  by (simp_all add: try_into_word_def)

lemma take_split: "k \<le> n \<Longrightarrow> take n xs = take k xs @ take (n - k) (drop k xs)"
  by (metis le_add_diff_inverse take_add)

text \<open>A chunk of a concatenation of chunks of equal length.\<close>

lemma concat_chunk_nth:
  assumes "\<And>x. length (f x) = n" and "i < length xs"
  shows "take n (drop (n * i) (concat (map f xs) @ ys)) = f (xs ! i)"
  using assms(2)
proof (induction xs arbitrary: i)
  case Nil
  then show ?case by simp
next
  case (Cons x xs)
  then show ?case by (cases i) (simp_all add: assms(1))
qed

text \<open>Concatenations of fixed-width chunks are injective, chunk by chunk.\<close>

lemma append_eq_prefix: "length xs = length xs' \<Longrightarrow> xs @ ys = xs' @ ys' \<longleftrightarrow> xs = xs' \<and> ys = ys'"
  by (rule append_eq_append_conv) simp

lemma concat_map_inj:
  assumes w: "\<And>x. length (f x) = w" and inj: "\<And>x y. f x = f y \<Longrightarrow> x = y" and pos: "0 < w"
  shows "concat (map f xs) = concat (map f ys) \<Longrightarrow> xs = ys"
proof (induction xs arbitrary: ys)
  case Nil
  then show ?case using w pos by (cases ys) (auto simp flip: length_0_conv)
next
  case (Cons x xs)
  have "ys \<noteq> []"
  proof
    assume "ys = []"
    then have "f x = []" using Cons.prems by simp
    then show False using w [of x] pos by simp
  qed
  then obtain y zs where ys: "ys = y # zs" by (cases ys) auto
  have "f x @ concat (map f xs) = f y @ concat (map f zs)" using Cons.prems ys by simp
  then have "f x = f y" "concat (map f xs) = concat (map f zs)"
    using append_eq_prefix [of "f x" "f y"] w by auto
  then show ?case using inj Cons.IH ys by auto
qed

end
