(* ===== verification/Blobs.thy ===== *)
theory Blobs
  imports Prelude
begin

text \<open>
  Authenticated blobs (\<open>src/crates/kona/src/blobs.rs\<close>): the witness of blobs with their KZG
  commitments and proofs, the provider that replays it in the guest, and the field elements of a
  blob. \<open>c_kzg\<close> and \<open>kzg_to_versioned_hash\<close> are the functions of a \<open>kzg\<close> record, a parameter of
  every definition that calls them.

  The provider's contract is the locale \<open>blob_provider\<close>: what it returns for a list of hashes is a
  list of blobs authentic for these hashes, one for each. It is interpreted on
  \<open>PreloadedBlobProvider\<close>.
\<close>

section \<open>Data\<close>

type_synonym blob = bytes
type_synonym bytes48 = "384 word"

record block_info =
  bk_hash :: B256
  bk_number :: u64
  bk_parent_hash :: B256
  bk_timestamp :: u64

record indexed_blob_hash =
  ih_index :: u64
  ih_hash :: B256

record blob_fetch_request =
  bfr_block_ref :: block_info
  bfr_blob_hash :: indexed_blob_hash

record blob_witness_data =
  bw_blobs :: "blob list"
  bw_commitments :: "bytes48 list"
  bw_proofs :: "bytes48 list"

record preloaded_blob_provider =
  pb_entries :: "(B256 \<times> blob) list"

text \<open>The KZG library: commitment, blob proof, batch verification, versioned hash.\<close>

record kzg =
  blob_to_kzg_commitment :: "blob \<Rightarrow> bytes48 result"
  compute_blob_kzg_proof :: "blob \<Rightarrow> bytes48 \<Rightarrow> bytes48 result"
  verify_blob_kzg_proof_batch :: "blob list \<Rightarrow> bytes48 list \<Rightarrow> bytes48 list \<Rightarrow> bool result"
  kzg_to_versioned_hash :: "bytes48 \<Rightarrow> B256"

section \<open>Operations\<close>

definition BLS_MODULUS :: U256 where
  "BLS_MODULUS = 52435875175126190479447740508185965837690552500527637822603658699938581184513"

definition FIELD_ELEMENTS_PER_BLOB :: nat where
  "FIELD_ELEMENTS_PER_BLOB = 4096"

text \<open>A blob is a fixed array of 131072 bytes.\<close>

definition blob_wf :: "blob \<Rightarrow> bool" where
  "blob_wf b \<longleftrightarrow> length b = 32 * FIELD_ELEMENTS_PER_BLOB"

fun witness_blobs :: "kzg \<Rightarrow> blob_witness_data \<Rightarrow> blob list \<Rightarrow> blob_witness_data result" where
  "witness_blobs K w [] = Inr w"
| "witness_blobs K w (b # bs) =
     and_then (expect (blob_to_kzg_commitment K b) ''Failed to convert blob to commitment'')
       (\<lambda>commitment.
     and_then (expect (compute_blob_kzg_proof K b commitment) ''unwrap'') (\<lambda>proof.
     witness_blobs K
       \<lparr>bw_blobs = bw_blobs w @ [b], bw_commitments = bw_commitments w @ [commitment],
        bw_proofs = bw_proofs w @ [proof]\<rparr> bs))"

definition blob_witness_from :: "kzg \<Rightarrow> blob list \<Rightarrow> blob_witness_data result" where
  "blob_witness_from K blobs =
     witness_blobs K \<lparr>bw_blobs = [], bw_commitments = [], bw_proofs = []\<rparr> blobs"

definition preloaded_from ::
  "kzg \<Rightarrow> blob_witness_data \<Rightarrow> preloaded_blob_provider result" where
  "preloaded_from K value =
     and_then (expect
       (verify_blob_kzg_proof_batch K (bw_blobs value) (bw_commitments value) (bw_proofs value))
       ''Failed to batch validate kzg proofs'') (\<lambda>verified.
     and_then (ensure verified ''Blob KZG proof batch verification failed'') (\<lambda>_.
     let hashes = map (kzg_to_versioned_hash K) (bw_commitments value);
         entries = rev (zip hashes (bw_blobs value))
     in Inr \<lparr>pb_entries = entries\<rparr>))"

text \<open>\<open>Vec::pop\<close> takes the last element; the provider is left as it is when the loop stops.\<close>

fun get_blobs_loop ::
  "(B256 \<times> blob) list \<Rightarrow> indexed_blob_hash list \<Rightarrow> blob list \<Rightarrow>
   (B256 \<times> blob) list \<times> blob list result" where
  "get_blobs_loop entries [] blobs = (entries, Inr blobs)"
| "get_blobs_loop entries (h # hs) blobs =
     (if entries = [] then (entries, Inl (Panic ''unwrap on a None value''))
      else let (blob_hash, blob) = last entries; entries = butlast entries
           in if ih_hash h \<noteq> blob_hash
              then (entries, bail ''Expected entry with hash'')
              else get_blobs_loop entries hs (blobs @ [blob]))"

definition preloaded_get_blobs ::
  "preloaded_blob_provider \<Rightarrow> block_info \<Rightarrow> indexed_blob_hash list \<Rightarrow>
   preloaded_blob_provider \<times> blob list result" where
  "preloaded_get_blobs p block_ref blob_hashes =
     (let (entries, r) = get_blobs_loop (pb_entries p) blob_hashes []
      in (\<lparr>pb_entries = entries\<rparr>, r))"

definition field_element_at :: "blob \<Rightarrow> nat \<Rightarrow> U256 result" where
  "field_element_at b i =
     and_then (slice_vec b (32 * i) (32 * i + 32)) (\<lambda>s.
     and_then (try_into_word s) (\<lambda>fe.
     if \<not> fe < BLS_MODULUS then bail ''Invalid field element'' else Inr fe))"

definition field_elements :: "blob \<Rightarrow> nat list \<Rightarrow> U256 list result" where
  "field_elements b indices = try_map (field_element_at b) indices"

definition intermediate_outputs :: "blob \<Rightarrow> nat \<Rightarrow> U256 list result" where
  "intermediate_outputs b blocks = field_elements b [0..<blocks]"

definition trail_data :: "blob \<Rightarrow> nat \<Rightarrow> U256 list result" where
  "trail_data b blocks = field_elements b [blocks..<FIELD_ELEMENTS_PER_BLOB]"

definition hash_to_fe :: "B256 \<Rightarrow> U256" where
  "hash_to_fe h = h mod BLS_MODULUS"

section \<open>The provider's contract\<close>

locale blob_provider =
  fixes get_blobs :: "'p \<Rightarrow> block_info \<Rightarrow> indexed_blob_hash list \<Rightarrow> 'p \<times> blob list result"
    and pinv :: "'p \<Rightarrow> bool"
    and authentic :: "B256 \<Rightarrow> blob \<Rightarrow> bool"
  assumes get_blobs_inv: "pinv p \<Longrightarrow> get_blobs p r hs = (p', res) \<Longrightarrow> pinv p'"
    and get_blobs_authentic:
      "pinv p \<Longrightarrow> get_blobs p r hs = (p', Inr bs) \<Longrightarrow> list_all2 (\<lambda>h. authentic (ih_hash h)) hs bs"
begin

lemma get_one_blob:
  assumes "pinv p" and "get_blobs p r [h] = (p', Inr bs)"
  shows "\<exists>b. bs = [b] \<and> authentic (ih_hash h) b"
  using get_blobs_authentic [OF assms] by (cases bs) (auto simp: list_all2_Cons1)

end

text \<open>
  The documented soundness of batch verification: it accepts lists of equal length only, and only
  when every triple verifies.
\<close>

definition batch_sound :: "kzg \<Rightarrow> (blob \<Rightarrow> bytes48 \<Rightarrow> bytes48 \<Rightarrow> bool) \<Rightarrow> bool" where
  "batch_sound K verified \<longleftrightarrow>
     (\<forall>bs cs ps. verify_blob_kzg_proof_batch K bs cs ps = Inr True \<longrightarrow>
        length cs = length bs \<and> length ps = length bs \<and>
        (\<forall>i < length bs. verified (bs ! i) (cs ! i) (ps ! i)))"

definition blob_opens :: "kzg \<Rightarrow> (blob \<Rightarrow> bytes48 \<Rightarrow> bytes48 \<Rightarrow> bool) \<Rightarrow> B256 \<Rightarrow> blob \<Rightarrow> bool" where
  "blob_opens K verified h b \<longleftrightarrow> (\<exists>c p. kzg_to_versioned_hash K c = h \<and> verified b c p)"

definition preloaded_inv ::
  "(B256 \<Rightarrow> blob \<Rightarrow> bool) \<Rightarrow> preloaded_blob_provider \<Rightarrow> bool" where
  "preloaded_inv authentic p \<longleftrightarrow> (\<forall>(h, b) \<in> set (pb_entries p). authentic h b)"

section \<open>Replaying the witness\<close>

text \<open>The entries that remain, in the order in which they are handed out.\<close>

definition remaining :: "preloaded_blob_provider \<Rightarrow> (B256 \<times> blob) list" where
  "remaining p = rev (pb_entries p)"

lemma get_blobs_loop_rev:
  "get_blobs_loop (rev es) hs acc = (es', Inr bs) \<longleftrightarrow>
     length hs \<le> length es \<and> map fst (take (length hs) es) = map ih_hash hs \<and>
     es' = rev (drop (length hs) es) \<and> bs = acc @ map snd (take (length hs) es)"
proof (induction hs arbitrary: es acc)
  case Nil
  then show ?case by auto
next
  case (Cons h hs)
  show ?case
  proof (cases es)
    case Nil
    then show ?thesis by simp
  next
    case (Cons e es2)
    then show ?thesis
      using Cons.IH [of es2 "acc @ [snd e]"] by (cases e) (auto simp: Let_def)
  qed
qed

lemma preloaded_get_blobs_iff:
  "preloaded_get_blobs p r hs = (p', Inr bs) \<longleftrightarrow>
     length hs \<le> length (remaining p) \<and>
     map fst (take (length hs) (remaining p)) = map ih_hash hs \<and>
     bs = map snd (take (length hs) (remaining p)) \<and>
     remaining p' = drop (length hs) (remaining p)"
proof -
  have "preloaded_get_blobs p r hs = (p', Inr bs) \<longleftrightarrow>
      get_blobs_loop (rev (remaining p)) hs [] = (pb_entries p', Inr bs)"
    by (cases p') (auto simp: preloaded_get_blobs_def remaining_def split: prod.splits)
  then show ?thesis
    unfolding get_blobs_loop_rev by (auto simp: remaining_def rev_swap)
qed

lemma get_blobs_loop_subset:
  "get_blobs_loop es hs acc = (es', r) \<Longrightarrow> set es' \<subseteq> set es"
  by (induction es hs acc rule: get_blobs_loop.induct)
    (auto simp: Let_def split: if_splits prod.splits dest!: in_set_butlastD, blast dest: in_set_butlastD)

lemma preloaded_get_blobs_inv:
  assumes "preloaded_inv A p" and "preloaded_get_blobs p r hs = (p', res)"
  shows "preloaded_inv A p'"
proof -
  obtain es where es: "get_blobs_loop (pb_entries p) hs [] = (es, res)" "p' = \<lparr>pb_entries = es\<rparr>"
    using assms(2) by (auto simp: preloaded_get_blobs_def split: prod.splits)
  then have "set es \<subseteq> set (pb_entries p)" by (auto dest: get_blobs_loop_subset)
  then show ?thesis using assms(1) es(2) by (auto simp: preloaded_inv_def)
qed

lemma preloaded_get_blobs_authentic:
  assumes "preloaded_inv A p" and "preloaded_get_blobs p r hs = (p', Inr bs)"
  shows "list_all2 (\<lambda>h. A (ih_hash h)) hs bs"
proof -
  let ?es = "take (length hs) (remaining p)"
  have eqs: "map fst ?es = map ih_hash hs" "bs = map snd ?es"
    using assms(2) by (auto simp: preloaded_get_blobs_iff)
  have "\<forall>e \<in> set ?es. A (fst e) (snd e)"
    using assms(1) by (fastforce simp: preloaded_inv_def remaining_def dest: in_set_takeD)
  then have "list_all2 (\<lambda>h b. A h b) (map fst ?es) (map snd ?es)"
    by (simp add: list_all2_map1 list_all2_map2 list.rel_refl_strong)
  then show ?thesis by (simp add: eqs list_all2_map1)
qed

interpretation preloaded: blob_provider preloaded_get_blobs "preloaded_inv A" A for A
  by unfold_locales (fact preloaded_get_blobs_inv, fact preloaded_get_blobs_authentic)

lemma preloaded_from_entries:
  assumes "preloaded_from K w = Inr p"
  shows "verify_blob_kzg_proof_batch K (bw_blobs w) (bw_commitments w) (bw_proofs w) = Inr True"
    and "remaining p = zip (map (kzg_to_versioned_hash K) (bw_commitments w)) (bw_blobs w)"
  using assms by (auto simp: preloaded_from_def res_simps Let_def remaining_def)

lemma preloaded_from_inv:
  assumes "preloaded_from K w = Inr p" and "batch_sound K verified"
  shows "preloaded_inv (blob_opens K verified) p"
proof -
  have v: "length (bw_commitments w) = length (bw_blobs w)"
      "\<And>i. i < length (bw_blobs w) \<Longrightarrow>
         verified (bw_blobs w ! i) (bw_commitments w ! i) (bw_proofs w ! i)"
    using preloaded_from_entries(1) [OF assms(1)] assms(2) by (auto simp: batch_sound_def)
  have "\<forall>(h, b) \<in> set (remaining p). blob_opens K verified h b"
    unfolding preloaded_from_entries(2) [OF assms(1)] blob_opens_def
    using v by (auto simp: in_set_zip) blast
  then show ?thesis by (simp add: preloaded_inv_def remaining_def)
qed

section \<open>Field elements\<close>

lemma field_element_at_eq_Inr:
  "field_element_at b i = Inr fe \<longleftrightarrow>
     32 * i + 32 \<le> length b \<and> fe = from_be_bytes (take 32 (drop (32 * i) b)) \<and> fe < BLS_MODULUS"
  by (auto simp: field_element_at_def res_simps try_into_word_def)

lemma to_be_field_element:
  "field_element_at b i = Inr fe \<Longrightarrow> to_be_bytes fe = take 32 (drop (32 * i) b)"
  by (auto simp: field_element_at_eq_Inr intro: to_from_be_bytes)

lemma concat_chunks:
  "n \<le> m \<Longrightarrow> concat (map (\<lambda>i. take 32 (drop (32 * i) b)) [n..<m]) = take (32 * (m - n)) (drop (32 * n) b)"
proof (induction m)
  case 0
  then show ?case by simp
next
  case (Suc m)
  show ?case
  proof (cases "n = Suc m")
    case True
    then show ?thesis by simp
  next
    case False
    with Suc.prems have "n \<le> m" by simp
    with Suc.IH have "concat (map (\<lambda>i. take 32 (drop (32 * i) b)) [n..<Suc m]) =
        take (32 * (m - n)) (drop (32 * n) b) @ take 32 (drop (32 * m) b)"
      by simp
    also have "\<dots> = take (32 * (m - n) + 32) (drop (32 * n) b)"
      using \<open>n \<le> m\<close> by (simp add: take_add flip: add_mult_distrib2)
    finally show ?thesis using \<open>n \<le> m\<close> by (simp add: Suc_diff_le add.commute)
  qed
qed

lemma field_elements_range:
  assumes "field_elements b [n..<m] = Inr fes" and "n \<le> m"
  shows "length fes = m - n" "\<forall>fe \<in> set fes. fe < BLS_MODULUS"
    "concat (map to_be_bytes fes) = take (32 * (m - n)) (drop (32 * n) b)"
proof -
  have fe: "length fes = m - n" "\<And>i. i < m - n \<Longrightarrow> field_element_at b (n + i) = Inr (fes ! i)"
    using assms by (auto simp: field_elements_def try_map_eq_Inr)
  then show "length fes = m - n" "\<forall>fe \<in> set fes. fe < BLS_MODULUS"
    by (simp, metis in_set_conv_nth field_element_at_eq_Inr)
  have "map to_be_bytes fes = map (\<lambda>i. take 32 (drop (32 * i) b)) [n..<m]"
    using fe(2) [THEN to_be_field_element] by (intro nth_equalityI) (auto simp: fe(1) algebra_simps)
  then show "concat (map to_be_bytes fes) = take (32 * (m - n)) (drop (32 * n) b)"
    using concat_chunks [OF assms(2)] by simp
qed

lemma hash_to_fe_less: "hash_to_fe h < BLS_MODULUS"
  unfolding hash_to_fe_def by (rule word_mod_less_divisor) (simp add: BLS_MODULUS_def)

lemma hash_to_fe_canonical: "h < BLS_MODULUS \<Longrightarrow> hash_to_fe h = h"
  by (simp add: hash_to_fe_def word_arith_nat_mod word_less_nat_alt)

section \<open>Properties\<close>

text \<open>
  C17. The guest never uses an unauthenticated blob. Given sound batch verification, whatever the
  witness holds, a provider built from it answers a request only with blobs that open the
  requested versioned hashes, one blob for each hash in the order asked.
\<close>

theorem preloaded_blobs_authentic:
  assumes "preloaded_from K w = Inr p" and "batch_sound K verified"
    and "preloaded_get_blobs p r hs = (p', Inr bs)"
  shows "list_all2 (\<lambda>h. blob_opens K verified (ih_hash h)) hs bs"
  using preloaded_from_inv [OF assms(1,2)] assms(3)
  by (rule preloaded.get_blobs_authentic)

definition toy_kzg :: kzg where
  "toy_kzg =
     \<lparr>blob_to_kzg_commitment = (\<lambda>b. Inr (of_nat (length b))),
      compute_blob_kzg_proof = (\<lambda>b c. Inr 7),
      verify_blob_kzg_proof_batch = (\<lambda>bs cs ps. Inr (cs = map (of_nat \<circ> length) bs \<and>
        ps = map (\<lambda>_. 7) bs)),
      kzg_to_versioned_hash = (\<lambda>c. ucast c + 1)\<rparr>"

definition toy_verified :: "blob \<Rightarrow> bytes48 \<Rightarrow> bytes48 \<Rightarrow> bool" where
  "toy_verified b c p \<longleftrightarrow> c = of_nat (length b) \<and> p = 7"

lemma toy_kzg_sound: "batch_sound toy_kzg toy_verified"
  by (auto simp: batch_sound_def toy_kzg_def toy_verified_def)

definition sample_block :: block_info where
  "sample_block = \<lparr>bk_hash = 1, bk_number = 2, bk_parent_hash = 3, bk_timestamp = 4\<rparr>"

theorem preloaded_blobs_authentic_witness:
  "\<exists>p p'. preloaded_from toy_kzg \<lparr>bw_blobs = [[1], [1, 2]], bw_commitments = [1, 2],
       bw_proofs = [7, 7]\<rparr> = Inr p \<and>
     preloaded_get_blobs p sample_block [\<lparr>ih_index = 0, ih_hash = 2\<rparr>, \<lparr>ih_index = 1, ih_hash = 3\<rparr>] =
       (p', Inr [[1], [1, 2]]) \<and>
     blob_opens toy_kzg toy_verified 2 [1] \<and> blob_opens toy_kzg toy_verified 3 [1, 2]"
proof -
  let ?w = "\<lparr>bw_blobs = [[1], [1, 2]], bw_commitments = [1, 2], bw_proofs = [7, 7]\<rparr>"
  let ?hs = "[\<lparr>ih_index = 0, ih_hash = 2\<rparr>, \<lparr>ih_index = 1, ih_hash = 3\<rparr>]"
  let ?p = "\<lparr>pb_entries = [(3, [1, 2]), (2, [1])]\<rparr>"
  have p: "preloaded_from toy_kzg ?w = Inr ?p"
    by (simp add: preloaded_from_def toy_kzg_def)
  have g: "preloaded_get_blobs ?p sample_block ?hs = (\<lparr>pb_entries = []\<rparr>, Inr [[1], [1, 2]])"
    by (simp add: preloaded_get_blobs_def)
  show ?thesis
    using p g preloaded_blobs_authentic [OF p toy_kzg_sound g] by auto
qed

text \<open>
  The provider replays the witness in order. A request succeeds exactly when the next entries
  carry the requested hashes, and then hands out exactly these blobs and keeps the rest for later
  requests.
\<close>

theorem preloaded_replays_in_order:
  "preloaded_get_blobs p r hs = (p', Inr bs) \<longleftrightarrow>
     map ih_hash hs = map fst (take (length hs) (remaining p)) \<and>
     remaining p = zip (map ih_hash hs) bs @ remaining p' \<and> length bs = length hs"
proof -
  have "length hs \<le> length (remaining p) \<and>
      map fst (take (length hs) (remaining p)) = map ih_hash hs \<and>
      bs = map snd (take (length hs) (remaining p)) \<and>
      remaining p' = drop (length hs) (remaining p) \<longleftrightarrow>
    map ih_hash hs = map fst (take (length hs) (remaining p)) \<and>
      remaining p = zip (map ih_hash hs) bs @ remaining p' \<and> length bs = length hs"
    (is "?L \<longleftrightarrow> ?R")
  proof
    assume L: ?L
    then have "zip (map ih_hash hs) bs = take (length hs) (remaining p)"
      by (metis zip_map_fst_snd)
    with L show ?R
      by (metis append_take_drop_id length_map)
  next
    assume R: ?R
    then have eq: "remaining p = zip (map ih_hash hs) bs @ remaining p'"
      and len: "length bs = length hs"
      by blast+
    then show ?L unfolding eq by simp
  qed
  then show ?thesis by (simp only: preloaded_get_blobs_iff)
qed

text \<open>
  Reading a blob of a proposal loses nothing. For a blob of 4096 field elements and at most as
  many published outputs, the intermediate outputs and the trail data together are the blob's field
  elements in order: as many as there are outputs, then the rest, all canonical, and their
  encodings concatenate to the blob.
\<close>

theorem blob_outputs_and_trail:
  assumes "blob_wf b" and "blocks \<le> FIELD_ELEMENTS_PER_BLOB"
    and "intermediate_outputs b blocks = Inr io" and "trail_data b blocks = Inr tr"
  shows "length io = blocks \<and> length io + length tr = FIELD_ELEMENTS_PER_BLOB \<and>
    (\<forall>fe \<in> set (io @ tr). fe < BLS_MODULUS) \<and> concat (map to_be_bytes (io @ tr)) = b"
proof -
  note io = field_elements_range [OF assms(3) [unfolded intermediate_outputs_def]]
  note tr = field_elements_range [OF assms(4) [unfolded trail_data_def] assms(2)]
  have "concat (map to_be_bytes (io @ tr)) =
      take (32 * blocks) b @ take (32 * (FIELD_ELEMENTS_PER_BLOB - blocks)) (drop (32 * blocks) b)"
    using io(3) tr(3) by simp
  also have "\<dots> = b"
    using assms(1,2) by (simp add: blob_wf_def flip: take_add distrib_left)
  finally show ?thesis using io tr assms(2) by auto
qed

lemma zero_blob_elements:
  assumes "m \<le> FIELD_ELEMENTS_PER_BLOB"
  shows "field_elements (replicate (32 * FIELD_ELEMENTS_PER_BLOB) 0) [n..<m] = Inr (replicate (m - n) 0)"
proof -
  have "from_be_bytes (replicate 32 0) = (0 :: U256)"
    by (simp add: from_be_bytes_def be_nat_def numeral_eq_Suc)
  then have "field_element_at (replicate (32 * FIELD_ELEMENTS_PER_BLOB) 0) i = Inr 0" if "i < m" for i
    using that assms by (simp add: field_element_at_eq_Inr BLS_MODULUS_def)
  then have "try_map (field_element_at (replicate (32 * FIELD_ELEMENTS_PER_BLOB) 0)) [n..<m] =
      Inr (map (\<lambda>_. 0) [n..<m])"
    by (intro try_map_all_Inr) simp
  then show ?thesis by (simp add: field_elements_def map_replicate_const)
qed

theorem blob_outputs_and_trail_witness:
  "\<exists>io tr. intermediate_outputs (replicate (32 * FIELD_ELEMENTS_PER_BLOB) 0) 3 = Inr io \<and>
     trail_data (replicate (32 * FIELD_ELEMENTS_PER_BLOB) 0) 3 = Inr tr \<and>
     length io = 3 \<and> length tr = 4093 \<and>
     concat (map to_be_bytes (io @ tr)) = replicate (32 * FIELD_ELEMENTS_PER_BLOB) 0"
proof -
  let ?b = "replicate (32 * FIELD_ELEMENTS_PER_BLOB) (0 :: byte)"
  have io: "intermediate_outputs ?b 3 = Inr (replicate 3 0)"
    and tr: "trail_data ?b 3 = Inr (replicate (FIELD_ELEMENTS_PER_BLOB - 3) 0)"
    unfolding intermediate_outputs_def trail_data_def
    using zero_blob_elements [of 3 0] zero_blob_elements [of FIELD_ELEMENTS_PER_BLOB 3]
    by (simp_all add: FIELD_ELEMENTS_PER_BLOB_def)
  have "blob_wf ?b" "3 \<le> FIELD_ELEMENTS_PER_BLOB"
    by (simp_all add: blob_wf_def FIELD_ELEMENTS_PER_BLOB_def)
  from blob_outputs_and_trail [OF this io tr] io tr show ?thesis
    by (auto simp: FIELD_ELEMENTS_PER_BLOB_def)
qed

end
