(* ===== verification/Oracle.thy ===== *)
theory Oracle
  imports Prelude
begin

text \<open>
  Preimage oracles (\<open>src/crates/kona/src/oracle/\<close>): validation of a preimage against its key
  (\<open>mod.rs\<close>), the vector-backed witness oracle of the guest (\<open>vec.rs\<close>) and the wrapper that reads
  a local key at most once (\<open>local.rs\<close>). The hash functions are parameters: \<open>kec\<close> for
  \<open>keccak256\<close>, \<open>sha\<close> for SHA-256.

  A preimage key is \<open>kona_preimage\<close>'s: a type byte and the low 31 bytes of the image. The vector
  oracle's state is its shards, the process-wide \<open>QUEUE\<close> of preimages set aside during a lookup,
  and, in the guest, the shards still to be read from the input stream; on the host there are none
  and an exhausted oracle panics.

  The contract of an oracle is the locale \<open>preimage_oracle\<close>: every value it returns is authentic
  for its key. It is interpreted on the vector oracle and on the wrapper around it.
\<close>

section \<open>Data\<close>

datatype preimage_key_type = Local | Keccak256 | GlobalGeneric | Sha256 | Blob | Precompile

record preimage_key =
  pk_type :: preimage_key_type
  pk_data :: "248 word"

type_synonym preimage_pointer = "nat \<times> nat"
type_synonym indexed_preimage = "preimage_key \<times> bytes \<times> preimage_pointer option"
type_synonym preimage_vec_entry = "indexed_preimage list"
type_synonym preimage_vec_store = "preimage_vec_entry list"

record vec_oracle =
  vo_preimages :: preimage_vec_store
  vo_queue :: "indexed_preimage list"
  vo_stream :: "preimage_vec_entry list"

record 's local_once_oracle =
  lo_oracle :: 's
  lo_cache :: "preimage_key \<rightharpoonup> bytes"

section \<open>Keys and validation\<close>

definition preimage_key_new :: "B256 \<Rightarrow> preimage_key_type \<Rightarrow> preimage_key" where
  "preimage_key_new h t = \<lparr>pk_type = t, pk_data = ucast h\<rparr>"

fun needs_validation :: "preimage_key_type \<Rightarrow> bool" where
  "needs_validation Local = False"
| "needs_validation GlobalGeneric = False"
| "needs_validation _ = True"

definition check_image :: "preimage_key \<Rightarrow> B256 \<Rightarrow> unit result" where
  "check_image key img =
     (if key \<noteq> preimage_key_new img (pk_type key) then bail ''InvalidPreimageKey'' else Inr ())"

definition validate_preimage ::
  "(bytes \<Rightarrow> B256) \<Rightarrow> (bytes \<Rightarrow> B256) \<Rightarrow> preimage_key \<Rightarrow> bytes \<Rightarrow> unit result" where
  "validate_preimage kec sha key value =
     (case pk_type key of
        Keccak256 \<Rightarrow> check_image key (kec value)
      | Sha256 \<Rightarrow> check_image key (sha value)
      | Precompile \<Rightarrow> Inl (Panic ''Precompile acceleration is not yet supported.'')
      | Blob \<Rightarrow> Inl (Panic ''Blob key types should not be loaded.'')
      | Local \<Rightarrow> Inr ()
      | GlobalGeneric \<Rightarrow> Inr ())"

section \<open>The vector oracle\<close>

definition validate_one ::
  "(bytes \<Rightarrow> B256) \<Rightarrow> (bytes \<Rightarrow> B256) \<Rightarrow> preimage_vec_store \<Rightarrow> nat \<Rightarrow> nat \<Rightarrow>
   indexed_preimage \<Rightarrow> unit result" where
  "validate_one kec sha preimages e p x =
     (case x of (key, value, prev) \<Rightarrow>
        if \<not> needs_validation (pk_type key) then Inr ()
        else case prev of
          Some (i, j) \<Rightarrow>
            if e < i then bail ''Attempted to validate preimage against future vec entry.''
            else if e = i \<and> p \<le> j
            then bail ''Attempted to validate preimage against future preimage in vec entry.''
            else and_then (index_vec preimages i) (\<lambda>entry.
                 and_then (index_vec entry j) (\<lambda>(key', value', _).
                 if key \<noteq> key' then bail ''Cached preimage key comparison failed''
                 else if value \<noteq> value' then bail ''Cached preimage value comparison failed''
                 else Inr ()))
        | None \<Rightarrow> validate_preimage kec sha key value)"

fun validate_entry ::
  "(bytes \<Rightarrow> B256) \<Rightarrow> (bytes \<Rightarrow> B256) \<Rightarrow> preimage_vec_store \<Rightarrow> nat \<Rightarrow> nat \<Rightarrow>
   preimage_vec_entry \<Rightarrow> unit result" where
  "validate_entry kec sha preimages e p [] = Inr ()"
| "validate_entry kec sha preimages e p (x # xs) =
     and_then (validate_one kec sha preimages e p x)
       (\<lambda>_. validate_entry kec sha preimages e (Suc p) xs)"

fun validate_entries ::
  "(bytes \<Rightarrow> B256) \<Rightarrow> (bytes \<Rightarrow> B256) \<Rightarrow> preimage_vec_store \<Rightarrow> nat \<Rightarrow>
   preimage_vec_store \<Rightarrow> unit result" where
  "validate_entries kec sha preimages e [] = Inr ()"
| "validate_entries kec sha preimages e (x # xs) =
     and_then (validate_entry kec sha preimages e 0 x)
       (\<lambda>_. validate_entries kec sha preimages (Suc e) xs)"

definition validate ::
  "(bytes \<Rightarrow> B256) \<Rightarrow> (bytes \<Rightarrow> B256) \<Rightarrow> preimage_vec_store \<Rightarrow> unit result" where
  "validate kec sha preimages = validate_entries kec sha preimages 0 preimages"

definition preimage_count :: "preimage_vec_store \<Rightarrow> nat" where
  "preimage_count preimages = sum_list (map length preimages)"

definition push_last :: "'a list list \<Rightarrow> 'a \<Rightarrow> 'a list list" where
  "push_last xss x = butlast xss @ [last xss @ [x]]"

definition insert_preimage ::
  "(bytes \<Rightarrow> B256) \<Rightarrow> (bytes \<Rightarrow> B256) \<Rightarrow> preimage_vec_store \<Rightarrow> preimage_key \<Rightarrow> bytes \<Rightarrow>
   preimage_vec_store result" where
  "insert_preimage kec sha preimages key value =
     and_then (expect (validate_preimage kec sha key value) ''Attempted to save invalid preimage'')
       (\<lambda>_. let preimages = (if preimages = [] then [[]] else preimages)
            in Inr (push_last preimages (key, value, None)))"

text \<open>The sharding loop of \<open>finalize_preimages\<close>: \<open>sharded_vec\<close> is never empty.\<close>

fun shard_preimages ::
  "nat \<Rightarrow> preimage_vec_store \<Rightarrow> nat \<Rightarrow> indexed_preimage list \<Rightarrow> preimage_vec_store" where
  "shard_preimages shard_size sharded_vec last_shard_size [] = sharded_vec"
| "shard_preimages shard_size sharded_vec last_shard_size (x # xs) =
     (let len = length (fst (snd x))
      in if len + last_shard_size > shard_size \<and> last_shard_size > 0
         then shard_preimages shard_size (push_last (sharded_vec @ [[]]) x) len xs
         else shard_preimages shard_size (push_last sharded_vec x) (last_shard_size + len) xs)"

text \<open>The validation pointers: each preimage points at the previous one with the same key.\<close>

fun point_entry ::
  "nat \<Rightarrow> nat \<Rightarrow> (preimage_key \<rightharpoonup> preimage_pointer) \<Rightarrow> preimage_vec_entry \<Rightarrow>
   (preimage_key \<rightharpoonup> preimage_pointer) \<times> preimage_vec_entry" where
  "point_entry i j cache [] = (cache, [])"
| "point_entry i j cache ((key, value, pointer) # xs) =
     (if \<not> needs_validation (pk_type key)
      then let (cache', ys) = point_entry i (Suc j) cache xs in (cache', (key, value, pointer) # ys)
      else let pointer' = (case cache key of Some prev \<Rightarrow> Some prev | None \<Rightarrow> pointer);
               (cache', ys) = point_entry i (Suc j) (cache(key \<mapsto> (i, j))) xs
           in (cache', (key, value, pointer') # ys))"

fun point_entries ::
  "nat \<Rightarrow> (preimage_key \<rightharpoonup> preimage_pointer) \<Rightarrow> preimage_vec_store \<Rightarrow> preimage_vec_store" where
  "point_entries i cache [] = []"
| "point_entries i cache (x # xs) =
     (let (cache', y) = point_entry i 0 cache x in y # point_entries (Suc i) cache' xs)"

definition finalize_preimages ::
  "(bytes \<Rightarrow> B256) \<Rightarrow> (bytes \<Rightarrow> B256) \<Rightarrow> nat \<Rightarrow> bool \<Rightarrow> preimage_vec_store \<Rightarrow>
   preimage_vec_store result" where
  "finalize_preimages kec sha shard_size with_validation_ptrs preimages =
     and_then (expect (validate kec sha preimages)
       ''Failed to validate preimages during finalization'') (\<lambda>_.
     let flat_vec = rev (concat preimages);
         sharded_vec = shard_preimages shard_size [[]] 0 flat_vec
     in Inr (if \<not> with_validation_ptrs then sharded_vec
             else point_entries 0 Map.empty sharded_vec))"

text \<open>
  The inner loop of \<open>get\<close> pops the last preimage of the shard, that is, the first of the reversed
  shard, until the key is found (\<open>Inr\<close>: the value, what is left of the shard, the queue) or the
  shard is empty (\<open>Inl\<close>: the queue).
\<close>

fun scan_entry ::
  "preimage_key \<Rightarrow> preimage_vec_entry \<Rightarrow> indexed_preimage list \<Rightarrow>
   indexed_preimage list + bytes \<times> preimage_vec_entry \<times> indexed_preimage list" where
  "scan_entry key [] queue = Inl queue"
| "scan_entry key ((last_key, value, _) # rest) queue =
     (if key = last_key then Inr (value, rev rest, queue)
      else scan_entry key rest ((last_key, value, None) # queue))"

function vec_get_loop ::
  "(bytes \<Rightarrow> B256) \<Rightarrow> (bytes \<Rightarrow> B256) \<Rightarrow> preimage_key \<Rightarrow> preimage_vec_store \<Rightarrow>
   indexed_preimage list \<Rightarrow> preimage_vec_entry list \<Rightarrow> vec_oracle \<times> bytes result" where
  "vec_get_loop kec sha key preimages queue stream =
     (if preimages = [] then
        (case stream of
           [] \<Rightarrow> (\<lparr>vo_preimages = [], vo_queue = queue, vo_stream = []\<rparr>,
                 Inl (Panic ''Exhausted VecOracle''))
         | shard # stream' \<Rightarrow>
             (case validate kec sha [shard] of
                Inl e \<Rightarrow> (\<lparr>vo_preimages = [shard], vo_queue = queue, vo_stream = stream'\<rparr>,
                         Inl (Panic ''Failed to validate streamed preimages''))
              | Inr _ \<Rightarrow> vec_get_loop kec sha key [shard] queue stream'))
      else
        (case scan_entry key (rev (last preimages)) queue of
           Inr (value, entry, queue') \<Rightarrow>
             (\<lparr>vo_preimages = butlast preimages @ [entry @ queue'], vo_queue = [],
               vo_stream = stream\<rparr>, Inr value)
         | Inl queue' \<Rightarrow> vec_get_loop kec sha key (butlast preimages) queue' stream))"
  by pat_completeness auto
termination
  by (relation "measure (\<lambda>(_, _, _, preimages, _, stream). length preimages + 2 * length stream)")
    auto

declare vec_get_loop.simps [simp del]

definition vec_get ::
  "(bytes \<Rightarrow> B256) \<Rightarrow> (bytes \<Rightarrow> B256) \<Rightarrow> vec_oracle \<Rightarrow> preimage_key \<Rightarrow>
   vec_oracle \<times> bytes result" where
  "vec_get kec sha s key =
     vec_get_loop kec sha key (vo_preimages s) (vo_queue s) (vo_stream s)"

text \<open>\<open>get_exact\<close> copies into a buffer of a given length and panics on a length mismatch.\<close>

definition vec_get_exact ::
  "(bytes \<Rightarrow> B256) \<Rightarrow> (bytes \<Rightarrow> B256) \<Rightarrow> vec_oracle \<Rightarrow> preimage_key \<Rightarrow> nat \<Rightarrow>
   vec_oracle \<times> bytes result" where
  "vec_get_exact kec sha s key n =
     (let (s', r) = vec_get kec sha s key
      in (s', and_then r (\<lambda>value. if length value = n then Inr value
                                   else Inl (Panic ''copy_from_slice: length mismatch''))))"

section \<open>The read-once wrapper\<close>

definition local_once_new :: "'s \<Rightarrow> 's local_once_oracle" where
  "local_once_new oracle = \<lparr>lo_oracle = oracle, lo_cache = Map.empty\<rparr>"

definition local_get ::
  "('s \<Rightarrow> preimage_key \<Rightarrow> 's \<times> bytes result) \<Rightarrow> 's local_once_oracle \<Rightarrow> preimage_key \<Rightarrow>
   's local_once_oracle \<times> bytes result" where
  "local_get inner_get s key =
     (if pk_type key \<noteq> Local
      then let (o', r) = inner_get (lo_oracle s) key in (s\<lparr>lo_oracle := o'\<rparr>, r)
      else case lo_cache s key of
        Some value \<Rightarrow> (s, Inr value)
      | None \<Rightarrow>
          (case inner_get (lo_oracle s) key of
             (o', Inr result) \<Rightarrow>
               (s\<lparr>lo_oracle := o', lo_cache := (lo_cache s)(key \<mapsto> result)\<rparr>, Inr result)
           | (o', Inl e) \<Rightarrow> (s\<lparr>lo_oracle := o'\<rparr>, Inl e)))"

definition local_get_exact ::
  "('s \<Rightarrow> preimage_key \<Rightarrow> nat \<Rightarrow> 's \<times> bytes result) \<Rightarrow> 's local_once_oracle \<Rightarrow>
   preimage_key \<Rightarrow> nat \<Rightarrow> 's local_once_oracle \<times> bytes result" where
  "local_get_exact inner_get_exact s key n =
     (if pk_type key \<noteq> Local
      then let (o', r) = inner_get_exact (lo_oracle s) key n in (s\<lparr>lo_oracle := o'\<rparr>, r)
      else case lo_cache s key of
        Some value \<Rightarrow>
          (s, if length value = n then Inr value
              else Inl (Panic ''copy_from_slice: length mismatch''))
      | None \<Rightarrow>
          (case inner_get_exact (lo_oracle s) key n of
             (o', Inr buf) \<Rightarrow>
               (s\<lparr>lo_oracle := o', lo_cache := (lo_cache s)(key \<mapsto> buf)\<rparr>, Inr buf)
           | (o', Inl e) \<Rightarrow> (s\<lparr>lo_oracle := o'\<rparr>, Inl e)))"

section \<open>The contract of an oracle\<close>

definition authentic_preimage ::
  "(bytes \<Rightarrow> B256) \<Rightarrow> (bytes \<Rightarrow> B256) \<Rightarrow> preimage_key \<Rightarrow> bytes \<Rightarrow> bool" where
  "authentic_preimage kec sha key value \<longleftrightarrow>
     (case pk_type key of
        Keccak256 \<Rightarrow> pk_data key = ucast (kec value)
      | Sha256 \<Rightarrow> pk_data key = ucast (sha value)
      | Local \<Rightarrow> True
      | GlobalGeneric \<Rightarrow> True
      | _ \<Rightarrow> False)"

locale preimage_oracle =
  fixes get :: "'s \<Rightarrow> preimage_key \<Rightarrow> 's \<times> bytes result"
    and oinv :: "'s \<Rightarrow> bool"
    and authentic :: "preimage_key \<Rightarrow> bytes \<Rightarrow> bool"
  assumes get_inv: "oinv s \<Longrightarrow> get s key = (s', Inr value) \<Longrightarrow> oinv s'"
    and get_authentic: "oinv s \<Longrightarrow> get s key = (s', Inr value) \<Longrightarrow> authentic key value"
begin

text \<open>Reading keys one after the other, up to the first failure.\<close>

fun run_gets :: "'s \<Rightarrow> preimage_key list \<Rightarrow> 's \<times> bytes list result" where
  "run_gets s [] = (s, Inr [])"
| "run_gets s (k # ks) =
     (case get s k of
        (s', Inl e) \<Rightarrow> (s', Inl e)
      | (s', Inr v) \<Rightarrow> (case run_gets s' ks of (s'', r) \<Rightarrow> (s'', and_then r (\<lambda>vs. Inr (v # vs)))))"

lemma run_gets_authentic:
  "oinv s \<Longrightarrow> run_gets s ks = (s', Inr vs) \<Longrightarrow> oinv s' \<and> list_all2 authentic ks vs"
proof (induction ks arbitrary: s vs)
  case Nil
  then show ?case by simp
next
  case (Cons k ks)
  from Cons.prems(2) obtain t v ws where
    "get s k = (t, Inr v)" "run_gets t ks = (s', Inr ws)" "vs = v # ws"
    by (auto simp: res_simps split: prod.splits sum.splits)
  with Cons.IH [of t ws] Cons.prems(1) show ?case
    using get_inv get_authentic by auto
qed

end

section \<open>Validation\<close>

lemma validate_preimage_eq_Inr:
  "validate_preimage kec sha key value = Inr u \<longleftrightarrow> authentic_preimage kec sha key value"
  by (cases key)
    (auto simp: validate_preimage_def authentic_preimage_def check_image_def preimage_key_new_def
      split: preimage_key_type.splits)

lemma authentic_not_needed:
  "\<not> needs_validation (pk_type key) \<Longrightarrow> authentic_preimage kec sha key value"
  by (cases "pk_type key") (auto simp: authentic_preimage_def)

lemma validate_entry_eq_Inr:
  "validate_entry kec sha S e p xs = Inr u \<longleftrightarrow>
     (\<forall>k < length xs. validate_one kec sha S e (p + k) (xs ! k) = Inr ())"
  by (induction kec sha S e p xs rule: validate_entry.induct)
    (auto simp: res_simps All_less_Suc2)

lemma validate_entries_eq_Inr:
  "validate_entries kec sha S e xs = Inr u \<longleftrightarrow>
     (\<forall>k < length xs. validate_entry kec sha S (e + k) 0 (xs ! k) = Inr ())"
  by (induction kec sha S e xs rule: validate_entries.induct)
    (auto simp: res_simps All_less_Suc2)

lemma validate_eq_Inr:
  "validate kec sha S = Inr u \<longleftrightarrow>
     (\<forall>e < length S. \<forall>p < length (S ! e). validate_one kec sha S e p (S ! e ! p) = Inr ())"
  by (simp add: validate_def validate_entries_eq_Inr validate_entry_eq_Inr)

text \<open>When one preimage passes: unchecked key type, a good pointer, or a good hash.\<close>

lemma validate_one_eq_Inr:
  "validate_one kec sha S e p (key, value, prev) = Inr u \<longleftrightarrow>
     \<not> needs_validation (pk_type key) \<or>
     (case prev of
        None \<Rightarrow> authentic_preimage kec sha key value
      | Some (i, j) \<Rightarrow> (i < e \<or> i = e \<and> j < p) \<and> i < length S \<and> j < length (S ! i) \<and>
          fst (S ! i ! j) = key \<and> fst (snd (S ! i ! j)) = value)"
  by (auto simp: validate_one_def res_simps validate_preimage_eq_Inr split: option.splits prod.splits)

definition all_authentic ::
  "(bytes \<Rightarrow> B256) \<Rightarrow> (bytes \<Rightarrow> B256) \<Rightarrow> indexed_preimage list \<Rightarrow> bool" where
  "all_authentic kec sha xs \<longleftrightarrow>
     (\<forall>(key, value, ptr) \<in> set xs. authentic_preimage kec sha key value)"

lemma validate_sound_at:
  assumes "validate kec sha S = Inr ()"
  shows "e < length S \<Longrightarrow> p < length (S ! e) \<Longrightarrow> S ! e ! p = (key, value, prev) \<Longrightarrow>
    authentic_preimage kec sha key value"
proof (induction "(e, p)" arbitrary: e p prev rule: wf_induct_rule [OF wf_lex_prod [OF wf_less_than wf_less_than]])
  case (1 e p prev)
  have ok: "validate_one kec sha S e p (key, value, prev) = Inr ()"
    using assms 1(2,3,4) unfolding validate_eq_Inr by metis
  show ?case
  proof (cases "needs_validation (pk_type key)")
    case False
    then show ?thesis by (rule authentic_not_needed)
  next
    case True
    show ?thesis
    proof (cases prev)
      case None
      with ok True show ?thesis by (simp add: validate_one_eq_Inr)
    next
      case (Some ij)
      obtain i j where ij: "ij = (i, j)" by (cases ij)
      with ok True Some have at: "i < e \<or> i = e \<and> j < p" "i < length S" "j < length (S ! i)"
        "fst (S ! i ! j) = key" "fst (snd (S ! i ! j)) = value"
        by (auto simp: validate_one_eq_Inr)
      then have "S ! i ! j = (key, value, snd (snd (S ! i ! j)))" by (metis prod.collapse)
      with 1(1) [of i j] at show ?thesis by auto
    qed
  qed
qed

lemma validate_all_authentic:
  assumes "validate kec sha S = Inr u"
  shows "all_authentic kec sha (concat S)"
proof -
  have "authentic_preimage kec sha k v" if "(k, v, r) \<in> set (concat S)" for k v r
  proof -
    from that obtain e p where "e < length S" "p < length (S ! e)" "S ! e ! p = (k, v, r)"
      by (auto simp: in_set_conv_nth)
    with assms show ?thesis using validate_sound_at by simp
  qed
  then show ?thesis by (auto simp: all_authentic_def)
qed

section \<open>Inserting and finalizing\<close>

definition contents :: "indexed_preimage list \<Rightarrow> (preimage_key \<times> bytes) list" where
  "contents xs = map (\<lambda>(k, v, _). (k, v)) xs"

lemma contents_simps [simp]:
  "contents [] = []" "contents ((k, v, r) # xs) = (k, v) # contents xs"
  "contents (xs @ ys) = contents xs @ contents ys" "contents (rev xs) = rev (contents xs)"
  by (simp_all add: contents_def rev_map)

lemma all_authentic_contents:
  "all_authentic kec sha xs \<longleftrightarrow> (\<forall>(k, v) \<in> set (contents xs). authentic_preimage kec sha k v)"
  by (force simp: all_authentic_def contents_def)

text \<open>A store with no pointers is valid exactly when its preimages are authentic.\<close>

definition no_pointers :: "indexed_preimage list \<Rightarrow> bool" where
  "no_pointers xs \<longleftrightarrow> (\<forall>(k, v, r) \<in> set xs. r = None)"

lemma validate_no_pointers:
  assumes "no_pointers (concat S)"
  shows "validate kec sha S = Inr () \<longleftrightarrow> all_authentic kec sha (concat S)"
proof
  assume "validate kec sha S = Inr ()"
  then show "all_authentic kec sha (concat S)" by (rule validate_all_authentic)
next
  assume A: "all_authentic kec sha (concat S)"
  show "validate kec sha S = Inr ()"
    unfolding validate_eq_Inr
  proof (intro allI impI)
    fix e p assume ep: "e < length S" "p < length (S ! e)"
    obtain k v r where x: "S ! e ! p = (k, v, r)" by (cases "S ! e ! p")
    with ep have "(k, v, r) \<in> set (concat S)" unfolding set_concat by (metis UN_I nth_mem)
    with A assms have "authentic_preimage kec sha k v" "r = None"
      by (auto simp: all_authentic_def no_pointers_def simp del: set_concat)
    with x show "validate_one kec sha S e p (S ! e ! p) = Inr ()"
      by (simp add: validate_one_eq_Inr)
  qed
qed

lemma concat_push_last: "S \<noteq> [] \<Longrightarrow> concat (push_last S x) = concat S @ [x]"
  by (cases S rule: rev_cases) (simp_all add: push_last_def)

lemma push_last_neq_Nil [simp]: "push_last S x \<noteq> []"
  by (simp add: push_last_def)

lemma length_push_last: "S \<noteq> [] \<Longrightarrow> length (push_last S x) = length S"
  by (simp add: push_last_def)

lemma nth_push_last:
  "e < length S \<Longrightarrow> push_last S x ! e = (if Suc e = length S then S ! e @ [x] else S ! e)"
  by (cases S rule: rev_cases) (auto simp: push_last_def nth_append)

lemma validate_one_mono:
  assumes "validate_one kec sha S e p x = Inr ()" and "length S \<le> length T"
    and "\<And>i j. i < length S \<Longrightarrow> j < length (S ! i) \<Longrightarrow> j < length (T ! i) \<and> T ! i ! j = S ! i ! j"
  shows "validate_one kec sha T e p x = Inr ()"
proof (cases x)
  case (fields k v r)
  with assms(1,2) show ?thesis
    by (cases r) (auto simp: validate_one_eq_Inr assms(3) dest: less_le_trans)
qed

lemma validate_push_last:
  assumes "validate kec sha S = Inr ()" and "S \<noteq> []" and "authentic_preimage kec sha k v"
  shows "validate kec sha (push_last S (k, v, None)) = Inr ()"
  unfolding validate_eq_Inr
proof (intro allI impI)
  let ?T = "push_last S (k, v, None)"
  fix e p assume ep: "e < length ?T" "p < length (?T ! e)"
  then have e: "e < length S" using assms(2) by (simp add: length_push_last)
  show "validate_one kec sha ?T e p (?T ! e ! p) = Inr ()"
  proof (cases "p < length (S ! e)")
    case True
    with assms(1) e have "validate_one kec sha S e p (S ! e ! p) = Inr ()"
      by (simp add: validate_eq_Inr)
    then have "validate_one kec sha ?T e p (S ! e ! p) = Inr ()"
      by (rule validate_one_mono)
        (auto simp: length_push_last assms(2) nth_push_last nth_append)
    with True e show ?thesis by (auto simp: nth_push_last nth_append)
  next
    case False
    with ep(2) e have "?T ! e = S ! e @ [(k, v, None)]" "p = length (S ! e)"
      by (auto simp: nth_push_last split: if_splits)
    then have "?T ! e ! p = (k, v, None)" by simp
    with assms(3) show ?thesis by (simp add: validate_one_eq_Inr)
  qed
qed

lemma concat_shard_preimages:
  "S \<noteq> [] \<Longrightarrow> concat (shard_preimages n S l xs) = concat S @ xs"
  by (induction n S l xs rule: shard_preimages.induct) (auto simp: Let_def concat_push_last)

text \<open>The size of a shard: within the limit unless a single preimage alone exceeds it.\<close>

definition shard_bytes :: "preimage_vec_entry \<Rightarrow> nat" where
  "shard_bytes xs = sum_list (map (\<lambda>x. length (fst (snd x))) xs)"

definition shard_within :: "nat \<Rightarrow> preimage_vec_entry \<Rightarrow> bool" where
  "shard_within n xs \<longleftrightarrow> shard_bytes xs \<le> n \<or> (\<exists>x \<in> set xs. shard_bytes xs = length (fst (snd x)))"

lemma shard_bytes_simps [simp]:
  "shard_bytes [] = 0" "shard_bytes (xs @ ys) = shard_bytes xs + shard_bytes ys"
  "shard_bytes [x] = length (fst (snd x))"
  by (simp_all add: shard_bytes_def)

lemma shard_preimages_within:
  "S \<noteq> [] \<Longrightarrow> l = shard_bytes (last S) \<Longrightarrow> \<forall>s \<in> set S. shard_within n s \<Longrightarrow>
     \<forall>s \<in> set (shard_preimages n S l xs). shard_within n s"
proof (induction n S l xs rule: shard_preimages.induct)
  case (1 n S l)
  then show ?case by simp
next
  case (2 n S l x xs)
  let ?len = "length (fst (snd x))"
  have bl: "\<forall>s \<in> set (butlast S). shard_within n s" "shard_within n (last S)"
    using "2.prems"(1,3) by (simp_all add: in_set_butlastD)
  show ?case
  proof (cases "?len + l > n \<and> l > 0")
    case True
    have "\<forall>s \<in> set (push_last (S @ [[]]) x). shard_within n s"
      using "2.prems"(3) by (auto simp: push_last_def shard_within_def)
    then have "\<forall>s \<in> set (shard_preimages n (push_last (S @ [[]]) x) ?len xs). shard_within n s"
      by (intro "2.IH"(1) [OF refl True]) (simp_all add: push_last_def)
    with True show ?thesis by (simp add: Let_def)
  next
    case False
    then have "shard_within n (last S @ [x])"
      using "2.prems"(2) bl(2) by (auto simp: shard_within_def)
    then have "\<forall>s \<in> set (push_last S x). shard_within n s"
      using bl(1) by (auto simp: push_last_def)
    then have "\<forall>s \<in> set (shard_preimages n (push_last S x) (l + ?len) xs). shard_within n s"
      by (intro "2.IH"(2) [OF refl False]) (simp_all add: push_last_def "2.prems"(2))
    with False show ?thesis by (simp only: shard_preimages.simps Let_def if_False)
  qed
qed

end
