(* ===== verification/Oracle_Replay.thy ===== *)
theory Oracle_Replay
  imports Oracle
begin

text \<open>
  Facts about the oracles of theory \<open>Oracle\<close>: a finalized witness validates and keeps its
  preimages, the vector oracle's lookup is the removal of the last matching preimage from one
  sequence, and both the vector oracle and the read-once wrapper are authentic oracles.
\<close>

section \<open>Validation pointers\<close>

text \<open>The position \<open>(a, b)\<close> comes before \<open>(i, j)\<close> and holds the key \<open>k\<close>.\<close>

definition earlier_at :: "preimage_vec_store \<Rightarrow> nat \<Rightarrow> nat \<Rightarrow> preimage_key \<Rightarrow> preimage_pointer \<Rightarrow> bool" where
  "earlier_at S i j k ab \<longleftrightarrow> (case ab of (a, b) \<Rightarrow>
     (a < i \<or> a = i \<and> b < j) \<and> a < length S \<and> b < length (S ! a) \<and> fst (S ! a ! b) = k)"

definition cache_ok :: "preimage_vec_store \<Rightarrow> nat \<Rightarrow> nat \<Rightarrow> (preimage_key \<rightharpoonup> preimage_pointer) \<Rightarrow> bool" where
  "cache_ok S i j cache \<longleftrightarrow> (\<forall>k ab. cache k = Some ab \<longrightarrow> earlier_at S i j k ab)"

definition pointed_like :: "preimage_vec_store \<Rightarrow> nat \<Rightarrow> nat \<Rightarrow> indexed_preimage \<Rightarrow> indexed_preimage \<Rightarrow> bool" where
  "pointed_like S i j x y \<longleftrightarrow>
     fst y = fst x \<and> fst (snd y) = fst (snd x) \<and>
     (case snd (snd y) of None \<Rightarrow> True | Some ab \<Rightarrow> earlier_at S i j (fst x) ab)"

lemma earlier_at_mono: "earlier_at S i j k ab \<Longrightarrow> j \<le> j' \<Longrightarrow> earlier_at S i j' k ab"
  by (auto simp: earlier_at_def)

lemma earlier_at_next: "earlier_at S i j k ab \<Longrightarrow> earlier_at S (Suc i) 0 k ab"
  by (auto simp: earlier_at_def)

lemma cache_ok_mono: "cache_ok S i j c \<Longrightarrow> j \<le> j' \<Longrightarrow> cache_ok S i j' c"
  by (auto simp: cache_ok_def intro: earlier_at_mono)

lemma cache_ok_insert:
  assumes "cache_ok S i j c" and "i < length S" and "j < length (S ! i)" and "fst (S ! i ! j) = k"
  shows "cache_ok S i (Suc j) (c(k \<mapsto> (i, j)))"
  using cache_ok_mono [OF assms(1), of "Suc j"] assms(2-)
  by (auto simp: cache_ok_def earlier_at_def)

text \<open>A suffix of shard \<open>i\<close> that starts at position \<open>j\<close>.\<close>

definition suffix_at :: "preimage_vec_store \<Rightarrow> nat \<Rightarrow> nat \<Rightarrow> preimage_vec_entry \<Rightarrow> bool" where
  "suffix_at S i j xs \<longleftrightarrow> i < length S \<and> drop j (S ! i) = xs \<and> j \<le> length (S ! i)"

lemma suffix_at_Cons:
  assumes "suffix_at S i j (x # xs)"
  shows "suffix_at S i (Suc j) xs" "j < length (S ! i)" "S ! i ! j = x"
proof -
  have d: "drop j (S ! i) = x # xs" and i: "i < length S"
    using assms by (simp_all add: suffix_at_def)
  show j: "j < length (S ! i)" using d by (metis drop_all list.simps(3) not_le)
  show "S ! i ! j = x" using d by (rule nth_via_drop)
  have "drop (Suc j) (S ! i) = xs" using d by (metis drop_Suc list.sel(3) tl_drop)
  with i j show "suffix_at S i (Suc j) xs" by (simp add: suffix_at_def)
qed

lemma point_entry_ok:
  assumes "suffix_at S i j xs" and "cache_ok S i j cache" and "no_pointers xs"
    and "point_entry i j cache xs = (cache', ys)"
  shows "length ys = length xs \<and> (\<forall>n < length xs. pointed_like S i (j + n) (xs ! n) (ys ! n)) \<and>
    cache_ok S i (j + length xs) cache'"
  using assms
proof (induction i j cache xs arbitrary: cache' ys rule: point_entry.induct)
  case (1 i j cache)
  then show ?case by simp
next
  case (2 i j cache key val pointer xs)
  note suffix = suffix_at_Cons [OF "2.prems"(1)]
  have none: "pointer = None" "no_pointers xs" using "2.prems"(3) by (auto simp: no_pointers_def)
  show ?case
  proof (cases "needs_validation (pk_type key)")
    case False
    then obtain zs where zs: "point_entry i (Suc j) cache xs = (cache', zs)"
        "ys = (key, val, pointer) # zs"
      using "2.prems"(4) by (auto split: prod.splits)
    have "cache_ok S i (Suc j) cache" using "2.prems"(2) by (rule cache_ok_mono) simp
    note IH = "2.IH"(1) [OF False suffix(1) this none(2) zs(1)]
    have "pointed_like S i j (key, val, pointer) (key, val, pointer)"
      by (simp add: pointed_like_def none(1))
    with IH zs(2) show ?thesis by (auto simp: All_less_Suc2)
  next
    case True
    let ?p = "case cache key of Some prev \<Rightarrow> Some prev | None \<Rightarrow> pointer"
    from True obtain zs where
        zs: "point_entry i (Suc j) (cache(key \<mapsto> (i, j))) xs = (cache', zs)"
        "ys = (key, val, ?p) # zs"
      using "2.prems"(4) by (auto simp: Let_def split: prod.splits)
    have "cache_ok S i (Suc j) (cache(key \<mapsto> (i, j)))"
      using "2.prems"(1,2) suffix by (intro cache_ok_insert) (auto simp: suffix_at_def)
    note IH = "2.IH"(2) [OF _ refl suffix(1) this none(2) zs(1)]
    have "pointed_like S i j (key, val, pointer) (key, val, ?p)"
      using "2.prems"(2) none(1) by (auto simp: pointed_like_def cache_ok_def split: option.splits)
    with IH True zs(2) show ?thesis by (auto simp: All_less_Suc2)
  qed
qed

lemma point_entries_ok:
  assumes "drop i S = xs" and "cache_ok S i 0 cache" and "no_pointers (concat xs)"
  shows "length (point_entries i cache xs) = length xs \<and>
    (\<forall>m < length xs. length (point_entries i cache xs ! m) = length (xs ! m) \<and>
       (\<forall>n < length (xs ! m).
          pointed_like S (i + m) n (xs ! m ! n) (point_entries i cache xs ! m ! n)))"
  using assms
proof (induction i cache xs rule: point_entries.induct)
  case (1 i cache)
  then show ?case by simp
next
  case (2 i cache x xs)
  obtain cache' y where y: "point_entry i 0 cache x = (cache', y)"
    by (cases "point_entry i 0 cache x")
  have i: "i < length S" using "2.prems"(1) by (metis drop_all list.simps(3) not_le)
  have x: "S ! i = x" using "2.prems"(1) by (rule nth_via_drop)
  have np: "no_pointers x" "no_pointers (concat xs)"
    using "2.prems"(3) by (auto simp: no_pointers_def)
  have "suffix_at S i 0 x" using i x by (simp add: suffix_at_def)
  note hd = point_entry_ok [OF this "2.prems"(2) np(1) y]
  have "cache_ok S (Suc i) 0 cache'"
    using hd by (simp add: cache_ok_def) (meson earlier_at_next)
  moreover have "drop (Suc i) S = xs" using "2.prems"(1) by (metis drop_Suc list.sel(3) tl_drop)
  ultimately have tl: "length (point_entries (Suc i) cache' xs) = length xs \<and>
    (\<forall>m < length xs. length (point_entries (Suc i) cache' xs ! m) = length (xs ! m) \<and>
       (\<forall>n < length (xs ! m).
          pointed_like S (Suc i + m) n (xs ! m ! n) (point_entries (Suc i) cache' xs ! m ! n)))"
    using "2.IH" y np(2) by simp
  show ?case using hd tl by (simp add: y All_less_Suc2)
qed

lemma point_entries_pointed:
  assumes "no_pointers (concat S)"
  shows "length (point_entries 0 Map.empty S) = length S"
    and "e < length S \<Longrightarrow> length (point_entries 0 Map.empty S ! e) = length (S ! e)"
    and "e < length S \<Longrightarrow> p < length (S ! e) \<Longrightarrow>
      pointed_like S e p (S ! e ! p) (point_entries 0 Map.empty S ! e ! p)"
  using point_entries_ok [of 0 S S Map.empty] assms by (simp_all add: cache_ok_def)

text \<open>Preimages of one checked key do not conflict: two values of the same key are equal.\<close>

definition conflict_free :: "(preimage_key \<times> bytes) list \<Rightarrow> bool" where
  "conflict_free kvs \<longleftrightarrow> (\<forall>(k, v) \<in> set kvs. \<forall>(k', v') \<in> set kvs.
     needs_validation (pk_type k) \<and> k = k' \<longrightarrow> v = v')"

lemma contents_alt: "contents xs = map (\<lambda>x. (fst x, fst (snd x))) xs"
  by (auto simp: contents_def)

lemma in_contents_at:
  assumes "e < length S" and "p < length (S ! e)"
  shows "(fst (S ! e ! p), fst (snd (S ! e ! p))) \<in> set (contents (concat S))"
proof -
  have "S ! e ! p \<in> set (concat S)" unfolding set_concat using assms by (metis UN_I nth_mem)
  then show ?thesis unfolding contents_alt set_map by (rule image_eqI [rotated]) simp
qed

lemma validate_point_entries:
  assumes np: "no_pointers (concat S)" and auth: "all_authentic kec sha (concat S)"
    and cf: "conflict_free (contents (concat S))"
  shows "validate kec sha (point_entries 0 Map.empty S) = Inr ()"
  unfolding validate_eq_Inr
proof (intro allI impI)
  let ?T = "point_entries 0 Map.empty S"
  note T = point_entries_pointed [OF np]
  fix e p assume "e < length ?T" "p < length (?T ! e)"
  then have ep: "e < length S" "p < length (S ! e)" by (simp_all add: T)
  obtain k v r where x: "?T ! e ! p = (k, v, r)" by (cases "?T ! e ! p")
  have kv: "fst (S ! e ! p) = k" "fst (snd (S ! e ! p)) = v"
    and r: "case r of None \<Rightarrow> True | Some ab \<Rightarrow> earlier_at S e p k ab"
    using T(3) [OF ep] x by (auto simp: pointed_like_def)
  have kv_in: "(k, v) \<in> set (contents (concat S))" using in_contents_at [OF ep] kv by simp
  have "validate_one kec sha ?T e p (k, v, r) = Inr ()"
  proof (cases r)
    case None
    then show ?thesis
      using auth kv_in by (auto simp: validate_one_eq_Inr all_authentic_contents)
  next
    case (Some ab)
    obtain a b where ab: "ab = (a, b)" by (cases ab)
    with r Some have at: "a < e \<or> a = e \<and> b < p" "a < length S" "b < length (S ! a)"
        "fst (S ! a ! b) = k"
      by (simp_all add: earlier_at_def)
    have same: "fst (?T ! a ! b) = fst (S ! a ! b)" "fst (snd (?T ! a ! b)) = fst (snd (S ! a ! b))"
      using T(3) [OF at(2,3)] by (simp_all add: pointed_like_def)
    have "(k, fst (snd (S ! a ! b))) \<in> set (contents (concat S))"
      using in_contents_at [OF at(2,3)] at(4) by simp
    then have "needs_validation (pk_type k) \<longrightarrow> fst (snd (S ! a ! b)) = v"
      using cf kv_in by (auto simp: conflict_free_def)
    then show ?thesis using Some ab at same T by (auto simp: validate_one_eq_Inr)
  qed
  with x show "validate_one kec sha ?T e p (?T ! e ! p) = Inr ()" by simp
qed

lemma contents_point_entries:
  assumes "no_pointers (concat S)"
  shows "contents (concat (point_entries 0 Map.empty S)) = contents (concat S)"
proof -
  note T = point_entries_pointed [OF assms]
  have "map contents (point_entries 0 Map.empty S) = map contents S"
  proof (rule nth_equalityI)
    show "length (map contents (point_entries 0 Map.empty S)) = length (map contents S)"
      by (simp add: T)
    fix e assume "e < length (map contents (point_entries 0 Map.empty S))"
    then have e: "e < length S" by (simp add: T)
    have "contents (point_entries 0 Map.empty S ! e) = contents (S ! e)"
      unfolding contents_alt
      by (rule nth_equalityI) (simp_all add: T e T(3) [OF e, unfolded pointed_like_def])
    then show "map contents (point_entries 0 Map.empty S) ! e = map contents S ! e"
      by (simp add: T e)
  qed
  moreover have "contents (concat xss) = concat (map contents xss)" for xss
    by (induction xss) simp_all
  ultimately show ?thesis by simp
qed

section \<open>Lookup as removal of the last match\<close>

text \<open>The specification: one sequence, from which a lookup takes the last entry with the key.\<close>

fun remove_first :: "'k \<Rightarrow> ('k \<times> 'v) list \<Rightarrow> ('v \<times> ('k \<times> 'v) list) option" where
  "remove_first k [] = None"
| "remove_first k ((k', v) # kvs) =
     (if k = k' then Some (v, kvs)
      else map_option (\<lambda>(w, rest). (w, (k', v) # rest)) (remove_first k kvs))"

definition remove_last :: "'k \<Rightarrow> ('k \<times> 'v) list \<Rightarrow> ('v \<times> ('k \<times> 'v) list) option" where
  "remove_last k kvs = map_option (\<lambda>(v, rest). (v, rev rest)) (remove_first k (rev kvs))"

lemma remove_first_append:
  "remove_first k (xs @ ys) =
     (case remove_first k xs of
        Some (v, rest) \<Rightarrow> Some (v, rest @ ys)
      | None \<Rightarrow> map_option (\<lambda>(v, rest). (v, xs @ rest)) (remove_first k ys))"
  by (induction k xs rule: remove_first.induct)
    (auto split: option.splits simp: map_option_case)

lemma remove_last_append:
  "remove_last k (xs @ ys) =
     (case remove_last k ys of
        Some (v, rest) \<Rightarrow> Some (v, xs @ rest)
      | None \<Rightarrow> map_option (\<lambda>(v, rest). (v, rest @ ys)) (remove_last k xs))"
  by (cases "remove_first k (rev ys)"; cases "remove_first k (rev xs)")
    (auto simp: remove_last_def remove_first_append)

lemma remove_last_SomeD:
  assumes "remove_last k kvs = Some (v, rest)"
  shows "\<exists>xs ys. kvs = xs @ (k, v) # ys \<and> rest = xs @ ys \<and> k \<notin> fst ` set ys"
proof -
  have "\<exists>xs ys. kvs = xs @ (k, v) # ys \<and> rest = xs @ ys \<and> k \<notin> fst ` set xs"
    if "remove_first k kvs = Some (v, rest)" for kvs rest
    using that
  proof (induction k kvs arbitrary: rest rule: remove_first.induct)
    case (2 k k' w kvs)
    show ?case
    proof (cases "k = k'")
      case True
      with 2 show ?thesis by (intro exI [of _ "[]"] exI [of _ kvs]) auto
    next
      case False
      with "2.prems" obtain r where "remove_first k kvs = Some (v, r)" "rest = (k', w) # r"
        by auto
      with "2.IH" False obtain xs ys where "kvs = xs @ (k, v) # ys" "r = xs @ ys" "k \<notin> fst ` set xs"
        by blast
      with False \<open>rest = (k', w) # r\<close> show ?thesis
        by (intro exI [of _ "(k', w) # xs"] exI [of _ ys]) auto
    qed
  qed simp
  moreover obtain r where "remove_first k (rev kvs) = Some (v, r)" "rest = rev r"
    using assms by (auto simp: remove_last_def)
  ultimately obtain xs ys where "rev kvs = xs @ (k, v) # ys" "r = xs @ ys" "k \<notin> fst ` set xs"
    by blast
  then have "kvs = rev ys @ (k, v) # rev xs" "rest = rev ys @ rev xs" "k \<notin> fst ` set (rev xs)"
    using \<open>rest = rev r\<close> by (simp_all add: rev_swap)
  then show ?thesis by blast
qed

lemma scan_entry_spec:
  "(case scan_entry key xs queue of
      Inr (v, entry, q) \<Rightarrow>
        \<exists>mid. remove_first key (contents xs) = Some (v, mid) \<and>
          contents (entry @ q) = rev mid @ contents queue
    | Inl q \<Rightarrow> remove_first key (contents xs) = None \<and> contents q = rev (contents xs) @ contents queue)"
proof (induction key xs queue rule: scan_entry.induct)
  case (1 key queue)
  then show ?case by simp
next
  case (2 key k v r rest queue)
  then show ?case
    by (cases "key = k") (auto split: sum.splits)
qed

lemma scan_entry_set:
  assumes "scan_entry key xs queue = Inr (v, entry, q)"
  shows "set (contents (entry @ q)) \<subseteq> set (contents xs) \<union> set (contents queue) \<and>
    (key, v) \<in> set (contents xs)"
  using assms
  by (induction key xs queue rule: scan_entry.induct) (auto split: if_splits)

lemma scan_entry_Inl_set:
  assumes "scan_entry key xs queue = Inl q"
  shows "set (contents q) = set (contents xs) \<union> set (contents queue)"
  using assms
  by (induction key xs queue rule: scan_entry.induct) (auto split: if_splits)

text \<open>
  Everything the oracle may still hand out, as one sequence: the shards still to be streamed in
  front, then the shards in memory.
\<close>

definition oracle_sequence :: "vec_oracle \<Rightarrow> (preimage_key \<times> bytes) list" where
  "oracle_sequence s =
     contents (concat (rev (vo_stream s))) @ contents (concat (vo_preimages s)) @ contents (vo_queue s)"

lemma concat_butlast_last: "xss \<noteq> [] \<Longrightarrow> concat xss = concat (butlast xss) @ last xss"
  by (cases xss rule: rev_cases) simp_all

lemma vec_get_loop_spec:
  assumes "\<forall>shard \<in> set stream. validate kec sha [shard] = Inr ()"
    and "remove_last key (contents (concat (rev stream)) @ contents (concat preimages)) = Some (v, rest)"
  shows "\<exists>s'. vec_get_loop kec sha key preimages queue stream = (s', Inr v) \<and>
    oracle_sequence s' = rest @ contents queue \<and> vo_queue s' = [] \<and>
    set (vo_stream s') \<subseteq> set stream"
  using assms
proof (induction kec sha key preimages queue stream arbitrary: rest rule: vec_get_loop.induct)
  case (1 kec sha key preimages queue stream)
  show ?case
  proof (cases "preimages = []")
    case True
    show ?thesis
    proof (cases stream)
      case Nil
      with True "1.prems" show ?thesis by (simp add: remove_last_def)
    next
      case (Cons shard stream')
      have ok: "validate kec sha [shard] = Inr ()" using "1.prems"(1) Cons by simp
      have "remove_last key (contents (concat (rev stream')) @ contents (concat [shard])) = Some (v, rest)"
        using "1.prems"(2) True Cons by simp
      with "1.IH"(1) [OF True Cons ok] "1.prems"(1) Cons obtain s' where
        "vec_get_loop kec sha key [shard] queue stream' = (s', Inr v)"
        "oracle_sequence s' = rest @ contents queue" "vo_queue s' = []"
        "set (vo_stream s') \<subseteq> set stream'"
        by auto
      then show ?thesis
        using True Cons ok by (subst vec_get_loop.simps) auto
    qed
  next
    case False
    let ?front = "contents (concat (rev stream)) @ contents (concat (butlast preimages))"
    have split: "contents (concat (rev stream)) @ contents (concat preimages) =
        ?front @ contents (last preimages)"
      using concat_butlast_last [OF False] by simp
    show ?thesis
    proof (cases "scan_entry key (rev (last preimages)) queue")
      case (Inl q)
      then have q: "remove_last key (contents (last preimages)) = None"
          "contents q = contents (last preimages) @ contents queue"
        using scan_entry_spec [of key "rev (last preimages)" queue] by (simp_all add: remove_last_def)
      from "1.prems"(2) q(1) obtain rest' where
          rest': "remove_last key ?front = Some (v, rest')" "rest = rest' @ contents (last preimages)"
        unfolding split remove_last_append by auto
      from "1.IH"(2) [OF False Inl "1.prems"(1) rest'(1)] rest'(2) q(2) False Inl show ?thesis
        by (subst vec_get_loop.simps) simp
    next
      case (Inr b)
      obtain w entry q where b: "b = (w, entry, q)" by (cases b)
      with Inr obtain mid where mid: "remove_first key (rev (contents (last preimages))) = Some (w, mid)"
          "contents (entry @ q) = rev mid @ contents queue"
        using scan_entry_spec [of key "rev (last preimages)" queue] by auto
      then have "remove_last key (contents (last preimages)) = Some (w, rev mid)"
        by (simp add: remove_last_def)
      with "1.prems"(2) have vw: "v = w" "rest = ?front @ rev mid"
        unfolding split remove_last_append by simp_all
      with Inr b mid(2) False show ?thesis
        by (subst vec_get_loop.simps) (simp add: oracle_sequence_def)
    qed
  qed
qed

lemma vec_get_loop_absent:
  assumes "remove_last key (contents (concat (rev stream)) @ contents (concat preimages)) = None"
  shows "\<exists>s' msg. vec_get_loop kec sha key preimages queue stream = (s', Inl (Panic msg))"
  using assms
proof (induction kec sha key preimages queue stream rule: vec_get_loop.induct)
  case (1 kec sha key preimages queue stream)
  show ?case
  proof (cases "preimages = []")
    case True
    show ?thesis
    proof (cases stream)
      case Nil
      with True show ?thesis by (subst vec_get_loop.simps) simp
    next
      case (Cons shard stream')
      show ?thesis
      proof (cases "validate kec sha [shard]")
        case (Inl e)
        with True Cons show ?thesis by (subst vec_get_loop.simps) simp
      next
        case (Inr u)
        with "1.IH"(1) [OF True Cons Inr] "1.prems" True Cons show ?thesis
          by (subst vec_get_loop.simps) simp
      qed
    qed
  next
    case False
    let ?front = "contents (concat (rev stream)) @ contents (concat (butlast preimages))"
    have split: "contents (concat (rev stream)) @ contents (concat preimages) =
        ?front @ contents (last preimages)"
      using concat_butlast_last [OF False] by simp
    have none: "remove_last key (contents (last preimages)) = None" "remove_last key ?front = None"
      using "1.prems" unfolding split remove_last_append by (auto split: option.splits)
    then obtain q where q: "scan_entry key (rev (last preimages)) queue = Inl q"
      using scan_entry_spec [of key "rev (last preimages)" queue]
      by (auto simp: remove_last_def split: sum.splits)
    with "1.IH"(2) [OF False q none(2)] False show ?thesis
      by (subst vec_get_loop.simps) simp
  qed
qed

section \<open>The oracles are authentic\<close>

definition vec_inv :: "(bytes \<Rightarrow> B256) \<Rightarrow> (bytes \<Rightarrow> B256) \<Rightarrow> vec_oracle \<Rightarrow> bool" where
  "vec_inv kec sha s \<longleftrightarrow> all_authentic kec sha (concat (vo_preimages s) @ vo_queue s)"

lemma all_authentic_simps [simp]:
  "all_authentic kec sha []"
  "all_authentic kec sha (xs @ ys) \<longleftrightarrow> all_authentic kec sha xs \<and> all_authentic kec sha ys"
  "all_authentic kec sha (rev xs) \<longleftrightarrow> all_authentic kec sha xs"
  by (simp_all add: all_authentic_def ball_Un)

lemma vec_get_loop_inv:
  assumes "all_authentic kec sha (concat preimages)" and "all_authentic kec sha queue"
    and "vec_get_loop kec sha key preimages queue stream = (s', Inr v)"
  shows "vec_inv kec sha s' \<and> authentic_preimage kec sha key v"
  using assms
proof (induction kec sha key preimages queue stream rule: vec_get_loop.induct)
  case (1 kec sha key preimages queue stream)
  note unfold = vec_get_loop.simps [of kec sha key preimages queue stream]
  show ?case
  proof (cases "preimages = []")
    case True
    with "1.prems"(3) [unfolded unfold] obtain shard stream' where stream: "stream = shard # stream'"
        and ok: "validate kec sha [shard] = Inr ()"
        and get: "vec_get_loop kec sha key [shard] queue stream' = (s', Inr v)"
      by (auto split: list.splits sum.splits)
    from validate_all_authentic [OF ok] show ?thesis
      using "1.IH"(1) [OF True stream ok] "1.prems"(2) get by simp
  next
    case False
    have auth: "all_authentic kec sha (concat (butlast preimages))"
        "all_authentic kec sha (last preimages)"
      using "1.prems"(1) concat_butlast_last [OF False] by simp_all
    show ?thesis
    proof (cases "scan_entry key (rev (last preimages)) queue")
      case (Inl q)
      with scan_entry_Inl_set [OF Inl] have "all_authentic kec sha q"
        using auth(2) "1.prems"(2) by (auto simp: all_authentic_contents)
      with "1.IH"(2) [OF False Inl auth(1)] "1.prems"(3) False Inl show ?thesis
        by (simp add: unfold)
    next
      case (Inr b)
      obtain w entry q where b: "b = (w, entry, q)" by (cases b)
      with "1.prems"(3) False Inr have
        "s' = \<lparr>vo_preimages = butlast preimages @ [entry @ q], vo_queue = [], vo_stream = stream\<rparr>"
        "v = w"
        by (simp_all add: unfold)
      moreover have "set (contents (entry @ q)) \<subseteq>
          set (contents (rev (last preimages))) \<union> set (contents queue) \<and>
          (key, w) \<in> set (contents (rev (last preimages)))"
        using scan_entry_set Inr b by blast
      ultimately show ?thesis
        using auth "1.prems"(2) unfolding vec_inv_def all_authentic_contents by auto
    qed
  qed
qed

lemma vec_get_inv:
  "vec_inv kec sha s \<Longrightarrow> vec_get kec sha s key = (s', Inr v) \<Longrightarrow>
     vec_inv kec sha s' \<and> authentic_preimage kec sha key v"
  unfolding vec_get_def by (rule vec_get_loop_inv) (simp_all add: vec_inv_def)

interpretation vec: preimage_oracle "vec_get kec sha" "vec_inv kec sha" "authentic_preimage kec sha"
  for kec sha
  by unfold_locales (blast dest: vec_get_inv)+

text \<open>The wrapper keeps the inner oracle's guarantee: local keys carry no obligation.\<close>

definition local_inv :: "('s \<Rightarrow> bool) \<Rightarrow> 's local_once_oracle \<Rightarrow> bool" where
  "local_inv oinv s \<longleftrightarrow> oinv (lo_oracle s)"

lemma local_get_cases:
  assumes "local_get get s key = (s', Inr v)"
  obtains (inner) o' where "get (lo_oracle s) key = (o', Inr v)" "lo_oracle s' = o'"
      "lo_cache s' = (if pk_type key = Local then (lo_cache s)(key \<mapsto> v) else lo_cache s)"
      "pk_type key = Local \<Longrightarrow> lo_cache s key = None"
  | (cached) "pk_type key = Local" "lo_cache s key = Some v" "s' = s"
  using assms
  by (auto simp: local_get_def Let_def split: if_splits option.splits prod.splits sum.splits)

interpretation local_vec: preimage_oracle "local_get (vec_get kec sha)" "local_inv (vec_inv kec sha)"
    "authentic_preimage kec sha"
  for kec sha
proof
  fix s key s' v
  assume inv: "local_inv (vec_inv kec sha) s" and get: "local_get (vec_get kec sha) s key = (s', Inr v)"
  show "local_inv (vec_inv kec sha) s'"
    using get inv by (cases rule: local_get_cases) (auto simp: local_inv_def dest: vec_get_inv)
  show "authentic_preimage kec sha key v"
    using get inv
    by (cases rule: local_get_cases)
      (auto simp: local_inv_def authentic_preimage_def dest: vec_get_inv)
qed

section \<open>Recording and replaying\<close>

text \<open>Inserting the preimages one by one, as the witness generator does.\<close>

definition record_preimages ::
  "(bytes \<Rightarrow> B256) \<Rightarrow> (bytes \<Rightarrow> B256) \<Rightarrow> (preimage_key \<times> bytes) list \<Rightarrow> preimage_vec_store result" where
  "record_preimages kec sha kvs = try_fold (\<lambda>S (k, v). insert_preimage kec sha S k v) [] kvs"

lemma insert_preimage_eq_Inr:
  "insert_preimage kec sha S k v = Inr T \<longleftrightarrow>
     authentic_preimage kec sha k v \<and> T = push_last (if S = [] then [[]] else S) (k, v, None)"
  by (auto simp: insert_preimage_def res_simps validate_preimage_eq_Inr Let_def)

lemma concat_insert_preimage:
  "insert_preimage kec sha S k v = Inr T \<Longrightarrow> concat T = concat S @ [(k, v, None)]"
  by (auto simp: insert_preimage_eq_Inr concat_push_last)

lemma no_pointers_simps [simp]:
  "no_pointers []" "no_pointers (xs @ ys) \<longleftrightarrow> no_pointers xs \<and> no_pointers ys"
  "no_pointers [(k, v, r)] \<longleftrightarrow> r = None" "no_pointers (rev xs) \<longleftrightarrow> no_pointers xs"
  by (simp_all add: no_pointers_def ball_Un)

lemma record_from:
  "no_pointers (concat S) \<Longrightarrow> all_authentic kec sha (concat S) \<Longrightarrow>
     \<forall>(k, v) \<in> set kvs. authentic_preimage kec sha k v \<Longrightarrow>
     \<exists>T. try_fold (\<lambda>S (k, v). insert_preimage kec sha S k v) S kvs = Inr T \<and>
       no_pointers (concat T) \<and> all_authentic kec sha (concat T) \<and>
       contents (concat T) = contents (concat S) @ kvs"
proof (induction kvs arbitrary: S)
  case Nil
  then show ?case by simp
next
  case (Cons kv kvs)
  obtain k v where kv: "kv = (k, v)" by (cases kv)
  have auth: "authentic_preimage kec sha k v" using Cons.prems(3) kv by simp
  then obtain U where U: "insert_preimage kec sha S k v = Inr U" by (simp add: insert_preimage_eq_Inr)
  note cU = concat_insert_preimage [OF U]
  have "no_pointers (concat U)" "all_authentic kec sha (concat U)"
    using Cons.prems(1,2) cU auth by (simp_all add: all_authentic_def)
  with Cons.IH [of U] Cons.prems(3) obtain T where
    "try_fold (\<lambda>S (k, v). insert_preimage kec sha S k v) U kvs = Inr T"
    "no_pointers (concat T)" "all_authentic kec sha (concat T)"
    "contents (concat T) = contents (concat U) @ kvs"
    by auto
  with U cU kv show ?case by simp
qed

lemma record_preimages_ok:
  assumes "\<forall>(k, v) \<in> set kvs. authentic_preimage kec sha k v"
  shows "\<exists>T. record_preimages kec sha kvs = Inr T \<and> no_pointers (concat T) \<and>
    all_authentic kec sha (concat T) \<and> contents (concat T) = kvs"
  using record_from [of "[]" kec sha kvs] assms by (simp add: record_preimages_def)

lemma shard_within_contents:
  "contents xs = contents ys \<Longrightarrow> shard_within n xs \<Longrightarrow> shard_within n ys"
proof -
  assume eq: "contents xs = contents ys"
  have "map (\<lambda>x. length (fst (snd x))) zs = map (\<lambda>p. length (snd p)) (contents zs)"
    for zs :: "(preimage_key \<times> bytes \<times> (nat \<times> nat) option) list"
    by (simp add: contents_alt)
  with eq have len: "map (\<lambda>x. length (fst (snd x))) xs = map (\<lambda>x. length (fst (snd x))) ys" by simp
  then have "shard_bytes xs = shard_bytes ys" by (simp add: shard_bytes_def)
  moreover have "(\<lambda>x. length (fst (snd x))) ` set xs = (\<lambda>x. length (fst (snd x))) ` set ys"
    using len by (metis list.set_map)
  ultimately show "shard_within n xs \<Longrightarrow> shard_within n ys"
    unfolding shard_within_def by (metis (no_types, lifting) imageE image_eqI)
qed

lemma finalize_ok:
  assumes np: "no_pointers (concat S)" and auth: "all_authentic kec sha (concat S)"
    and cf: "conflict_free (contents (concat S))"
  shows "\<exists>T. finalize_preimages kec sha n ptrs S = Inr T \<and> validate kec sha T = Inr () \<and>
    contents (concat T) = rev (contents (concat S)) \<and> (\<forall>s \<in> set T. shard_within n s)"
proof -
  let ?F = "shard_preimages n [[]] 0 (rev (concat S))"
  have F: "concat ?F = rev (concat S)" by (simp add: concat_shard_preimages)
  have w: "\<forall>s \<in> set ?F. shard_within n s"
    by (rule shard_preimages_within) (simp_all add: shard_within_def)
  have npF: "no_pointers (concat ?F)" and authF: "all_authentic kec sha (concat ?F)"
    using np auth by (simp_all add: F del: set_concat)
  have cfF: "conflict_free (contents (concat ?F))" using cf by (simp add: F conflict_free_def)
  have ok: "validate kec sha S = Inr ()" using validate_no_pointers [OF np] auth by blast
  show ?thesis
  proof (cases ptrs)
    case False
    with ok have "finalize_preimages kec sha n ptrs S = Inr ?F"
      by (simp add: finalize_preimages_def)
    then show ?thesis using validate_no_pointers [OF npF] authF w F by simp
  next
    case True
    let ?T = "point_entries 0 Map.empty ?F"
    have "finalize_preimages kec sha n ptrs S = Inr ?T"
      using True ok by (simp add: finalize_preimages_def)
    moreover have "\<forall>s \<in> set ?T. shard_within n s"
    proof
      fix s assume "s \<in> set ?T"
      then obtain e where e: "e < length ?F" "s = ?T ! e"
        by (metis in_set_conv_nth point_entries_pointed(1) [OF npF])
      have "contents (?F ! e) = contents s"
        unfolding contents_alt e(2)
        by (rule nth_equalityI)
          (simp_all add: point_entries_pointed(2) [OF npF e(1)]
            point_entries_pointed(3) [OF npF e(1), unfolded pointed_like_def])
      then show "shard_within n s" using w e(1) by (auto intro: shard_within_contents)
    qed
    ultimately show ?thesis
      using validate_point_entries [OF npF authF cfF] contents_point_entries [OF npF] F by simp
  qed
qed

text \<open>Reading the recorded keys in the recorded order gives the recorded values.\<close>

definition ready :: "(bytes \<Rightarrow> B256) \<Rightarrow> (bytes \<Rightarrow> B256) \<Rightarrow> vec_oracle \<Rightarrow> bool" where
  "ready kec sha s \<longleftrightarrow>
     vo_queue s = [] \<and> (\<forall>shard \<in> set (vo_stream s). validate kec sha [shard] = Inr ())"

lemma vec_get_ready:
  assumes "ready kec sha s" and "remove_last key (oracle_sequence s) = Some (v, rest)"
  shows "\<exists>s'. vec_get kec sha s key = (s', Inr v) \<and> oracle_sequence s' = rest \<and> ready kec sha s'"
  using vec_get_loop_spec [of "vo_stream s" kec sha key "vo_preimages s" v rest "vo_queue s"] assms
  unfolding vec_get_def ready_def oracle_sequence_def by fastforce

lemma remove_last_snoc [simp]: "remove_last k (kvs @ [(k, v)]) = Some (v, kvs)"
  by (simp add: remove_last_def)

lemma replay_in_order:
  assumes "ready kec sha s" and "oracle_sequence s = rev kvs"
  shows "\<exists>s'. vec.run_gets kec sha s (map fst kvs) = (s', Inr (map snd kvs))"
  using assms
proof (induction kvs arbitrary: s)
  case Nil
  then show ?case by simp
next
  case (Cons kv kvs)
  obtain k v where kv: "kv = (k, v)" by (cases kv)
  then have "remove_last k (oracle_sequence s) = Some (v, rev kvs)" using Cons.prems(2) by simp
  then obtain t where t: "vec_get kec sha s k = (t, Inr v)" "oracle_sequence t = rev kvs" "ready kec sha t"
    using vec_get_ready Cons.prems(1) by blast
  with Cons.IH obtain s' where "vec.run_gets kec sha t (map fst kvs) = (s', Inr (map snd kvs))"
    by blast
  with t(1) kv show ?case by simp
qed

lemma ready_preloaded: "ready kec sha \<lparr>vo_preimages = U, vo_queue = [], vo_stream = []\<rparr>"
  by (simp add: ready_def)

text \<open>Without pointers every shard validates on its own.\<close>

lemma validate_shard_alone:
  assumes "validate kec sha U = Inr ()" and "no_pointers (concat U)" and "shard \<in> set U"
  shows "validate kec sha [shard] = Inr ()"
proof -
  have "all_authentic kec sha (concat U)" using validate_all_authentic [OF assms(1)] .
  then have "all_authentic kec sha (concat [shard])" "no_pointers (concat [shard])"
    using assms(2,3) by (auto simp: all_authentic_def no_pointers_def)
  then show ?thesis using validate_no_pointers by blast
qed

lemma finalize_no_pointers:
  assumes "no_pointers (concat S)" and "finalize_preimages kec sha n False S = Inr U"
  shows "no_pointers (concat U)"
  using assms by (auto simp: finalize_preimages_def res_simps concat_shard_preimages
      simp del: set_concat)

section \<open>Properties\<close>

text \<open>A concrete hash pair and three recorded preimages, for the instances below.\<close>

definition sample_hash :: "bytes \<Rightarrow> B256" where
  "sample_hash bs = of_nat (be_nat bs)"

definition sample_records :: "(preimage_key \<times> bytes) list" where
  "sample_records =
     [(preimage_key_new 7 Keccak256, [7]), (preimage_key_new 1 Local, [9, 9]),
      (preimage_key_new 7 Keccak256, [7])]"

lemma sample_records_authentic:
  "\<forall>(k, v) \<in> set sample_records. authentic_preimage sample_hash sample_hash k v"
  by (simp add: sample_records_def authentic_preimage_def preimage_key_new_def sample_hash_def
      be_nat_def)

lemma sample_records_conflict_free: "conflict_free sample_records"
  by (simp add: conflict_free_def sample_records_def preimage_key_new_def)

text \<open>
  C14. Soundness of witness validation: when \<open>validate\<close> accepts a store, every preimage in it is
  authentic for its key, whether it was hashed directly or compared through a chain of pointers to
  earlier preimages.
\<close>

theorem validate_sound:
  assumes "validate kec sha preimages = Inr ()"
    and "(key, value, pointer) \<in> set (concat preimages)"
  shows "authentic_preimage kec sha key value"
  using validate_all_authentic [OF assms(1)] assms(2) by (auto simp: all_authentic_def)

definition pointed_store :: preimage_vec_store where
  "pointed_store =
     [[(preimage_key_new 7 Keccak256, [7], None)],
      [(preimage_key_new 1 Local, [9], None), (preimage_key_new 7 Keccak256, [7], Some (0, 0))]]"

lemma pointed_store_validates: "validate sample_hash sample_hash pointed_store = Inr ()"
  by (simp add: validate_eq_Inr validate_one_eq_Inr pointed_store_def All_less_Suc2
      authentic_preimage_def preimage_key_new_def sample_hash_def be_nat_def)

theorem validate_sound_witness:
  "validate sample_hash sample_hash pointed_store = Inr () \<and>
   authentic_preimage sample_hash sample_hash (preimage_key_new 7 Keccak256) [7]"
  using pointed_store_validates
    validate_sound [OF pointed_store_validates, of "preimage_key_new 7 Keccak256" "[7]" "Some (0, 0)"]
  by (simp add: pointed_store_def)

text \<open>
  C15. Recording, finalizing and replaying a witness: when authentic preimages (two values under
  one checked key being equal) are inserted one by one and the store is finalized with any shard
  size, nothing panics; the finalized store passes validation, holds the preimages in reverse
  order of recording, in shards within the size limit or of one oversized preimage; and the vector
  oracle answers the recorded keys, read in the recorded order, with the recorded values. This
  holds for a store preloaded into memory, with or without validation pointers, and for one without
  pointers whose shards are streamed last to first.
\<close>

theorem record_finalize_replay:
  assumes auth: "\<forall>(k, v) \<in> set kvs. authentic_preimage kec sha k v" and cf: "conflict_free kvs"
  shows "\<exists>T U. record_preimages kec sha kvs = Inr T \<and>
    finalize_preimages kec sha shard_size ptrs T = Inr U \<and>
    validate kec sha U = Inr () \<and> contents (concat U) = rev kvs \<and>
    (\<forall>shard \<in> set U. shard_within shard_size shard) \<and>
    snd (vec.run_gets kec sha \<lparr>vo_preimages = U, vo_queue = [], vo_stream = []\<rparr> (map fst kvs))
      = Inr (map snd kvs) \<and>
    (\<not> ptrs \<longrightarrow>
      snd (vec.run_gets kec sha \<lparr>vo_preimages = [], vo_queue = [], vo_stream = rev U\<rparr> (map fst kvs))
        = Inr (map snd kvs))"
proof -
  from record_preimages_ok [OF auth] obtain T where T: "record_preimages kec sha kvs = Inr T"
    "no_pointers (concat T)" "all_authentic kec sha (concat T)" "contents (concat T) = kvs"
    by blast
  from finalize_ok [OF T(2,3), of shard_size ptrs] cf T(4) obtain U where
    U: "finalize_preimages kec sha shard_size ptrs T = Inr U" "validate kec sha U = Inr ()"
      "contents (concat U) = rev kvs" "\<forall>s \<in> set U. shard_within shard_size s"
    by auto
  let ?mem = "\<lparr>vo_preimages = U, vo_queue = [], vo_stream = []\<rparr>"
  let ?str = "\<lparr>vo_preimages = [], vo_queue = [], vo_stream = rev U\<rparr>"
  have "oracle_sequence ?mem = rev kvs" "oracle_sequence ?str = rev kvs"
    using U(3) by (simp_all add: oracle_sequence_def)
  then have mem: "snd (vec.run_gets kec sha ?mem (map fst kvs)) = Inr (map snd kvs)"
    and str: "ready kec sha ?str \<Longrightarrow> snd (vec.run_gets kec sha ?str (map fst kvs)) = Inr (map snd kvs)"
    using replay_in_order [OF ready_preloaded, of U kvs kec sha] replay_in_order [of kec sha ?str kvs]
    by auto
  have "ready kec sha ?str" if "\<not> ptrs"
    using that finalize_no_pointers [OF T(2)] U(1) validate_shard_alone [OF U(2)]
    by (simp add: ready_def)
  with T(1) U mem str show ?thesis by blast
qed

theorem record_finalize_replay_witness:
  "\<exists>T U. record_preimages sample_hash sample_hash sample_records = Inr T \<and>
    finalize_preimages sample_hash sample_hash 2 True T = Inr U \<and>
    snd (vec.run_gets sample_hash sample_hash \<lparr>vo_preimages = U, vo_queue = [], vo_stream = []\<rparr>
      (map fst sample_records)) = Inr [[7], [9, 9], [7]]"
  using record_finalize_replay [OF sample_records_authentic sample_records_conflict_free, of 2 True]
  by (auto simp: sample_records_def)

text \<open>
  C19. Lookup in the vector oracle refines removal from one sequence: with an empty queue and a
  stream whose shards validate, \<open>get\<close> returns the value of the last preimage under the key, in the
  shards in memory first and then in the streamed ones, and leaves exactly the other preimages, in
  order and with the queue empty again; when no preimage has the key, \<open>get\<close> panics.
\<close>

theorem vec_get_refines_remove_last:
  assumes "vo_queue s = []" and "\<forall>shard \<in> set (vo_stream s). validate kec sha [shard] = Inr ()"
  shows "case remove_last key (oracle_sequence s) of
      Some (v, rest) \<Rightarrow> (\<exists>s'. vec_get kec sha s key = (s', Inr v) \<and> oracle_sequence s' = rest \<and>
        vo_queue s' = [] \<and> (\<forall>shard \<in> set (vo_stream s'). validate kec sha [shard] = Inr ()))
    | None \<Rightarrow> (\<exists>s' msg. vec_get kec sha s key = (s', Inl (Panic msg)))"
proof (cases "remove_last key (oracle_sequence s)")
  case None
  then show ?thesis
    using vec_get_loop_absent [of key "vo_stream s" "vo_preimages s" kec sha "vo_queue s"] assms(1)
    by (simp add: vec_get_def oracle_sequence_def)
next
  case (Some a)
  obtain v rest where a: "a = (v, rest)" by (cases a)
  have "ready kec sha s" using assms by (simp add: ready_def)
  from vec_get_ready [OF this Some [unfolded a]] show ?thesis
    using Some a by (auto simp: ready_def)
qed

theorem vec_get_refines_remove_last_witness:
  "\<exists>s'. vec_get sample_hash sample_hash
      \<lparr>vo_preimages = [], vo_queue = [], vo_stream = [[(preimage_key_new 1 Local, [5], None)]]\<rparr>
      (preimage_key_new 1 Local) = (s', Inr [5]) \<and> oracle_sequence s' = []"
  using vec_get_refines_remove_last [of
      "\<lparr>vo_preimages = [], vo_queue = [], vo_stream = [[(preimage_key_new 1 Local, [5], None)]]\<rparr>"
      sample_hash sample_hash "preimage_key_new 1 Local"]
  by (auto simp: oracle_sequence_def remove_last_def validate_eq_Inr validate_one_eq_Inr
      preimage_key_new_def)

text \<open>
  The read-once wrapper: after a local key has been read through \<open>LocalOnceOracle\<close>, every
  further read of it, with any other reads in between, returns the same value and does not consult
  the inner oracle, whatever the inner oracle would answer.
\<close>

fun local_gets ::
  "('s \<Rightarrow> preimage_key \<Rightarrow> 's \<times> bytes result) \<Rightarrow> 's local_once_oracle \<Rightarrow> preimage_key list \<Rightarrow>
   's local_once_oracle" where
  "local_gets get s [] = s"
| "local_gets get s (k # ks) = local_gets get (fst (local_get get s k)) ks"

lemma local_get_keeps_cache:
  "lo_cache s key = Some v \<Longrightarrow> lo_cache (fst (local_get get s k)) key = Some v"
  by (auto simp: local_get_def Let_def split: prod.splits option.splits sum.splits)

lemma local_gets_keep_cache:
  "lo_cache s key = Some v \<Longrightarrow> lo_cache (local_gets get s ks) key = Some v"
  by (induction ks arbitrary: s) (simp_all add: local_get_keeps_cache)

theorem local_read_once:
  assumes "pk_type key = Local" and "local_get get s key = (s', Inr v)"
  shows "local_get get (local_gets get s' ks) key = (local_gets get s' ks, Inr v)"
proof -
  have "lo_cache s' key = Some v"
    using assms(2,1) by (cases rule: local_get_cases) auto
  then have "lo_cache (local_gets get s' ks) key = Some v" by (rule local_gets_keep_cache)
  then show ?thesis using assms(1) by (simp add: local_get_def)
qed

text \<open>An inner oracle that counts its reads, and would answer each differently.\<close>

definition counting_get :: "nat \<Rightarrow> preimage_key \<Rightarrow> nat \<times> bytes result" where
  "counting_get n key = (Suc n, Inr [of_nat n])"

theorem local_read_once_witness:
  "let (s', r) = local_get counting_get (local_once_new 0) (preimage_key_new 1 Local);
       t = local_gets counting_get s' [preimage_key_new 2 Local, preimage_key_new 3 Keccak256]
   in r = Inr [0] \<and> lo_oracle t = 3 \<and>
      local_get counting_get t (preimage_key_new 1 Local) = (t, Inr [0])"
  using local_read_once [of "preimage_key_new 1 Local" counting_get "local_once_new 0"
      "fst (local_get counting_get (local_once_new 0) (preimage_key_new 1 Local))" "[0]"
      "[preimage_key_new 2 Local, preimage_key_new 3 Keccak256]"]
  by (simp add: local_get_def counting_get_def local_once_new_def preimage_key_new_def)

end
