(* ===== verification/Codec.thy ===== *)
theory Codec
  imports Prelude
begin

text \<open>
  The interface of the byte encodings: a fixed number of bytes per value and, for a codec, a
  decoder that reads a value back from the front of a byte string. The clients' facts
  (injectivity, of one value and of a concatenated sequence) are proved here once.
\<close>

locale fixed_width_encoding =
  fixes enc :: "'a \<Rightarrow> bytes" and width :: nat
  assumes length_enc: "length (enc x) = width"
    and enc_inject: "enc x = enc y \<Longrightarrow> x = y"
    and width_pos: "0 < width"
begin

lemma enc_eq_iff: "enc x = enc y \<longleftrightarrow> x = y"
  using enc_inject by blast

lemma enc_append_eq_iff: "enc x @ bs = enc y @ cs \<longleftrightarrow> x = y \<and> bs = cs"
  using enc_inject length_enc by auto

lemma concat_enc_inject: "concat (map enc xs) = concat (map enc ys) \<Longrightarrow> xs = ys"
  by (rule concat_map_inj [of enc width]) (auto simp: length_enc width_pos dest: enc_inject)

lemma length_concat_enc: "length (concat (map enc xs)) = width * length xs"
  by (induction xs) (auto simp: length_enc)

end

locale fixed_width_codec =
  fixes enc :: "'a \<Rightarrow> bytes" and width :: nat and dec :: "bytes \<Rightarrow> 'a result"
  assumes codec_length: "length (enc x) = width"
    and codec_width_pos: "0 < width"
    and dec_enc_append: "dec (enc x @ rest) = Inr x"
    and dec_short: "length bs < width \<Longrightarrow> \<exists>msg. dec bs = Inl (Panic msg)"
    and enc_dec: "dec bs = Inr x \<Longrightarrow> enc x = take width bs"
begin

lemma dec_enc: "dec (enc x) = Inr x"
  using dec_enc_append [of x "[]"] by simp

lemma dec_inj_prefix: "dec bs = Inr x \<Longrightarrow> dec cs = Inr x \<Longrightarrow> take width bs = take width cs"
  using enc_dec by metis

end

sublocale fixed_width_codec \<subseteq> fixed_width_encoding enc width
proof
  fix x y
  show "length (enc x) = width" by (rule codec_length)
  show "0 < width" by (rule codec_width_pos)
  assume "enc x = enc y"
  then show "x = y" by (metis dec_enc sum.inject(2))
qed

end
