(* ===== verification/Precondition.thy ===== *)
theory Precondition
  imports Blobs Oracle_Replay Codec
begin

text \<open>
  Validity preconditions (\<open>src/crates/kona/src/precondition.rs\<close>): the data that ties a proof to the
  blobs published with a proposal, its hash, its loading through the oracle and the blob provider,
  and the check of the computed output roots against the published ones.

  The serializer \<open>pot\<close> and SHA-256 are parameters. Arithmetic is that of the build: with
  overflow checks on the host, wrapping in the guest, where \<open>usize\<close> has 32 bits.
\<close>

section \<open>Data and hashes\<close>

datatype precondition_validation_data =
  Validity
    (proposal_l2_head_number: u64)
    (proposal_output_count: u64)
    (output_block_span: u64)
    (blob_hashes: "blob_fetch_request list")

definition to_vec ::
  "(precondition_validation_data \<Rightarrow> bytes result) \<Rightarrow> precondition_validation_data \<Rightarrow> bytes result" where
  "to_vec pot_to_vec d = expect (pot_to_vec d) ''unwrap on an Err value''"

definition precondition_data_hash ::
  "(precondition_validation_data \<Rightarrow> bytes result) \<Rightarrow> (bytes \<Rightarrow> B256) \<Rightarrow>
   precondition_validation_data \<Rightarrow> B256 result" where
  "precondition_data_hash pot_to_vec sha d = and_then (to_vec pot_to_vec d) (\<lambda>v. Inr (sha v))"

definition blob_fetch_requests :: "precondition_validation_data \<Rightarrow> blob_fetch_request list" where
  "blob_fetch_requests d = (case d of Validity _ _ _ requests \<Rightarrow> requests)"

definition blobs_hash :: "(bytes \<Rightarrow> B256) \<Rightarrow> B256 list \<Rightarrow> B256" where
  "blobs_hash sha hashes = sha (concat (map to_be_bytes hashes))"

definition data_blobs_hash :: "(bytes \<Rightarrow> B256) \<Rightarrow> precondition_validation_data \<Rightarrow> B256" where
  "data_blobs_hash sha d = blobs_hash sha (map (ih_hash \<circ> bfr_blob_hash) (blob_fetch_requests d))"

definition validity_precondition_hash ::
  "(bytes \<Rightarrow> B256) \<Rightarrow> u64 \<Rightarrow> u64 \<Rightarrow> u64 \<Rightarrow> B256 \<Rightarrow> B256" where
  "validity_precondition_hash sha l2_head_number output_count block_span blobs_digest =
     sha (to_be_bytes l2_head_number @ to_be_bytes output_count @ to_be_bytes block_span @
          to_be_bytes blobs_digest)"

definition precondition_hash :: "(bytes \<Rightarrow> B256) \<Rightarrow> precondition_validation_data \<Rightarrow> B256" where
  "precondition_hash sha d =
     (case d of Validity l2_head_number output_count block_span blobs \<Rightarrow>
        validity_precondition_hash sha l2_head_number output_count block_span
          (blobs_hash sha (map (ih_hash \<circ> bfr_blob_hash) blobs)))"

section \<open>Loading\<close>

fun load_blobs ::
  "('p \<Rightarrow> block_info \<Rightarrow> indexed_blob_hash list \<Rightarrow> 'p \<times> blob list result) \<Rightarrow> 'p \<Rightarrow>
   blob_fetch_request list \<Rightarrow> blob list \<Rightarrow> 'p \<times> blob list result" where
  "load_blobs get_blobs beacon [] blobs = (beacon, Inr blobs)"
| "load_blobs get_blobs beacon (request # requests) blobs =
     (case get_blobs beacon (bfr_block_ref request) [bfr_blob_hash request] of (beacon', r) \<Rightarrow>
        (case and_then (expect r ''unwrap on an Err value'') (\<lambda>bs. index_vec bs 0) of
           Inl e \<Rightarrow> (beacon', Inl e)
         | Inr b \<Rightarrow> load_blobs get_blobs beacon' requests (blobs @ [b])))"

definition load_precondition_data ::
  "('o \<Rightarrow> preimage_key \<Rightarrow> 'o \<times> bytes result) \<Rightarrow>
   ('p \<Rightarrow> block_info \<Rightarrow> indexed_blob_hash list \<Rightarrow> 'p \<times> blob list result) \<Rightarrow>
   (bytes \<Rightarrow> precondition_validation_data result) \<Rightarrow> B256 \<Rightarrow> 'o \<Rightarrow> 'p \<Rightarrow>
   'o \<times> 'p \<times> (precondition_validation_data \<times> blob list) option result" where
  "load_precondition_data get get_blobs pot_from_slice data_hash oracle beacon =
     (if data_hash = 0 then (oracle, beacon, Inr None)
      else case get oracle (preimage_key_new data_hash Sha256) of (oracle', r) \<Rightarrow>
        (case and_then r (\<lambda>v. err_context (pot_from_slice v) ''Pot::from_slice'') of
           Inl e \<Rightarrow> (oracle', beacon, Inl e)
         | Inr d \<Rightarrow>
             (case load_blobs get_blobs beacon (blob_fetch_requests d) [] of (beacon', bs) \<Rightarrow>
                (oracle', beacon', and_then bs (\<lambda>blobs. Inr (Some (d, blobs)))))))"

section \<open>Validation\<close>

text \<open>The check of one output against the blob: a field element, or the zeroed trail.\<close>

definition check_field_element ::
  "blob list \<Rightarrow> nat \<Rightarrow> nat \<Rightarrow> B256 \<Rightarrow> unit result" where
  "check_field_element blobs blob_index blob_fe_index output_hash =
     and_then (index_vec blobs blob_index) (\<lambda>b.
     and_then (slice_vec b blob_fe_index (blob_fe_index + 32)) (\<lambda>blob_fe_slice.
     if blob_fe_slice \<noteq> to_be_bytes (hash_to_fe output_hash)
     then bail ''Bad fe in blob for block: Expected found'' else Inr ()))"

definition check_trail :: "build \<Rightarrow> blob list \<Rightarrow> nat \<Rightarrow> nat \<Rightarrow> unit result" where
  "check_trail T blobs blob_index blob_fe_index =
     and_then (sub_usize T (length blobs) 1) (\<lambda>last_index.
     if blob_index \<noteq> last_index then bail ''Expected trail data to begin at blob''
     else and_then (index_vec blobs blob_index) (\<lambda>b.
          and_then (slice_vec b blob_fe_index (length b)) (\<lambda>trail.
          if \<exists>x \<in> set trail. x \<noteq> 0 then bail ''Found non-zero trail data in blob'' else Inr ())))"

text \<open>The position of an output in the blobs, and the three cases of the comparison.\<close>

definition check_slot ::
  "build \<Rightarrow> u64 \<Rightarrow> blob list \<Rightarrow> u64 \<Rightarrow> B256 \<Rightarrow> unit result" where
  "check_slot T output_count blobs intermediate_output_offset output_hash =
     (let blob_index = as_usize T (intermediate_output_offset div of_nat FIELD_ELEMENTS_PER_BLOB);
         fe_position = as_usize T (intermediate_output_offset mod of_nat FIELD_ELEMENTS_PER_BLOB);
         blob_fe_index = 32 * fe_position
     in and_then (sub_u64 T output_count 1) (\<lambda>last_output.
        if intermediate_output_offset < last_output
        then check_field_element blobs blob_index blob_fe_index output_hash
        else if intermediate_output_offset = last_output
        then (if output_count > 1 then check_trail T blobs blob_index blob_fe_index else Inr ())
        else Inl (Panic ''unreachable: Output offset > output count.'')))"

text \<open>The body of the loop over the output roots, for the root at index \<open>i\<close>.\<close>

definition check_output ::
  "build \<Rightarrow> u64 \<Rightarrow> u64 \<Rightarrow> u64 \<Rightarrow> u64 \<Rightarrow> blob list \<Rightarrow> u64 \<Rightarrow> nat \<Rightarrow> B256 \<Rightarrow> unit result" where
  "check_output T l2_head_number output_count block_span root_claim_block_number blobs
     proof_l2_head_number i output_hash =
     and_then (add_u64 T proof_l2_head_number (of_nat i)) (\<lambda>n.
     and_then (add_u64 T n 1) (\<lambda>output_block_number.
     if output_block_number > root_claim_block_number then bail ''Output block > max block.''
     else
     and_then (sub_u64 T output_block_number l2_head_number) (\<lambda>offset.
     and_then (rem_u64 offset block_span) (\<lambda>r.
     if r \<noteq> 0 then Inr ()
     else
     and_then (div_u64 offset block_span) (\<lambda>q.
     and_then (sub_u64 T q 1) (\<lambda>intermediate_output_offset.
     check_slot T output_count blobs intermediate_output_offset output_hash))))))"

fun check_outputs ::
  "build \<Rightarrow> u64 \<Rightarrow> u64 \<Rightarrow> u64 \<Rightarrow> u64 \<Rightarrow> blob list \<Rightarrow> u64 \<Rightarrow> nat \<Rightarrow> B256 list \<Rightarrow> unit result" where
  "check_outputs T hd_n cnt span claim_n blobs proof_n i [] = Inr ()"
| "check_outputs T hd_n cnt span claim_n blobs proof_n i (r # rs) =
     and_then (check_output T hd_n cnt span claim_n blobs proof_n i r)
       (\<lambda>_. check_outputs T hd_n cnt span claim_n blobs proof_n (Suc i) rs)"

definition validate_precondition ::
  "build \<Rightarrow> (bytes \<Rightarrow> B256) \<Rightarrow> precondition_validation_data \<Rightarrow> blob list \<Rightarrow> u64 \<Rightarrow> B256 list \<Rightarrow>
   B256 result" where
  "validate_precondition T sha d blobs proof_l2_head_number output_roots =
     (case d of Validity l2_head_number output_count block_span _ \<Rightarrow>
        and_then (mul_u64 T output_count block_span) (\<lambda>blocks.
        and_then (add_u64 T l2_head_number blocks) (\<lambda>root_claim_block_number.
        if proof_l2_head_number < l2_head_number
        then bail ''Validity precondition proposal starting block > proof agreed l2 head''
        else if root_claim_block_number < proof_l2_head_number
        then bail ''Validity precondition proposal ending block < proof agreed l2 head''
        else if output_roots = [] then Inr (precondition_hash sha d)
        else and_then (check_outputs T l2_head_number output_count block_span
               root_claim_block_number blobs proof_l2_head_number 0 output_roots)
             (\<lambda>_. Inr (precondition_hash sha d)))))"

section \<open>What the check of one output means\<close>

text \<open>
  The published outputs are the 32-byte words of the concatenated blobs: output \<open>k\<close> of the
  proposal, counted from one, is word \<open>k - 1\<close>; the last one is the root claim itself and its
  word starts the zeroed trail, which ends with the last blob.
\<close>

definition blob_word :: "blob list \<Rightarrow> nat \<Rightarrow> bytes" where
  "blob_word blobs k = take 32 (drop (32 * k) (concat blobs))"

definition trail_zeroed :: "blob list \<Rightarrow> nat \<Rightarrow> bool" where
  "trail_zeroed blobs k \<longleftrightarrow>
     length blobs = k div FIELD_ELEMENTS_PER_BLOB + 1 \<and>
     (\<forall>x \<in> set (drop (32 * k) (concat blobs)). x = 0)"

definition output_ok :: "blob list \<Rightarrow> nat \<Rightarrow> nat \<Rightarrow> B256 \<Rightarrow> bool" where
  "output_ok blobs count k root \<longleftrightarrow>
     (k < count \<longrightarrow> k \<le> FIELD_ELEMENTS_PER_BLOB * length blobs \<and>
        blob_word blobs (k - 1) = to_be_bytes (hash_to_fe root)) \<and>
     (k = count \<and> 1 < count \<longrightarrow> trail_zeroed blobs (count - 1))"

lemma length_concat_blobs:
  "\<forall>b \<in> set blobs. blob_wf b \<Longrightarrow> length (concat blobs) = 32 * FIELD_ELEMENTS_PER_BLOB * length blobs"
  by (induction blobs) (auto simp: blob_wf_def)

lemma drop_concat_blobs:
  assumes "\<forall>b \<in> set blobs. blob_wf b" and "i < length blobs" and "p \<le> 32 * FIELD_ELEMENTS_PER_BLOB"
  shows "drop (32 * FIELD_ELEMENTS_PER_BLOB * i + p) (concat blobs) =
    drop p (blobs ! i) @ concat (drop (Suc i) blobs)"
  using assms
proof (induction blobs arbitrary: i)
  case Nil
  then show ?case by simp
next
  case (Cons b blobs)
  then show ?case
    by (cases i) (auto simp: blob_wf_def algebra_simps)
qed

lemma blob_word_at:
  assumes "\<forall>b \<in> set blobs. blob_wf b" and "k div FIELD_ELEMENTS_PER_BLOB < length blobs"
  shows "blob_word blobs k =
    take 32 (drop (32 * (k mod FIELD_ELEMENTS_PER_BLOB)) (blobs ! (k div FIELD_ELEMENTS_PER_BLOB)))"
proof -
  let ?F = FIELD_ELEMENTS_PER_BLOB
  have "k mod ?F < ?F" by (simp add: FIELD_ELEMENTS_PER_BLOB_def)
  then have pos: "32 * (k mod ?F) + 32 \<le> 32 * ?F" by simp
  have k: "32 * k = 32 * ?F * (k div ?F) + 32 * (k mod ?F)"
    by (metis distrib_left mult.assoc mult_div_mod_eq)
  have "length (blobs ! (k div ?F)) = 32 * ?F" using assms by (simp add: blob_wf_def)
  then show ?thesis
    unfolding blob_word_def k
    using drop_concat_blobs [OF assms, of "32 * (k mod ?F)"] pos by simp
qed

lemma check_field_element_eq_Inr:
  assumes "\<forall>b \<in> set blobs. blob_wf b"
  shows "check_field_element blobs (k div FIELD_ELEMENTS_PER_BLOB)
      (32 * (k mod FIELD_ELEMENTS_PER_BLOB)) root = Inr u \<longleftrightarrow>
    k < FIELD_ELEMENTS_PER_BLOB * length blobs \<and> blob_word blobs k = to_be_bytes (hash_to_fe root)"
proof -
  let ?F = FIELD_ELEMENTS_PER_BLOB
  have "k mod ?F < ?F" by (simp add: FIELD_ELEMENTS_PER_BLOB_def)
  then have "32 * (k mod ?F) + 32 \<le> 32 * ?F" by simp
  moreover have "k < ?F * length blobs \<longleftrightarrow> k div ?F < length blobs"
    by (simp add: FIELD_ELEMENTS_PER_BLOB_def div_less_iff_less_mult mult.commute)
  ultimately show ?thesis
    using assms blob_word_at [OF assms, of k]
    by (auto simp: check_field_element_def res_simps blob_wf_def)
qed

lemma check_trail_eq_Inr:
  assumes "\<forall>b \<in> set blobs. blob_wf b"
  shows "check_trail T blobs (k div FIELD_ELEMENTS_PER_BLOB)
      (32 * (k mod FIELD_ELEMENTS_PER_BLOB)) = Inr u \<longleftrightarrow> trail_zeroed blobs k"
proof -
  let ?F = FIELD_ELEMENTS_PER_BLOB
  have "k mod ?F < ?F" by (simp add: FIELD_ELEMENTS_PER_BLOB_def)
  then have pos: "32 * (k mod ?F) \<le> 32 * ?F" by simp
  have k: "32 * k = 32 * ?F * (k div ?F) + 32 * (k mod ?F)"
    by (metis distrib_left mult.assoc mult_div_mod_eq)
  show ?thesis
  proof (cases "length blobs = k div ?F + 1")
    case True
    then have i: "k div ?F < length blobs" by simp
    then have "drop (32 * k) (concat blobs) = drop (32 * (k mod ?F)) (blobs ! (k div ?F))"
      unfolding k using drop_concat_blobs [OF assms i pos] True by simp
    moreover have "length (blobs ! (k div ?F)) = 32 * ?F" using assms i by (simp add: blob_wf_def)
    ultimately show ?thesis
      using True pos by (auto simp: check_trail_def sub_usize_def res_simps trail_zeroed_def)
  next
    case False
    then show ?thesis
      by (cases "blobs = []")
        (auto simp: check_trail_def sub_usize_def res_simps trail_zeroed_def Suc_le_eq split: if_splits)
  qed
qed

text \<open>The bounds under which block numbers and blob positions fit their machine integers.\<close>

definition in_range :: "build \<Rightarrow> u64 \<Rightarrow> u64 \<Rightarrow> u64 \<Rightarrow> u64 \<Rightarrow> nat \<Rightarrow> bool" where
  "in_range T hd_n cnt span proof_n len \<longleftrightarrow>
     32 \<le> usize_bits T \<and> unat cnt \<le> 2 ^ 44 \<and>
     unat hd_n + unat cnt * unat span < 2 ^ 64 \<and> unat proof_n + len < 2 ^ 64"

lemma as_usize_small: "32 \<le> usize_bits T \<Longrightarrow> unat w < 2 ^ 32 \<Longrightarrow> as_usize T w = unat w"
proof -
  assume "32 \<le> usize_bits T" "unat w < 2 ^ 32"
  moreover have "(2 :: nat) ^ 32 \<le> 2 ^ usize_bits T"
    using \<open>32 \<le> usize_bits T\<close> by (intro power_increasing) simp_all
  ultimately have "unat w < 2 ^ usize_bits T" by (metis order.strict_trans2)
  then show "as_usize T w = unat w" by (simp add: as_usize_def)
qed

lemma unat_fepb: "unat (of_nat FIELD_ELEMENTS_PER_BLOB :: u64) = FIELD_ELEMENTS_PER_BLOB"
  by (simp add: FIELD_ELEMENTS_PER_BLOB_def)

lemma blob_position:
  assumes "32 \<le> usize_bits T" and "unat (w :: u64) < 2 ^ 44"
  shows "as_usize T (w div of_nat FIELD_ELEMENTS_PER_BLOB) = unat w div FIELD_ELEMENTS_PER_BLOB"
    and "as_usize T (w mod of_nat FIELD_ELEMENTS_PER_BLOB) = unat w mod FIELD_ELEMENTS_PER_BLOB"
proof -
  have "unat (w div of_nat FIELD_ELEMENTS_PER_BLOB) = unat w div FIELD_ELEMENTS_PER_BLOB"
    by (simp add: unat_div unat_fepb)
  moreover have "unat w div FIELD_ELEMENTS_PER_BLOB < 2 ^ 32"
    using assms(2) by (simp add: FIELD_ELEMENTS_PER_BLOB_def less_mult_imp_div_less)
  ultimately show "as_usize T (w div of_nat FIELD_ELEMENTS_PER_BLOB) = unat w div FIELD_ELEMENTS_PER_BLOB"
    using as_usize_small [OF assms(1)] by simp
  have "unat (w mod of_nat FIELD_ELEMENTS_PER_BLOB) = unat w mod FIELD_ELEMENTS_PER_BLOB"
    by (simp add: unat_mod unat_fepb)
  moreover have "unat w mod FIELD_ELEMENTS_PER_BLOB < 2 ^ 32"
    by (rule order.strict_trans [of _ FIELD_ELEMENTS_PER_BLOB]) (simp_all add: FIELD_ELEMENTS_PER_BLOB_def)
  ultimately show "as_usize T (w mod of_nat FIELD_ELEMENTS_PER_BLOB) = unat w mod FIELD_ELEMENTS_PER_BLOB"
    using as_usize_small [OF assms(1)] by simp
qed

text \<open>The machine words of one iteration, read as numbers.\<close>

lemma block_number_words:
  fixes proof_n :: u64
  assumes "unat proof_n + Suc i < 2 ^ 64"
  shows "add_u64 T proof_n (of_nat i) = Inr (proof_n + of_nat i)"
    and "add_u64 T (proof_n + of_nat i) 1 = Inr (proof_n + of_nat i + 1)"
    and "unat (proof_n + of_nat i + 1) = unat proof_n + i + 1"
proof -
  have i: "unat (of_nat i :: u64) = i" using assms by (simp add: unat_of_nat take_bit_eq_mod)
  then have w: "unat (proof_n + of_nat i) = unat proof_n + i"
    using assms by (subst unat_add_small) simp_all
  then show "unat (proof_n + of_nat i + 1) = unat proof_n + i + 1"
    using assms by (subst unat_add_small) simp_all
  show "add_u64 T proof_n (of_nat i) = Inr (proof_n + of_nat i)"
    and "add_u64 T (proof_n + of_nat i) 1 = Inr (proof_n + of_nat i + 1)"
    using assms i w by (simp_all add: add_u64_ok)
qed

lemma claim_number_words:
  fixes hd_n cnt span :: u64
  assumes "unat hd_n + unat cnt * unat span < 2 ^ 64"
  shows "mul_u64 T cnt span = Inr (cnt * span)"
    and "add_u64 T hd_n (cnt * span) = Inr (hd_n + cnt * span)"
    and "unat (hd_n + cnt * span) = unat hd_n + unat cnt * unat span"
proof -
  have m: "unat (cnt * span) = unat cnt * unat span" using assms by (intro unat_mul_small) simp
  show "mul_u64 T cnt span = Inr (cnt * span)" using assms by (simp add: mul_u64_ok)
  show "add_u64 T hd_n (cnt * span) = Inr (hd_n + cnt * span)" using assms m by (simp add: add_u64_ok)
  show "unat (hd_n + cnt * span) = unat hd_n + unat cnt * unat span"
    using assms m by (subst unat_add_small) simp_all
qed

lemma output_slot_words:
  fixes offset span cnt :: u64
  defines "k \<equiv> unat offset div unat span"
  assumes "unat span dvd unat offset" and "0 < unat offset" and "unat offset \<le> unat cnt * unat span"
  shows "1 \<le> offset div span" "1 \<le> cnt" "unat (offset div span - 1) = k - 1"
    "offset div span - 1 < cnt - 1 \<longleftrightarrow> k < unat cnt" "offset div span - 1 = cnt - 1 \<longleftrightarrow> k = unat cnt"
    "0 < k" "k \<le> unat cnt"
proof -
  have S: "0 < unat span" "0 < unat cnt" using assms(3,4) by (auto intro: gr0I)
  show k: "0 < k" "k \<le> unat cnt"
    using assms S by (auto simp: k_def div_greater_zero_iff dvd_imp_le)
  have uq: "unat (offset div span) = k" by (simp add: unat_div k_def)
  then show one: "1 \<le> offset div span" using k(1) by (simp add: word_le_nat_alt)
  show c: "1 \<le> cnt" using S by (simp add: word_le_nat_alt)
  show ui: "unat (offset div span - 1) = k - 1"
    using one uq by (simp add: unat_sub_if' word_le_nat_alt)
  have "unat (cnt - 1) = unat cnt - 1" using c by (simp add: unat_sub_if' word_le_nat_alt)
  then show "offset div span - 1 < cnt - 1 \<longleftrightarrow> k < unat cnt"
    "offset div span - 1 = cnt - 1 \<longleftrightarrow> k = unat cnt"
    using k S by (auto simp: word_less_nat_alt word_unat_eq_iff ui)
qed

text \<open>One iteration, for the block \<open>n\<close> that follows the proof's agreed block by \<open>i + 1\<close>.\<close>

lemma check_slot_words:
  fixes offset cnt span :: u64
  assumes "32 \<le> usize_bits T" and "unat cnt \<le> 2 ^ 44"
    and slot: "unat span dvd unat offset" "0 < unat offset" "unat offset \<le> unat cnt * unat span"
  defines "k \<equiv> unat offset div unat span"
  shows "check_slot T cnt blobs (offset div span - 1) root =
    (if k < unat cnt then check_field_element blobs ((k - 1) div FIELD_ELEMENTS_PER_BLOB)
         (32 * ((k - 1) mod FIELD_ELEMENTS_PER_BLOB)) root
     else if 1 < unat cnt then check_trail T blobs ((k - 1) div FIELD_ELEMENTS_PER_BLOB)
         (32 * ((k - 1) mod FIELD_ELEMENTS_PER_BLOB)) else Inr ())"
    and "0 < k" "k \<le> unat cnt"
proof -
  note words = output_slot_words [OF slot, folded k_def]
  show "0 < k" "k \<le> unat cnt" using words(6,7) .
  have gt1: "cnt > 1 \<longleftrightarrow> 1 < unat cnt" by (simp add: word_less_nat_alt)
  have "unat (offset div span - 1) < 2 ^ 44" using words(3,6,7) assms(2) by simp
  note position = blob_position [OF assms(1) this, unfolded words(3)]
  show "check_slot T cnt blobs (offset div span - 1) root =
    (if k < unat cnt then check_field_element blobs ((k - 1) div FIELD_ELEMENTS_PER_BLOB)
         (32 * ((k - 1) mod FIELD_ELEMENTS_PER_BLOB)) root
     else if 1 < unat cnt then check_trail T blobs ((k - 1) div FIELD_ELEMENTS_PER_BLOB)
         (32 * ((k - 1) mod FIELD_ELEMENTS_PER_BLOB)) else Inr ())"
    unfolding check_slot_def Let_def position sub_u64_ok [OF words(2)] and_then_simps words(4,5) gt1
    using words(7) by auto
qed

text \<open>
  One iteration: the block \<open>n\<close> follows the proof's agreed block by \<open>i + 1\<close>; it is past the claim,
  between two outputs, or the block of output \<open>k\<close>.
\<close>

lemma check_output_words:
  fixes hd_n cnt span proof_n :: u64 and i :: nat
  defines "n \<equiv> unat proof_n + i + 1" and "claim_n \<equiv> unat hd_n + unat cnt * unat span"
  assumes rng: "in_range T hd_n cnt span proof_n (Suc i)" and le: "hd_n \<le> proof_n"
  shows "check_output T hd_n cnt span (hd_n + cnt * span) blobs proof_n i root =
    (if claim_n < n then bail ''Output block > max block.''
     else if \<not> unat span dvd n - unat hd_n then Inr ()
     else check_slot T cnt blobs ((proof_n + of_nat i + 1 - hd_n) div span - 1) root)"
    and "unat (proof_n + of_nat i + 1 - hd_n) = n - unat hd_n" and "0 < n - unat hd_n"
proof -
  let ?w = "proof_n + of_nat i + 1"
  let ?o = "?w - hd_n"
  have bounds: "unat proof_n + Suc i < 2 ^ 64" "unat hd_n + unat cnt * unat span < 2 ^ 64"
    using rng by (simp_all add: in_range_def)
  note block = block_number_words [OF bounds(1), folded n_def]
  note claim = claim_number_words [OF bounds(2), folded claim_n_def]
  have gt: "?w > hd_n + cnt * span \<longleftrightarrow> claim_n < n" by (simp add: word_less_nat_alt block claim)
  have "unat hd_n < n" using le by (simp add: n_def word_le_nat_alt)
  then show off: "unat ?o = n - unat hd_n" and pos: "0 < n - unat hd_n"
    using block(3) by (simp_all add: word_le_nat_alt unat_sub_if')
  have hw: "hd_n \<le> ?w" using \<open>unat hd_n < n\<close> block(3) by (simp add: word_le_nat_alt)
  have r: "?o mod span = 0 \<longleftrightarrow> unat span dvd n - unat hd_n"
    by (simp add: unat_eq_0 [symmetric] unat_mod off dvd_eq_mod_eq_0)
  show "check_output T hd_n cnt span (hd_n + cnt * span) blobs proof_n i root =
    (if claim_n < n then bail ''Output block > max block.''
     else if \<not> unat span dvd n - unat hd_n then Inr ()
     else check_slot T cnt blobs (?o div span - 1) root)"
  proof (cases "claim_n < n")
    case True
    with gt block(1,2) show ?thesis by (simp add: check_output_def)
  next
    case False
    then have fits: "unat ?o \<le> unat cnt * unat span" by (simp add: off claim_n_def)
    then have nz: "span \<noteq> 0" using pos off by auto
    have "1 \<le> ?o div span" if "unat span dvd n - unat hd_n"
      using output_slot_words(1) [of span ?o cnt] that fits pos off by simp
    with False gt block(1,2) hw nz r show ?thesis
      by (simp add: check_output_def sub_u64_ok rem_u64_def div_u64_def)
  qed
qed

lemma check_output_eq_Inr:
  fixes hd_n cnt span proof_n :: u64 and i :: nat
  defines "n \<equiv> unat proof_n + i + 1" and "claim_n \<equiv> unat hd_n + unat cnt * unat span"
  assumes wf: "\<forall>b \<in> set blobs. blob_wf b" and rng: "in_range T hd_n cnt span proof_n (Suc i)"
    and le: "hd_n \<le> proof_n"
  shows "check_output T hd_n cnt span (hd_n + cnt * span) blobs proof_n i root = Inr u \<longleftrightarrow>
    n \<le> claim_n \<and> (unat span dvd n - unat hd_n \<longrightarrow>
      output_ok blobs (unat cnt) ((n - unat hd_n) div unat span) root)"
proof -
  note out = check_output_words [OF rng le, folded n_def claim_n_def]
  let ?k = "(n - unat hd_n) div unat span"
  have "check_slot T cnt blobs ((proof_n + of_nat i + 1 - hd_n) div span - 1) root = Inr u \<longleftrightarrow>
      output_ok blobs (unat cnt) ?k root" if "n \<le> claim_n" "unat span dvd n - unat hd_n"
  proof -
    have "32 \<le> usize_bits T" "unat cnt \<le> 2 ^ 44" using rng by (simp_all add: in_range_def)
    note slot = check_slot_words [OF this, of span "proof_n + of_nat i + 1 - hd_n", unfolded out(2)]
    have pre: "unat span dvd n - unat hd_n" "0 < n - unat hd_n" "n - unat hd_n \<le> unat cnt * unat span"
      using that out(3) by (simp_all add: claim_n_def)
    have "?k - 1 < m \<longleftrightarrow> ?k \<le> m" for m using slot(2) [OF pre] by linarith
    then show ?thesis
      unfolding slot(1) [OF pre] using slot(2,3) [OF pre]
      by (auto simp: output_ok_def check_field_element_eq_Inr [OF wf] check_trail_eq_Inr [OF wf])
  qed
  then show ?thesis unfolding out(1) by auto
qed

lemma check_outputs_eq_Inr:
  "check_outputs T hd_n cnt span claim_n blobs proof_n i rs = Inr u \<longleftrightarrow>
     (\<forall>j < length rs. check_output T hd_n cnt span claim_n blobs proof_n (i + j) (rs ! j) = Inr ())"
  by (induction rs arbitrary: i) (auto simp: res_simps All_less_Suc2)

text \<open>The outputs of a proposal that fall among the blocks of the proof.\<close>

definition covers :: "u64 \<Rightarrow> u64 \<Rightarrow> u64 \<Rightarrow> u64 \<Rightarrow> nat \<Rightarrow> nat \<Rightarrow> bool" where
  "covers hd_n cnt span proof_n len k \<longleftrightarrow>
     0 < k \<and> k \<le> unat cnt \<and> unat proof_n < unat hd_n + k * unat span \<and>
     unat hd_n + k * unat span \<le> unat proof_n + len"

lemma outputs_by_index:
  fixes hd_n cnt span proof_n :: u64
  assumes le: "hd_n \<le> proof_n"
    and fits: "unat proof_n + length roots \<le> unat hd_n + unat cnt * unat span"
  shows "(\<forall>j < length roots. unat span dvd unat proof_n + j + 1 - unat hd_n \<longrightarrow>
        P ((unat proof_n + j + 1 - unat hd_n) div unat span) (roots ! j)) \<longleftrightarrow>
    (\<forall>k. covers hd_n cnt span proof_n (length roots) k \<longrightarrow>
        P k (roots ! (unat hd_n + k * unat span - unat proof_n - 1)))"
    (is "?L \<longleftrightarrow> ?R")
proof (intro iffI allI impI)
  fix k assume L: ?L and k: "covers hd_n cnt span proof_n (length roots) k"
  let ?j = "unat hd_n + k * unat span - unat proof_n - 1"
  have j: "?j < length roots" "unat proof_n + ?j + 1 - unat hd_n = k * unat span" "0 < unat span"
    using k le by (auto simp: covers_def word_le_nat_alt intro: gr0I)
  then show "P k (roots ! ?j)" using L by (metis dvd_triv_right nonzero_mult_div_cancel_right less_irrefl)
next
  fix j assume R: ?R and j: "j < length roots" and dvd: "unat span dvd unat proof_n + j + 1 - unat hd_n"
  let ?o = "unat proof_n + j + 1 - unat hd_n"
  let ?k = "?o div unat span"
  have o: "0 < ?o" "?o \<le> unat cnt * unat span" "unat hd_n + ?o = unat proof_n + j + 1"
    using le fits j by (simp_all add: word_le_nat_alt)
  then have span: "0 < unat span" by (auto intro: gr0I)
  have k: "?k * unat span = ?o" using dvd by simp
  have "0 < ?k" using k o(1) by (auto intro: gr0I)
  moreover have "?k \<le> unat cnt" using k o(2) span by (metis mult_le_cancel2)
  ultimately have "covers hd_n cnt span proof_n (length roots) ?k"
    unfolding covers_def k using o(3) j by simp
  with R have "P ?k (roots ! (unat hd_n + ?k * unat span - unat proof_n - 1))" by blast
  then show "P ?k (roots ! j)" unfolding k using o(3) by simp
qed

section \<open>Panics\<close>

text \<open>The blobs hold the published outputs.\<close>

definition enough_blobs :: "u64 \<Rightarrow> blob list \<Rightarrow> bool" where
  "enough_blobs cnt blobs \<longleftrightarrow> (1 < cnt \<longrightarrow> unat cnt \<le> FIELD_ELEMENTS_PER_BLOB * length blobs)"

lemma check_field_element_no_panic:
  assumes "\<forall>b \<in> set blobs. blob_wf b" and "k < FIELD_ELEMENTS_PER_BLOB * length blobs"
  shows "no_panic (check_field_element blobs (k div FIELD_ELEMENTS_PER_BLOB)
    (32 * (k mod FIELD_ELEMENTS_PER_BLOB)) root)"
proof -
  let ?F = FIELD_ELEMENTS_PER_BLOB
  have "k mod ?F < ?F" by (simp add: FIELD_ELEMENTS_PER_BLOB_def)
  then have "32 * (k mod ?F) + 32 \<le> 32 * ?F" by simp
  moreover have i: "k div ?F < length blobs" using assms(2) by (simp add: less_mult_imp_div_less mult.commute)
  moreover have "length (blobs ! (k div ?F)) = 32 * ?F" using assms(1) i by (simp add: blob_wf_def)
  ultimately show ?thesis by (auto simp: check_field_element_def index_vec_def slice_vec_def)
qed

lemma check_trail_no_panic:
  assumes "\<forall>b \<in> set blobs. blob_wf b" and "k < FIELD_ELEMENTS_PER_BLOB * length blobs"
  shows "no_panic (check_trail T blobs (k div FIELD_ELEMENTS_PER_BLOB)
    (32 * (k mod FIELD_ELEMENTS_PER_BLOB)))"
proof -
  let ?F = FIELD_ELEMENTS_PER_BLOB
  have "k mod ?F < ?F" by (simp add: FIELD_ELEMENTS_PER_BLOB_def)
  then have "32 * (k mod ?F) \<le> 32 * ?F" by simp
  moreover have i: "k div ?F < length blobs" using assms(2) by (simp add: less_mult_imp_div_less mult.commute)
  moreover have "length (blobs ! (k div ?F)) = 32 * ?F" using assms(1) i by (simp add: blob_wf_def)
  ultimately show ?thesis
    by (auto simp: check_trail_def index_vec_def slice_vec_def sub_usize_def)
qed

lemma check_output_no_panic:
  fixes hd_n cnt span proof_n :: u64
  assumes wf: "\<forall>b \<in> set blobs. blob_wf b" and rng: "in_range T hd_n cnt span proof_n (Suc i)"
    and le: "hd_n \<le> proof_n" and enough: "enough_blobs cnt blobs"
  shows "no_panic (check_output T hd_n cnt span (hd_n + cnt * span) blobs proof_n i root)"
proof -
  let ?n = "unat proof_n + i + 1" and ?o = "proof_n + of_nat i + 1 - hd_n"
  note out = check_output_words [OF rng le]
  have "no_panic (check_slot T cnt blobs (?o div span - 1) root)"
    if "?n \<le> unat hd_n + unat cnt * unat span" "unat span dvd ?n - unat hd_n"
  proof -
    have "32 \<le> usize_bits T" "unat cnt \<le> 2 ^ 44" using rng by (simp_all add: in_range_def)
    note slot = check_slot_words [OF this, of span ?o, unfolded out(2)]
    have pre: "unat span dvd ?n - unat hd_n" "0 < ?n - unat hd_n" "?n - unat hd_n \<le> unat cnt * unat span"
      using that out(3) by simp_all
    have "(?n - unat hd_n) div unat span - 1 < FIELD_ELEMENTS_PER_BLOB * length blobs" if "1 < unat cnt"
      using that enough slot(2,3) [OF pre] by (auto simp: enough_blobs_def word_less_nat_alt)
    then show ?thesis
      unfolding slot(1) [OF pre] using slot(2,3) [OF pre]
      by (auto intro: check_field_element_no_panic [OF wf] check_trail_no_panic [OF wf])
  qed
  then show ?thesis unfolding out(1) by auto
qed

lemma check_outputs_no_panic:
  assumes "\<And>j. j < length rs \<Longrightarrow>
    no_panic (check_output T hd_n cnt span claim_n blobs proof_n (i + j) (rs ! j))"
  shows "no_panic (check_outputs T hd_n cnt span claim_n blobs proof_n i rs)"
  using assms
proof (induction rs arbitrary: i)
  case Nil
  then show ?case by simp
next
  case (Cons r rs)
  have "no_panic (check_output T hd_n cnt span claim_n blobs proof_n i r)" using Cons.prems [of 0] by simp
  moreover have "no_panic (check_outputs T hd_n cnt span claim_n blobs proof_n (Suc i) rs)"
    using Cons.prems [of "Suc j" for j] by (intro Cons.IH) simp
  ultimately show ?case by simp
qed

section \<open>Loading through authentic sources\<close>

text \<open>
  A client of both interfaces: data loaded through an authentic oracle and an authentic provider is
  the decoding of a preimage of its hash, with blobs that open the hashes it lists.
\<close>

locale precondition_sources =
  src: preimage_oracle get oinv auth_key + prov: blob_provider get_blobs pinv auth_blob
  for get :: "'o \<Rightarrow> preimage_key \<Rightarrow> 'o \<times> bytes result" and oinv auth_key
    and get_blobs :: "'p \<Rightarrow> block_info \<Rightarrow> indexed_blob_hash list \<Rightarrow> 'p \<times> blob list result"
    and pinv auth_blob
begin

lemma load_blobs_authentic:
  assumes "pinv beacon" and "load_blobs get_blobs beacon requests acc = (beacon', Inr blobs)"
  shows "pinv beacon' \<and> (\<exists>bs. blobs = acc @ bs \<and>
    list_all2 (\<lambda>r. auth_blob (ih_hash (bfr_blob_hash r))) requests bs)"
  using assms
proof (induction requests arbitrary: beacon acc)
  case Nil
  then show ?case by simp
next
  case (Cons r rs)
  obtain b1 res where get: "get_blobs beacon (bfr_block_ref r) [bfr_blob_hash r] = (b1, res)"
    by fastforce
  with Cons.prems(2) obtain bs where bs: "res = Inr bs" "0 < length bs"
      and rest: "load_blobs get_blobs b1 rs (acc @ [bs ! 0]) = (beacon', Inr blobs)"
    by (auto simp: res_simps split: sum.splits)
  have p1: "pinv b1" using prov.get_blobs_inv [OF Cons.prems(1) get] .
  obtain b where b: "bs = [b]" "auth_blob (ih_hash (bfr_blob_hash r)) b"
    using prov.get_one_blob [OF Cons.prems(1)] get bs(1) by blast
  from Cons.IH [OF p1 rest] b show ?case by auto
qed

lemma load_authentic:
  assumes "oinv oracle" and "pinv beacon" and "data_hash \<noteq> 0"
    and "load_precondition_data get get_blobs pot_from_slice data_hash oracle beacon =
      (oracle', beacon', Inr res)"
  obtains d blobs v where "res = Some (d, blobs)" "pot_from_slice v = Inr d"
    "auth_key (preimage_key_new data_hash Sha256) v" "oinv oracle'" "pinv beacon'"
    "list_all2 (\<lambda>r. auth_blob (ih_hash (bfr_blob_hash r))) (blob_fetch_requests d) blobs"
proof -
  obtain v where get: "get oracle (preimage_key_new data_hash Sha256) = (oracle', Inr v)"
      and rest: "load_precondition_data get get_blobs pot_from_slice data_hash oracle beacon =
        (case err_context (pot_from_slice v) ''Pot::from_slice'' of
           Inl e \<Rightarrow> (oracle', beacon, Inl e)
         | Inr d \<Rightarrow> (case load_blobs get_blobs beacon (blob_fetch_requests d) [] of (b', bs) \<Rightarrow>
             (oracle', b', and_then bs (\<lambda>blobs. Inr (Some (d, blobs))))))"
    using assms(3,4)
    by (auto simp: load_precondition_data_def and_then_def split: prod.splits sum.splits)
  then obtain d blobs where d: "pot_from_slice v = Inr d" "res = Some (d, blobs)"
      and blobs: "load_blobs get_blobs beacon (blob_fetch_requests d) [] = (beacon', Inr blobs)"
    using assms(4) by (auto simp: res_simps split: sum.splits prod.splits)
  from load_blobs_authentic [OF assms(2) blobs] that [OF d(2,1)] show ?thesis
    using src.get_inv [OF assms(1) get] src.get_authentic [OF assms(1) get] by simp
qed

end

interpretation guest_sources: precondition_sources
    "vec_get kec sha" "vec_inv kec sha" "authentic_preimage kec sha"
    preloaded_get_blobs "preloaded_inv A" A
  for kec sha A ..

interpretation client_sources: precondition_sources
    "local_get (vec_get kec sha)" "local_inv (vec_inv kec sha)" "authentic_preimage kec sha"
    preloaded_get_blobs "preloaded_inv A" A
  for kec sha A ..

lemma validate_precondition_hash:
  "validate_precondition T sha d blobs n roots = Inr h \<Longrightarrow> h = precondition_hash sha d"
  by (auto simp: validate_precondition_def res_simps split: precondition_validation_data.splits if_splits)

section \<open>Binding\<close>

interpretation digest: fixed_width_encoding "to_be_bytes :: B256 \<Rightarrow> bytes" 32
  by unfold_locales simp_all

text \<open>The byte strings hashed for the precondition hash.\<close>

definition precondition_preimages :: "(bytes \<Rightarrow> B256) \<Rightarrow> precondition_validation_data \<Rightarrow> bytes set" where
  "precondition_preimages sha d =
     {concat (map (to_be_bytes \<circ> ih_hash \<circ> bfr_blob_hash) (blob_hashes d)),
      to_be_bytes (proposal_l2_head_number d) @ to_be_bytes (proposal_output_count d) @
      to_be_bytes (output_block_span d) @ to_be_bytes (data_blobs_hash sha d)}"

lemma precondition_hash_inject:
  assumes "inj_on sha (precondition_preimages sha d \<union> precondition_preimages sha d')"
    and "precondition_hash sha d = precondition_hash sha d'"
  shows "proposal_l2_head_number d = proposal_l2_head_number d' \<and>
    proposal_output_count d = proposal_output_count d' \<and>
    output_block_span d = output_block_span d' \<and>
    map (ih_hash \<circ> bfr_blob_hash) (blob_hashes d) = map (ih_hash \<circ> bfr_blob_hash) (blob_hashes d')"
proof -
  have unfold: "precondition_hash sha d = sha (to_be_bytes (proposal_l2_head_number d) @
      to_be_bytes (proposal_output_count d) @ to_be_bytes (output_block_span d) @
      to_be_bytes (data_blobs_hash sha d))" for d
    by (cases d) (simp add: precondition_hash_def validity_precondition_hash_def data_blobs_hash_def
        blob_fetch_requests_def)
  have data: "data_blobs_hash sha d = sha (concat (map (to_be_bytes \<circ> ih_hash \<circ> bfr_blob_hash) (blob_hashes d)))" for d
    by (cases d) (simp add: data_blobs_hash_def blob_fetch_requests_def blobs_hash_def comp_assoc)
  have "to_be_bytes (proposal_l2_head_number d) @ to_be_bytes (proposal_output_count d) @
      to_be_bytes (output_block_span d) @ to_be_bytes (data_blobs_hash sha d) =
    to_be_bytes (proposal_l2_head_number d') @ to_be_bytes (proposal_output_count d') @
      to_be_bytes (output_block_span d') @ to_be_bytes (data_blobs_hash sha d')"
    by (intro inj_onD [OF assms(1) assms(2) [unfolded unfold]]) (simp_all add: precondition_preimages_def)
  then have fields: "proposal_l2_head_number d = proposal_l2_head_number d'"
      "proposal_output_count d = proposal_output_count d'" "output_block_span d = output_block_span d'"
      "data_blobs_hash sha d = data_blobs_hash sha d'"
    by simp_all
  then have "concat (map (to_be_bytes \<circ> ih_hash \<circ> bfr_blob_hash) (blob_hashes d)) =
      concat (map (to_be_bytes \<circ> ih_hash \<circ> bfr_blob_hash) (blob_hashes d'))"
    by (intro inj_onD [OF assms(1) fields(4) [unfolded data]]) (simp_all add: precondition_preimages_def)
  then have "map (ih_hash \<circ> bfr_blob_hash) (blob_hashes d) = map (ih_hash \<circ> bfr_blob_hash) (blob_hashes d')"
    by (intro digest.concat_enc_inject) (simp add: comp_assoc)
  with fields show ?thesis by simp
qed

section \<open>What validation means\<close>

lemma validate_precondition_eq_Inr:
  assumes wf: "\<forall>b \<in> set blobs. blob_wf b"
    and rng: "in_range T hd_n cnt span proof_n (length roots)"
  shows "validate_precondition T sha (Validity hd_n cnt span requests) blobs proof_n roots = Inr h \<longleftrightarrow>
    h = precondition_hash sha (Validity hd_n cnt span requests) \<and>
    hd_n \<le> proof_n \<and> unat proof_n + length roots \<le> unat hd_n + unat cnt * unat span \<and>
    (\<forall>k. covers hd_n cnt span proof_n (length roots) k \<longrightarrow>
       output_ok blobs (unat cnt) k (roots ! (unat hd_n + k * unat span - unat proof_n - 1)))"
proof -
  have bounds: "unat hd_n + unat cnt * unat span < 2 ^ 64" using rng by (simp add: in_range_def)
  note claim = claim_number_words [OF bounds]
  have lt: "hd_n + cnt * span < proof_n \<longleftrightarrow> unat hd_n + unat cnt * unat span < unat proof_n"
    by (simp add: word_less_nat_alt claim(3))
  have each: "check_output T hd_n cnt span (hd_n + cnt * span) blobs proof_n j (roots ! j) = Inr () \<longleftrightarrow>
      unat proof_n + j + 1 \<le> unat hd_n + unat cnt * unat span \<and>
      (unat span dvd unat proof_n + j + 1 - unat hd_n \<longrightarrow>
        output_ok blobs (unat cnt) ((unat proof_n + j + 1 - unat hd_n) div unat span) (roots ! j))"
    if "j < length roots" "hd_n \<le> proof_n" for j
    using that rng by (intro check_output_eq_Inr [OF wf]) (auto simp: in_range_def)
  have all: "(\<forall>j < length roots. unat proof_n + j + 1 \<le> unat hd_n + unat cnt * unat span) \<and>
      unat proof_n \<le> unat hd_n + unat cnt * unat span \<longleftrightarrow>
      unat proof_n + length roots \<le> unat hd_n + unat cnt * unat span"
    by (cases roots rule: rev_cases) auto
  show ?thesis
  proof (cases "hd_n \<le> proof_n \<and> unat proof_n + length roots \<le> unat hd_n + unat cnt * unat span")
    case True
    then have "(\<forall>j < length roots. check_output T hd_n cnt span (hd_n + cnt * span) blobs proof_n j (roots ! j) = Inr ()) \<longleftrightarrow>
        (\<forall>k. covers hd_n cnt span proof_n (length roots) k \<longrightarrow>
          output_ok blobs (unat cnt) k (roots ! (unat hd_n + k * unat span - unat proof_n - 1)))"
      using each all outputs_by_index [of hd_n proof_n roots cnt span "output_ok blobs (unat cnt)"] by auto
    then show ?thesis
      using True claim lt by (auto simp: validate_precondition_def res_simps check_outputs_eq_Inr)
  next
    case False
    then show ?thesis
      using claim lt each all by (auto simp: validate_precondition_def res_simps check_outputs_eq_Inr)
  qed
qed

section \<open>Properties\<close>

text \<open>
  C7. What an accepted precondition means, on host and guest alike. When blobs are full blobs and
  block numbers and positions fit their machine integers, validation of the computed output roots
  succeeds, with the precondition hash, exactly when the proof starts within the proposal's blocks
  and ends within them, and, for every output \<open>k\<close> of the proposal whose block is among those of
  the proof: an intermediate output is the word \<open>k - 1\<close> of the blobs, as a field element; and at
  the last of several outputs the blobs hold nothing but zeroes from word \<open>k - 1\<close> on, and no
  further blob.
\<close>

theorem validate_precondition_iff:
  assumes wf: "\<forall>b \<in> set blobs. blob_wf b"
    and rng: "in_range T hd_n cnt span proof_n (length roots)"
  shows "validate_precondition T sha (Validity hd_n cnt span requests) blobs proof_n roots = Inr h \<longleftrightarrow>
    h = precondition_hash sha (Validity hd_n cnt span requests) \<and>
    hd_n \<le> proof_n \<and> unat proof_n + length roots \<le> unat hd_n + unat cnt * unat span \<and>
    (\<forall>k. covers hd_n cnt span proof_n (length roots) k \<longrightarrow>
       output_ok blobs (unat cnt) k (roots ! (unat hd_n + k * unat span - unat proof_n - 1)))"
  using assms by (rule validate_precondition_eq_Inr)

text \<open>One full blob of zeroes: a proposal of two outputs whose first is zero.\<close>

definition zero_blob :: blob where
  "zero_blob = replicate (32 * FIELD_ELEMENTS_PER_BLOB) 0"

definition sample_precondition :: precondition_validation_data where
  "sample_precondition = Validity 10 2 3
     [\<lparr>bfr_block_ref = sample_block, bfr_blob_hash = \<lparr>ih_index = 0, ih_hash = 2\<rparr>\<rparr>]"

lemma be_bytes_0: "be_bytes n 0 = replicate n 0"
  by (induction n) (simp_all add: replicate_append_same)

lemma zero_blob_outputs: "output_ok [zero_blob] 2 1 0" "output_ok [zero_blob] 2 2 root"
proof -
  have zero: "to_be_bytes (0 :: U256) = replicate 32 0" by (simp add: to_be_bytes_def be_bytes_0)
  have fe: "hash_to_fe 0 = 0" by (simp add: hash_to_fe_def)
  have "blob_word [zero_blob] 0 = replicate 32 0"
    by (simp add: blob_word_def zero_blob_def FIELD_ELEMENTS_PER_BLOB_def)
  then show "output_ok [zero_blob] 2 1 0"
    by (simp add: output_ok_def zero fe FIELD_ELEMENTS_PER_BLOB_def)
  have "trail_zeroed [zero_blob] 1"
    by (auto simp: trail_zeroed_def zero_blob_def FIELD_ELEMENTS_PER_BLOB_def dest: in_set_dropD)
  then show "output_ok [zero_blob] 2 2 root" by (simp add: output_ok_def)
qed

lemma sample_in_range: "in_range guest 10 2 3 10 6"
  by (simp add: in_range_def)

theorem validate_precondition_iff_witness:
  "validate_precondition guest sample_hash sample_precondition [zero_blob] 10 [1, 2, 0, 4, 5, 6] =
     Inr (precondition_hash sample_hash sample_precondition)"
proof -
  have wf: "\<forall>b \<in> set [zero_blob]. blob_wf b" by (simp add: zero_blob_def blob_wf_def)
  have k: "covers 10 2 3 10 6 k \<longleftrightarrow> k = 1 \<or> k = 2" for k
    by (auto simp: covers_def)
  have len: "length [1, 2, 0, 4, 5, 6 :: B256] = 6" by simp
  show ?thesis
    unfolding sample_precondition_def
    using validate_precondition_iff [OF wf, of guest 10 2 3 10 "[1, 2, 0, 4, 5, 6]" sample_hash,
        unfolded len k, OF sample_in_range] zero_blob_outputs by simp
qed

text \<open>
  C13. Validation does not panic: for full blobs, enough of them for the published outputs, and
  numbers in range, it returns the hash or an error on host and guest alike. In particular the
  branch marked unreachable is unreachable, and a proposal with no outputs or a zero span does not
  divide by zero.
\<close>

theorem validate_precondition_no_panic:
  assumes wf: "\<forall>b \<in> set blobs. blob_wf b" and enough: "enough_blobs cnt blobs"
    and rng: "in_range T hd_n cnt span proof_n (length roots)"
  shows "no_panic (validate_precondition T sha (Validity hd_n cnt span requests) blobs proof_n roots)"
proof -
  have bounds: "unat hd_n + unat cnt * unat span < 2 ^ 64" using rng by (simp add: in_range_def)
  note claim = claim_number_words [OF bounds]
  have "no_panic (check_outputs T hd_n cnt span (hd_n + cnt * span) blobs proof_n 0 roots)"
    if "hd_n \<le> proof_n"
    using rng that
    by (intro check_outputs_no_panic check_output_no_panic [OF wf _ _ enough]) (auto simp: in_range_def)
  then show ?thesis by (auto simp: validate_precondition_def claim)
qed

theorem validate_precondition_no_panic_witness:
  "no_panic (validate_precondition guest sample_hash (Validity 10 0 0 []) [] 10 [7])"
  using validate_precondition_no_panic [of "[]" 0 guest 10 0 10 "[7]" sample_hash "[]"]
  by (simp add: enough_blobs_def in_range_def)

text \<open>
  C12. The precondition hash binds what it stands for: unless SHA-256 collides on the byte strings
  hashed, two preconditions with one hash have the same starting block, output count, span and
  sequence of blob hashes.
\<close>

theorem precondition_hash_binding:
  assumes "inj_on sha (precondition_preimages sha d \<union> precondition_preimages sha d')"
    and "precondition_hash sha d = precondition_hash sha d'"
  shows "proposal_l2_head_number d = proposal_l2_head_number d' \<and>
    proposal_output_count d = proposal_output_count d' \<and>
    output_block_span d = output_block_span d' \<and>
    map (ih_hash \<circ> bfr_blob_hash) (blob_hashes d) = map (ih_hash \<circ> bfr_blob_hash) (blob_hashes d')"
  using assms by (rule precondition_hash_inject)

definition length_hash :: "bytes \<Rightarrow> B256" where
  "length_hash bs = of_nat (length bs)"

theorem precondition_hash_binding_witness:
  "let d = sample_precondition;
       d' = Validity 10 2 3
         [\<lparr>bfr_block_ref = sample_block\<lparr>bk_number := 9\<rparr>, bfr_blob_hash = \<lparr>ih_index = 5, ih_hash = 2\<rparr>\<rparr>]
   in precondition_hash length_hash d = precondition_hash length_hash d' \<and>
      map (ih_hash \<circ> bfr_blob_hash) (blob_hashes d) = map (ih_hash \<circ> bfr_blob_hash) (blob_hashes d')"
proof -
  let ?d = sample_precondition
  let ?d' = "Validity 10 2 3
    [\<lparr>bfr_block_ref = sample_block\<lparr>bk_number := 9\<rparr>, bfr_blob_hash = \<lparr>ih_index = 5, ih_hash = 2\<rparr>\<rparr>]"
  have "inj_on length_hash (precondition_preimages length_hash ?d \<union> precondition_preimages length_hash ?d')"
    by (simp add: precondition_preimages_def sample_precondition_def length_hash_def data_blobs_hash_def
        blobs_hash_def blob_fetch_requests_def image_iff)
  moreover have "precondition_hash length_hash ?d = precondition_hash length_hash ?d'"
    by (simp add: precondition_hash_def sample_precondition_def)
  ultimately show ?thesis using precondition_hash_binding [of length_hash ?d ?d'] by (simp add: Let_def)
qed

text \<open>
  Loading through the guest's sources: with a validated witness oracle and a blob provider
  built from verified blobs, precondition data loaded for a nonzero hash decodes a byte string whose
  SHA-256 image has the key's 31 bytes, and comes with one blob for each listed hash, each opening
  that hash.
\<close>

theorem load_precondition_data_authentic:
  assumes "vec_inv kec sha oracle" and "preloaded_from K w = Inr beacon" and "batch_sound K verified"
    and "data_hash \<noteq> 0"
    and "load_precondition_data (vec_get kec sha) preloaded_get_blobs pot_from_slice data_hash oracle beacon
      = (oracle', beacon', Inr res)"
  shows "\<exists>d blobs v. res = Some (d, blobs) \<and> pot_from_slice v = Inr d \<and>
    ucast data_hash = (ucast (sha v) :: 248 word) \<and>
    list_all2 (\<lambda>r. blob_opens K verified (ih_hash (bfr_blob_hash r))) (blob_fetch_requests d) blobs"
  by (rule guest_sources.load_authentic [OF assms(1) preloaded_from_inv [OF assms(2,3)] assms(4,5)])
    (auto simp: authentic_preimage_def preimage_key_new_def)

theorem load_precondition_data_authentic_witness:
  "\<exists>oracle' beacon'. load_precondition_data (vec_get sample_hash sample_hash) preloaded_get_blobs
      (\<lambda>_. Inr sample_precondition) 1
      \<lparr>vo_preimages = [[(preimage_key_new 1 Sha256, [1], None)]], vo_queue = [], vo_stream = []\<rparr>
      \<lparr>pb_entries = [(2, [1])]\<rparr> = (oracle', beacon', Inr (Some (sample_precondition, [[1]]))) \<and>
    list_all2 (\<lambda>r. blob_opens toy_kzg toy_verified (ih_hash (bfr_blob_hash r)))
      (blob_fetch_requests sample_precondition) [[1]]"
proof -
  let ?o = "\<lparr>vo_preimages = [[(preimage_key_new 1 Sha256, [1], None)]], vo_queue = [], vo_stream = []\<rparr>"
  let ?b = "\<lparr>pb_entries = [(2, [1])]\<rparr>"
  have inv: "vec_inv sample_hash sample_hash ?o"
    by (simp add: vec_inv_def all_authentic_def authentic_preimage_def preimage_key_new_def
        sample_hash_def be_nat_def)
  have b: "preloaded_from toy_kzg \<lparr>bw_blobs = [[1]], bw_commitments = [1], bw_proofs = [7]\<rparr> = Inr ?b"
    by (simp add: preloaded_from_def toy_kzg_def)
  have load: "load_precondition_data (vec_get sample_hash sample_hash) preloaded_get_blobs
      (\<lambda>_. Inr sample_precondition) 1 ?o ?b =
      (\<lparr>vo_preimages = [[]], vo_queue = [], vo_stream = []\<rparr>, \<lparr>pb_entries = []\<rparr>,
       Inr (Some (sample_precondition, [[1]])))"
    by (simp add: load_precondition_data_def vec_get_def vec_get_loop.simps sample_precondition_def
        blob_fetch_requests_def preloaded_get_blobs_def index_vec_def)
  from load_precondition_data_authentic [OF inv b toy_kzg_sound _ load] load show ?thesis by simp
qed

end
