(* ===== verification/Config.thy ===== *)
theory Config
  imports Prelude
begin

text \<open>
  The commitment to the rollup configuration (\<open>src/crates/kona/src/config.rs\<close>).
  \<open>SHA2::hash_bytes\<close> of \<open>risc0_zkvm\<close> is the parameter \<open>sha\<close>. The configuration structures come
  from \<open>kona_genesis\<close>; the records list the fields the source reads (all of them, as the tests of
  \<open>config.rs\<close> build the structures field by field).

  The hashed byte strings have their own definitions (\<open>..._bytes\<close>), so that the injectivity
  theorem can name what the hash must tell apart.
\<close>

section \<open>Configuration data\<close>

record system_config =
  sc_batcher_address :: Address
  sc_overhead :: U256
  sc_scalar :: U256
  sc_gas_limit :: u64
  sc_base_fee_scalar :: "u64 option"
  sc_blob_base_fee_scalar :: "u64 option"
  sc_eip1559_denominator :: "u32 option"
  sc_eip1559_elasticity :: "u32 option"
  sc_operator_fee_scalar :: "u32 option"
  sc_operator_fee_constant :: "u64 option"

record alt_da_config =
  ad_da_challenge_address :: "Address option"
  ad_da_challenge_window :: "u64 option"
  ad_da_resolve_window :: "u64 option"
  ad_da_commitment_type :: "bytes option"

record block_num_hash =
  bn_hash :: B256
  bn_number :: u64

record chain_genesis =
  cg_l1 :: block_num_hash
  cg_l2 :: block_num_hash
  cg_l2_time :: u64
  cg_system_config :: "system_config option"

record hard_fork_config =
  hf_regolith_time :: "u64 option"
  hf_canyon_time :: "u64 option"
  hf_delta_time :: "u64 option"
  hf_ecotone_time :: "u64 option"
  hf_fjord_time :: "u64 option"
  hf_granite_time :: "u64 option"
  hf_holocene_time :: "u64 option"
  hf_isthmus_time :: "u64 option"
  hf_interop_time :: "u64 option"
  hf_pectra_blob_schedule_time :: "u64 option"

record base_fee_config =
  bf_eip1559_denominator :: u64
  bf_eip1559_elasticity :: u64
  bf_eip1559_denominator_canyon :: u64

record rollup_config =
  rc_genesis :: chain_genesis
  rc_block_time :: u64
  rc_max_sequencer_drift :: u64
  rc_seq_window_size :: u64
  rc_channel_timeout :: u64
  rc_granite_channel_timeout :: u64
  rc_l1_chain_id :: u64
  rc_l2_chain_id :: u64
  rc_chain_op_config :: base_fee_config
  rc_hardforks :: hard_fork_config
  rc_batch_inbox_address :: Address
  rc_deposit_contract_address :: Address
  rc_l1_system_config_address :: Address
  rc_protocol_versions_address :: Address
  rc_superchain_config_address :: "Address option"
  rc_blobs_enabled_l1_timestamp :: "u64 option"
  rc_da_challenge_address :: "Address option"
  rc_interop_message_expiry_window :: u64
  rc_alt_da_config :: "alt_da_config option"

section \<open>Operations\<close>

text \<open>The default build, without the feature \<open>fpvm-v1\<close>.\<close>

definition SAFE_DEFAULT_ADDRESS :: Address where
  "SAFE_DEFAULT_ADDRESS = 0x4bfa59be6b388d77d213ce997acb0370b55157df"

definition safe_default :: "'v option \<Rightarrow> 'v \<Rightarrow> 'v result" where
  "safe_default opt dflt =
     (case opt of
        Some v \<Rightarrow> if v = dflt then bail ''Unsafe value!'' else Inr v
      | None \<Rightarrow> Inr dflt)"

text \<open>An optional integer field: the safe default, with the field's name as error context.\<close>

definition opt_field :: "'a::len word option \<Rightarrow> string \<Rightarrow> bytes result" where
  "opt_field opt name =
     and_then (err_context (safe_default opt (- 1)) name) (\<lambda>v. Inr (to_be_bytes v))"

definition opt_address :: "Address option \<Rightarrow> string \<Rightarrow> bytes result" where
  "opt_address opt name =
     and_then (err_context (safe_default opt SAFE_DEFAULT_ADDRESS) name)
       (\<lambda>v. Inr (to_be_bytes v))"

definition genesis_system_config_bytes :: "system_config \<Rightarrow> bytes result" where
  "genesis_system_config_bytes c =
     and_then (opt_field (sc_base_fee_scalar c) ''base_fee_scalar'') (\<lambda>base_fee.
     and_then (opt_field (sc_blob_base_fee_scalar c) ''blob_base_fee_scalar'') (\<lambda>blob_base_fee.
     and_then (opt_field (sc_eip1559_denominator c) ''eip1559_denominator'') (\<lambda>denominator.
     and_then (opt_field (sc_eip1559_elasticity c) ''eip1559_elasticity'') (\<lambda>elasticity.
     and_then (opt_field (sc_operator_fee_scalar c) ''operator_fee_scalar'') (\<lambda>fee_scalar.
     and_then (opt_field (sc_operator_fee_constant c) ''operator_fee_constant'') (\<lambda>fee_constant.
     Inr (to_be_bytes (sc_batcher_address c) @ to_be_bytes (sc_overhead c) @
          to_be_bytes (sc_scalar c) @ to_be_bytes (sc_gas_limit c) @
          base_fee @ blob_base_fee @ denominator @ elasticity @ fee_scalar @ fee_constant)))))))"

definition genesis_system_config_hash :: "(bytes \<Rightarrow> B256) \<Rightarrow> system_config \<Rightarrow> B256 result" where
  "genesis_system_config_hash sha c =
     and_then (genesis_system_config_bytes c) (\<lambda>fields. Inr (sha fields))"

definition alt_da_config_bytes :: "alt_da_config \<Rightarrow> bytes result" where
  "alt_da_config_bytes c =
     and_then (opt_address (ad_da_challenge_address c) ''da_challenge_address'') (\<lambda>address.
     and_then (opt_field (ad_da_challenge_window c) ''da_challenge_window'') (\<lambda>challenge.
     and_then (opt_field (ad_da_resolve_window c) ''da_resolve_window'') (\<lambda>resolve.
     and_then (err_context (safe_default (ad_da_commitment_type c) []) ''da_commitment_type'')
       (\<lambda>commitment.
     Inr (address @ challenge @ resolve @ commitment)))))"

definition alt_da_config_hash :: "(bytes \<Rightarrow> B256) \<Rightarrow> alt_da_config \<Rightarrow> B256 result" where
  "alt_da_config_hash sha c = and_then (alt_da_config_bytes c) (\<lambda>fields. Inr (sha fields))"

text \<open>
  The digest of an optional sub-structure: an error of its hash is returned, and a digest equal to
  the all-zero default fails the \<open>expect("infallible")\<close>.
\<close>

definition opt_digest :: "('c \<Rightarrow> B256 result) \<Rightarrow> 'c option \<Rightarrow> string \<Rightarrow> bytes result" where
  "opt_digest hash opt name =
     and_then
       (case opt of
          None \<Rightarrow> Inr None
        | Some c \<Rightarrow> and_then (err_context (hash c) name) (\<lambda>d. Inr (Some d)))
       (\<lambda>digest. and_then (expect (safe_default digest 0) ''infallible'')
          (\<lambda>d. Inr (to_be_bytes d)))"

definition hardfork_bytes :: "hard_fork_config \<Rightarrow> bytes result" where
  "hardfork_bytes h =
     and_then (opt_field (hf_regolith_time h) ''regolith_time'') (\<lambda>regolith.
     and_then (opt_field (hf_canyon_time h) ''canyon_time'') (\<lambda>canyon.
     and_then (opt_field (hf_delta_time h) ''delta_time'') (\<lambda>delta.
     and_then (opt_field (hf_ecotone_time h) ''ecotone_time'') (\<lambda>ecotone.
     and_then (opt_field (hf_fjord_time h) ''fjord_time'') (\<lambda>fjord.
     and_then (opt_field (hf_granite_time h) ''granite_time'') (\<lambda>granite.
     and_then (opt_field (hf_holocene_time h) ''holocene_time'') (\<lambda>holocene.
     and_then (opt_field (hf_isthmus_time h) ''isthmus_time'') (\<lambda>isthmus.
     and_then (opt_field (hf_interop_time h) ''interop_time'') (\<lambda>interop.
     and_then (opt_field (hf_pectra_blob_schedule_time h) ''pectra_blob_schedule_time'')
       (\<lambda>pectra.
     Inr (regolith @ canyon @ delta @ ecotone @ fjord @ granite @ holocene @ isthmus @ interop @
          pectra)))))))))))"

text \<open>
  \<open>config_bytes\<close> checks the fallible fields in the order of the source and concatenates all
  fields in the order of the source.
\<close>

definition rollup_config_concat ::
  "rollup_config \<Rightarrow> bytes \<Rightarrow> bytes \<Rightarrow> bytes \<Rightarrow> bytes \<Rightarrow> bytes \<Rightarrow> bytes \<Rightarrow> bytes" where
  "rollup_config_concat c genesis_system_config hardforks superchain_config_address
     blobs_enabled_l1_timestamp da_challenge_address alt_da_config =
     to_be_bytes (bn_hash (cg_l1 (rc_genesis c))) @
     to_be_bytes (bn_number (cg_l1 (rc_genesis c))) @
     to_be_bytes (bn_hash (cg_l2 (rc_genesis c))) @
     to_be_bytes (bn_number (cg_l2 (rc_genesis c))) @
     to_be_bytes (cg_l2_time (rc_genesis c)) @
     genesis_system_config @
     to_be_bytes (rc_block_time c) @
     to_be_bytes (rc_max_sequencer_drift c) @
     to_be_bytes (rc_seq_window_size c) @
     to_be_bytes (rc_channel_timeout c) @
     to_be_bytes (rc_granite_channel_timeout c) @
     to_be_bytes (rc_l1_chain_id c) @
     to_be_bytes (rc_l2_chain_id c) @
     hardforks @
     to_be_bytes (rc_batch_inbox_address c) @
     to_be_bytes (rc_deposit_contract_address c) @
     to_be_bytes (rc_l1_system_config_address c) @
     to_be_bytes (rc_protocol_versions_address c) @
     superchain_config_address @
     blobs_enabled_l1_timestamp @
     da_challenge_address @
     to_be_bytes (rc_interop_message_expiry_window c) @
     alt_da_config @
     to_be_bytes (bf_eip1559_denominator (rc_chain_op_config c)) @
     to_be_bytes (bf_eip1559_elasticity (rc_chain_op_config c)) @
     to_be_bytes (bf_eip1559_denominator_canyon (rc_chain_op_config c))"

definition config_bytes :: "(bytes \<Rightarrow> B256) \<Rightarrow> rollup_config \<Rightarrow> bytes result" where
  "config_bytes sha c =
     and_then (opt_digest (genesis_system_config_hash sha) (cg_system_config (rc_genesis c))
       ''genesis_system_config_hash'') (\<lambda>genesis_system_config.
     and_then (hardfork_bytes (rc_hardforks c)) (\<lambda>hardforks.
     and_then (opt_address (rc_superchain_config_address c) ''superchain_config_address'')
       (\<lambda>superchain_config_address.
     and_then (opt_field (rc_blobs_enabled_l1_timestamp c) ''blobs_enabled_l1_timestamp'')
       (\<lambda>blobs_enabled_l1_timestamp.
     and_then (opt_address (rc_da_challenge_address c) ''da_challenge_address'')
       (\<lambda>da_challenge_address.
     and_then (opt_digest (alt_da_config_hash sha) (rc_alt_da_config c) ''alt_da_config_hash'')
       (\<lambda>alt_da_config.
     Inr (rollup_config_concat c genesis_system_config hardforks superchain_config_address
            blobs_enabled_l1_timestamp da_challenge_address alt_da_config)))))))"

definition config_hash :: "(bytes \<Rightarrow> B256) \<Rightarrow> rollup_config \<Rightarrow> B256 result" where
  "config_hash sha c = and_then (config_bytes sha c) (\<lambda>b. Inr (sha b))"

text \<open>The byte strings that \<open>config_hash\<close> hashes.\<close>

definition ok_set :: "'a result \<Rightarrow> 'a set" where
  "ok_set r = (case r of Inl e \<Rightarrow> {} | Inr x \<Rightarrow> {x})"

definition config_preimages :: "(bytes \<Rightarrow> B256) \<Rightarrow> rollup_config \<Rightarrow> bytes set" where
  "config_preimages sha c =
     ok_set (config_bytes sha c) \<union>
     (case cg_system_config (rc_genesis c) of None \<Rightarrow> {}
      | Some s \<Rightarrow> ok_set (genesis_system_config_bytes s)) \<union>
     (case rc_alt_da_config c of None \<Rightarrow> {} | Some a \<Rightarrow> ok_set (alt_da_config_bytes a))"

section \<open>Safe defaults\<close>

text \<open>
  A field passes exactly when it is not the reserved default; the value hashed is then
  \<open>unwrap_or\<close> the default, from which the optional field can be read back.
\<close>

definition unwrap_or :: "'a option \<Rightarrow> 'a \<Rightarrow> 'a" where
  "unwrap_or opt d = (case opt of None \<Rightarrow> d | Some v \<Rightarrow> v)"

lemma safe_default_eq_Inr [res_simps]:
  "safe_default opt d = Inr v \<longleftrightarrow> opt \<noteq> Some d \<and> v = unwrap_or opt d"
  by (auto simp: safe_default_def unwrap_or_def split: option.splits)

lemma unwrap_or_inj [simp]:
  "a \<noteq> Some d \<Longrightarrow> b \<noteq> Some d \<Longrightarrow> unwrap_or a d = unwrap_or b d \<longleftrightarrow> a = b"
  by (auto simp: unwrap_or_def split: option.splits)

lemma unwrap_or_simps [simp]: "unwrap_or None d = d" "unwrap_or (Some v) d = v"
  by (simp_all add: unwrap_or_def)

lemma opt_field_eq_Inr [res_simps]:
  "opt_field opt n = Inr bs \<longleftrightarrow> opt \<noteq> Some (- 1) \<and> bs = to_be_bytes (unwrap_or opt (- 1))"
  by (auto simp: opt_field_def res_simps)

lemma opt_address_eq_Inr [res_simps]:
  "opt_address opt n = Inr bs \<longleftrightarrow>
     opt \<noteq> Some SAFE_DEFAULT_ADDRESS \<and> bs = to_be_bytes (unwrap_or opt SAFE_DEFAULT_ADDRESS)"
  by (auto simp: opt_address_def res_simps)

lemma opt_digest_eq_Inr:
  "opt_digest hash opt n = Inr bs \<longleftrightarrow>
     (opt = None \<and> bs = to_be_bytes (0 :: B256)) \<or>
     (\<exists>c d. opt = Some c \<and> hash c = Inr d \<and> d \<noteq> 0 \<and> bs = to_be_bytes d)"
  by (auto simp: opt_digest_def res_simps split: option.splits)

lemma length_opt_digest [enc_len]: "opt_digest hash opt n = Inr bs \<Longrightarrow> length bs = 32"
  by (auto simp: opt_digest_eq_Inr)

lemma opt_digest_inj:
  assumes "opt_digest hash a n = Inr bs" and "opt_digest hash b n = Inr bs"
    and "\<And>x y d. a = Some x \<Longrightarrow> b = Some y \<Longrightarrow> hash x = Inr d \<Longrightarrow> hash y = Inr d \<Longrightarrow> x = y"
  shows "a = b"
  using assms by (auto simp: opt_digest_eq_Inr)

section \<open>Injectivity of the encodings\<close>

lemma genesis_system_config_bytes_inj:
  assumes "genesis_system_config_bytes a = Inr bs" and "genesis_system_config_bytes b = Inr bs"
  shows "a = b"
  using assms
  by (auto simp: genesis_system_config_bytes_def res_simps intro!: system_config.equality)

lemma alt_da_config_bytes_inj:
  assumes "alt_da_config_bytes a = Inr bs" and "alt_da_config_bytes b = Inr bs"
  shows "a = b"
  using assms
  by (auto simp: alt_da_config_bytes_def res_simps intro!: alt_da_config.equality)

lemma length_hardfork_bytes [enc_len]: "hardfork_bytes h = Inr bs \<Longrightarrow> length bs = 80"
  by (auto simp: hardfork_bytes_def res_simps)

lemma hardfork_bytes_inj:
  assumes "hardfork_bytes a = Inr bs" and "hardfork_bytes b = Inr bs"
  shows "a = b"
  using assms by (auto simp: hardfork_bytes_def res_simps intro!: hard_fork_config.equality)

lemma rollup_config_concat_inj:
  assumes "rollup_config_concat a s h sc blobs da alt =
      rollup_config_concat b s' h' sc' blobs' da' alt'"
    and "length s = length s'" "length h = length h'" "length sc = length sc'"
    and "length blobs = length blobs'" "length da = length da'" "length alt = length alt'"
  shows "s = s' \<and> h = h' \<and> sc = sc' \<and> blobs = blobs' \<and> da = da' \<and> alt = alt' \<and>
    a\<lparr>rc_genesis := (rc_genesis a)\<lparr>cg_system_config := None\<rparr>,
      rc_hardforks := rc_hardforks b, rc_superchain_config_address := None,
      rc_blobs_enabled_l1_timestamp := None, rc_da_challenge_address := None,
      rc_alt_da_config := None\<rparr> =
    b\<lparr>rc_genesis := (rc_genesis b)\<lparr>cg_system_config := None\<rparr>,
      rc_superchain_config_address := None,
      rc_blobs_enabled_l1_timestamp := None, rc_da_challenge_address := None,
      rc_alt_da_config := None\<rparr>"
  using assms
  by (simp add: rollup_config_concat_def rollup_config.equality chain_genesis.equality
      block_num_hash.equality base_fee_config.equality)

lemma length_config_bytes [enc_len]: "config_bytes sha c = Inr bs \<Longrightarrow> length bs = 448"
  by (auto simp: config_bytes_def rollup_config_concat_def res_simps length_opt_digest
      length_hardfork_bytes)

lemma ok_set_simps [simp]: "ok_set (Inr x) = {x}" "ok_set (Inl e) = {}"
  by (simp_all add: ok_set_def)

lemma config_preimagesI:
  "config_bytes sha c = Inr b \<Longrightarrow> b \<in> config_preimages sha c"
  "cg_system_config (rc_genesis c) = Some s \<Longrightarrow> genesis_system_config_bytes s = Inr b \<Longrightarrow>
     b \<in> config_preimages sha c"
  "rc_alt_da_config c = Some d \<Longrightarrow> alt_da_config_bytes d = Inr b \<Longrightarrow>
     b \<in> config_preimages sha c"
  by (simp_all add: config_preimages_def)

lemma opt_system_config_inj:
  assumes "opt_digest (genesis_system_config_hash sha) (cg_system_config (rc_genesis a)) n = Inr d"
    and "opt_digest (genesis_system_config_hash sha) (cg_system_config (rc_genesis b)) n = Inr d"
    and inj: "inj_on sha (config_preimages sha a \<union> config_preimages sha b)"
  shows "cg_system_config (rc_genesis a) = cg_system_config (rc_genesis b)"
  using assms(1,2)
proof (rule opt_digest_inj)
  fix x y d
  assume "cg_system_config (rc_genesis a) = Some x" "cg_system_config (rc_genesis b) = Some y"
    "genesis_system_config_hash sha x = Inr d" "genesis_system_config_hash sha y = Inr d"
  then show "x = y"
    by (auto simp: genesis_system_config_hash_def res_simps dest!: inj_onD [OF inj]
        intro: config_preimagesI genesis_system_config_bytes_inj)
qed

lemma opt_alt_da_config_inj:
  assumes "opt_digest (alt_da_config_hash sha) (rc_alt_da_config a) n = Inr d"
    and "opt_digest (alt_da_config_hash sha) (rc_alt_da_config b) n = Inr d"
    and inj: "inj_on sha (config_preimages sha a \<union> config_preimages sha b)"
  shows "rc_alt_da_config a = rc_alt_da_config b"
  using assms(1,2)
proof (rule opt_digest_inj)
  fix x y d
  assume "rc_alt_da_config a = Some x" "rc_alt_da_config b = Some y"
    "alt_da_config_hash sha x = Inr d" "alt_da_config_hash sha y = Inr d"
  then show "x = y"
    by (auto simp: alt_da_config_hash_def res_simps dest!: inj_onD [OF inj]
        intro: config_preimagesI alt_da_config_bytes_inj)
qed

lemma config_bytes_inj:
  assumes a: "config_bytes sha a = Inr bs" and b: "config_bytes sha b = Inr bs"
    and inj: "inj_on sha (config_preimages sha a \<union> config_preimages sha b)"
  shows "a = b"
proof -
  let ?sys = "\<lambda>c. opt_digest (genesis_system_config_hash sha) (cg_system_config (rc_genesis c))
    ''genesis_system_config_hash''"
  let ?alt = "\<lambda>c. opt_digest (alt_da_config_hash sha) (rc_alt_da_config c) ''alt_da_config_hash''"
  from a obtain s h sc bl da d where pa: "?sys a = Inr s" "hardfork_bytes (rc_hardforks a) = Inr h"
      "opt_address (rc_superchain_config_address a) ''superchain_config_address'' = Inr sc"
      "opt_field (rc_blobs_enabled_l1_timestamp a) ''blobs_enabled_l1_timestamp'' = Inr bl"
      "opt_address (rc_da_challenge_address a) ''da_challenge_address'' = Inr da"
      "?alt a = Inr d" "bs = rollup_config_concat a s h sc bl da d"
    unfolding config_bytes_def and_then_eq_Inr by auto
  from b obtain s' h' sc' bl' da' d' where pb: "?sys b = Inr s'"
      "hardfork_bytes (rc_hardforks b) = Inr h'"
      "opt_address (rc_superchain_config_address b) ''superchain_config_address'' = Inr sc'"
      "opt_field (rc_blobs_enabled_l1_timestamp b) ''blobs_enabled_l1_timestamp'' = Inr bl'"
      "opt_address (rc_da_challenge_address b) ''da_challenge_address'' = Inr da'"
      "?alt b = Inr d'" "bs = rollup_config_concat b s' h' sc' bl' da' d'"
    unfolding config_bytes_def and_then_eq_Inr by auto
  have "length s = length s'" "length h = length h'" "length d = length d'"
    using pa pb by (simp_all add: length_opt_digest length_hardfork_bytes)
  moreover have "length sc = length sc'" "length bl = length bl'" "length da = length da'"
    using pa pb by (simp_all add: res_simps)
  ultimately have eqs: "s = s'" "h = h'" "sc = sc'" "bl = bl'" "da = da'" "d = d'"
    and rest: "a\<lparr>rc_genesis := (rc_genesis a)\<lparr>cg_system_config := None\<rparr>,
      rc_hardforks := rc_hardforks b, rc_superchain_config_address := None,
      rc_blobs_enabled_l1_timestamp := None, rc_da_challenge_address := None,
      rc_alt_da_config := None\<rparr> =
    b\<lparr>rc_genesis := (rc_genesis b)\<lparr>cg_system_config := None\<rparr>,
      rc_superchain_config_address := None,
      rc_blobs_enabled_l1_timestamp := None, rc_da_challenge_address := None,
      rc_alt_da_config := None\<rparr>"
    using rollup_config_concat_inj [of a s h sc bl da d b s' h' sc' bl' da' d'] pa(7) pb(7)
    by simp_all
  have "cg_system_config (rc_genesis a) = cg_system_config (rc_genesis b)"
    using pa(1) pb(1) eqs(1) opt_system_config_inj [OF _ _ inj] by simp
  moreover have "rc_hardforks a = rc_hardforks b"
    using pa(2) pb(2) eqs(2) hardfork_bytes_inj by simp
  moreover have "rc_superchain_config_address a = rc_superchain_config_address b"
    "rc_blobs_enabled_l1_timestamp a = rc_blobs_enabled_l1_timestamp b"
    "rc_da_challenge_address a = rc_da_challenge_address b"
    using pa(3-5) pb(3-5) eqs(3-5) by (auto simp: res_simps)
  moreover have "rc_alt_da_config a = rc_alt_da_config b"
    using pa(6) pb(6) eqs(6) opt_alt_da_config_inj [OF _ _ inj] by simp
  ultimately show ?thesis
    using rest by (cases a; cases b; cases "rc_genesis a"; cases "rc_genesis b") simp
qed

section \<open>Properties\<close>

text \<open>
  C16. The configuration hash binds the whole rollup configuration. Two different configurations
  that both hash have different hashes, unless SHA-256 collides on one of the byte strings that
  were hashed for them: no field is left out, no two encodings of a field coincide, and an absent
  optional field is never confused with a present one.
\<close>

theorem config_hash_binding:
  assumes "config_hash sha a = Inr ha" and "config_hash sha b = Inr hb"
    and "inj_on sha (config_preimages sha a \<union> config_preimages sha b)"
    and "a \<noteq> b"
  shows "ha \<noteq> hb"
proof
  assume "ha = hb"
  with assms(1,2) obtain x y where x: "config_bytes sha a = Inr x" and y: "config_bytes sha b = Inr y"
    and eq: "sha x = sha y"
    by (auto simp: config_hash_def res_simps)
  from eq x y have "x = y"
    by (auto intro: inj_onD [OF assms(3)] config_preimagesI)
  with x y assms(3) have "a = b" by (auto intro: config_bytes_inj)
  with assms(4) show False by simp
qed

definition sample_config :: "u64 \<Rightarrow> rollup_config" where
  "sample_config canyon =
     \<lparr>rc_genesis = \<lparr>cg_l1 = \<lparr>bn_hash = 1, bn_number = 2\<rparr>, cg_l2 = \<lparr>bn_hash = 3, bn_number = 4\<rparr>,
        cg_l2_time = 5, cg_system_config = None\<rparr>,
      rc_block_time = 2, rc_max_sequencer_drift = 600, rc_seq_window_size = 3600,
      rc_channel_timeout = 300, rc_granite_channel_timeout = 50, rc_l1_chain_id = 1,
      rc_l2_chain_id = 10,
      rc_chain_op_config = \<lparr>bf_eip1559_denominator = 50, bf_eip1559_elasticity = 6,
        bf_eip1559_denominator_canyon = canyon\<rparr>,
      rc_hardforks = \<lparr>hf_regolith_time = Some 0, hf_canyon_time = Some 1, hf_delta_time = None,
        hf_ecotone_time = None, hf_fjord_time = None, hf_granite_time = None,
        hf_holocene_time = None, hf_isthmus_time = None, hf_interop_time = None,
        hf_pectra_blob_schedule_time = None\<rparr>,
      rc_batch_inbox_address = 7, rc_deposit_contract_address = 8,
      rc_l1_system_config_address = 9, rc_protocol_versions_address = 10,
      rc_superchain_config_address = None, rc_blobs_enabled_l1_timestamp = None,
      rc_da_challenge_address = Some 11, rc_interop_message_expiry_window = 12,
      rc_alt_da_config = None\<rparr>"

lemma sample_config_ok:
  "\<exists>bs. config_bytes sha (sample_config n) = Inr (bs @ to_be_bytes n)"
  by (simp add: sample_config_def config_bytes_def opt_digest_def hardfork_bytes_def opt_field_def
      opt_address_def safe_default_def rollup_config_concat_def SAFE_DEFAULT_ADDRESS_def
      flip: append_assoc)

theorem config_hash_binding_witness:
  "\<exists>ha hb. config_hash (\<lambda>bs. from_be_bytes (drop 440 bs)) (sample_config 250) = Inr ha \<and>
     config_hash (\<lambda>bs. from_be_bytes (drop 440 bs)) (sample_config 251) = Inr hb \<and> ha \<noteq> hb"
proof -
  let ?sha = "\<lambda>bs. from_be_bytes (drop 440 bs) :: B256"
  obtain x where x: "config_bytes ?sha (sample_config 250) = Inr (x @ to_be_bytes (250 :: u64))"
    using sample_config_ok by blast
  obtain y where y: "config_bytes ?sha (sample_config 251) = Inr (y @ to_be_bytes (251 :: u64))"
    using sample_config_ok by blast
  have len: "length x = 440" "length y = 440"
    using length_config_bytes [OF x] length_config_bytes [OF y] by simp_all
  have sha: "?sha (x @ to_be_bytes (250 :: u64)) = 250" "?sha (y @ to_be_bytes (251 :: u64)) = 251"
    using len by (simp_all add: from_be_bytes_def to_be_bytes_def be_nat_be_bytes)
  have pre: "config_preimages ?sha (sample_config 250) = {x @ to_be_bytes (250 :: u64)}"
    "config_preimages ?sha (sample_config 251) = {y @ to_be_bytes (251 :: u64)}"
    by (simp_all add: config_preimages_def x y) (simp_all add: sample_config_def)
  have "inj_on ?sha (config_preimages ?sha (sample_config 250) \<union>
      config_preimages ?sha (sample_config 251))"
    using len sha by (simp add: pre)
  moreover have "sample_config 250 \<noteq> sample_config 251"
    by (simp add: sample_config_def)
  moreover have "config_hash ?sha (sample_config 250) = Inr 250"
    "config_hash ?sha (sample_config 251) = Inr 251"
    using sha by (simp_all add: config_hash_def x y)
  ultimately show ?thesis
    using config_hash_binding [of ?sha "sample_config 250" 250 "sample_config 251" 251] by blast
qed

text \<open>
  Which configurations can be hashed. \<open>config_hash\<close> succeeds exactly when no optional field
  holds the value reserved for its absence, in the configuration and in its two sub-structures,
  and neither sub-structure has the all-zero digest; every other configuration is rejected.
\<close>

definition system_config_safe :: "system_config \<Rightarrow> bool" where
  "system_config_safe s \<longleftrightarrow>
     sc_base_fee_scalar s \<noteq> Some (- 1) \<and> sc_blob_base_fee_scalar s \<noteq> Some (- 1) \<and>
     sc_eip1559_denominator s \<noteq> Some (- 1) \<and> sc_eip1559_elasticity s \<noteq> Some (- 1) \<and>
     sc_operator_fee_scalar s \<noteq> Some (- 1) \<and> sc_operator_fee_constant s \<noteq> Some (- 1)"

definition alt_da_config_safe :: "alt_da_config \<Rightarrow> bool" where
  "alt_da_config_safe d \<longleftrightarrow>
     ad_da_challenge_address d \<noteq> Some SAFE_DEFAULT_ADDRESS \<and>
     ad_da_challenge_window d \<noteq> Some (- 1) \<and> ad_da_resolve_window d \<noteq> Some (- 1) \<and>
     ad_da_commitment_type d \<noteq> Some []"

definition hardforks_safe :: "hard_fork_config \<Rightarrow> bool" where
  "hardforks_safe h \<longleftrightarrow>
     Some (- 1) \<notin> {hf_regolith_time h, hf_canyon_time h, hf_delta_time h, hf_ecotone_time h,
       hf_fjord_time h, hf_granite_time h, hf_holocene_time h, hf_isthmus_time h,
       hf_interop_time h, hf_pectra_blob_schedule_time h}"

definition config_safe :: "(bytes \<Rightarrow> B256) \<Rightarrow> rollup_config \<Rightarrow> bool" where
  "config_safe sha c \<longleftrightarrow>
     (case cg_system_config (rc_genesis c) of None \<Rightarrow> True
      | Some s \<Rightarrow> system_config_safe s \<and> genesis_system_config_hash sha s \<noteq> Inr 0) \<and>
     hardforks_safe (rc_hardforks c) \<and>
     rc_superchain_config_address c \<noteq> Some SAFE_DEFAULT_ADDRESS \<and>
     rc_blobs_enabled_l1_timestamp c \<noteq> Some (- 1) \<and>
     rc_da_challenge_address c \<noteq> Some SAFE_DEFAULT_ADDRESS \<and>
     (case rc_alt_da_config c of None \<Rightarrow> True
      | Some d \<Rightarrow> alt_da_config_safe d \<and> alt_da_config_hash sha d \<noteq> Inr 0)"

lemma system_config_hash_ok_iff:
  "(\<exists>d. genesis_system_config_hash sha s = Inr d) \<longleftrightarrow> system_config_safe s"
  by (auto simp: genesis_system_config_hash_def genesis_system_config_bytes_def res_simps
      system_config_safe_def)

lemma alt_da_config_hash_ok_iff:
  "(\<exists>h. alt_da_config_hash sha d = Inr h) \<longleftrightarrow> alt_da_config_safe d"
  by (auto simp: alt_da_config_hash_def alt_da_config_bytes_def res_simps alt_da_config_safe_def)

lemma hardfork_bytes_ok_iff: "(\<exists>b. hardfork_bytes h = Inr b) \<longleftrightarrow> hardforks_safe h"
  by (auto simp: hardfork_bytes_def res_simps hardforks_safe_def)

lemma opt_digest_ok_iff:
  "(\<exists>b. opt_digest hash opt n = Inr b) \<longleftrightarrow>
     (case opt of None \<Rightarrow> True | Some c \<Rightarrow> (\<exists>d. hash c = Inr d) \<and> hash c \<noteq> Inr 0)"
  by (auto simp: opt_digest_eq_Inr split: option.splits)

theorem config_hash_ok_iff: "(\<exists>h. config_hash sha c = Inr h) \<longleftrightarrow> config_safe sha c"
proof -
  let ?sys = "opt_digest (genesis_system_config_hash sha) (cg_system_config (rc_genesis c))
    ''genesis_system_config_hash''"
  let ?alt = "opt_digest (alt_da_config_hash sha) (rc_alt_da_config c) ''alt_da_config_hash''"
  have "(\<exists>h. config_hash sha c = Inr h) \<longleftrightarrow>
      (\<exists>s. ?sys = Inr s) \<and> (\<exists>h. hardfork_bytes (rc_hardforks c) = Inr h) \<and>
      rc_superchain_config_address c \<noteq> Some SAFE_DEFAULT_ADDRESS \<and>
      rc_blobs_enabled_l1_timestamp c \<noteq> Some (- 1) \<and>
      rc_da_challenge_address c \<noteq> Some SAFE_DEFAULT_ADDRESS \<and> (\<exists>d. ?alt = Inr d)"
    unfolding config_hash_def config_bytes_def and_then_eq_Inr opt_address_eq_Inr opt_field_eq_Inr
    by auto
  then show ?thesis
    unfolding opt_digest_ok_iff hardfork_bytes_ok_iff system_config_hash_ok_iff
      alt_da_config_hash_ok_iff config_safe_def by blast
qed

end
