(* ===== verification/L1_Chain.thy ===== *)
theory L1_Chain
  imports Oracle_Replay Blobs "HOL-Library.AList"
begin

text \<open>
  The oracle-backed L1 chain provider (\<open>src/crates/kona/src/kona.rs\<close>): headers by hash, block
  information by number through a walk over parent hashes, receipts and transactions of a block.

  Headers carry the fields the source reads. The RLP decoders and the trie walker of \<open>kona_mpt\<close>
  are parameters. A hint is not an operation of the model: the witness oracles ignore hints. The
  walk over parents is a partial function, since a cycle of parent hashes would keep it running.
\<close>

section \<open>Data\<close>

record raw_header =
  rh_parent_hash :: B256
  rh_number :: u64
  rh_timestamp :: u64
  rh_receipts_root :: B256
  rh_transactions_root :: B256
  rh_gas_used :: u64

record sealed_header =
  sh_header :: raw_header
  sh_hash :: B256

record 'o l1_provider =
  lp_oracle :: 'o
  lp_headers :: "sealed_header list"
  lp_headers_map :: "(B256 \<times> nat) list"

definition seal :: "raw_header \<Rightarrow> B256 \<Rightarrow> sealed_header" where
  "seal header h = \<lparr>sh_header = header, sh_hash = h\<rparr>"

definition header_block_info :: "B256 \<Rightarrow> raw_header \<Rightarrow> block_info" where
  "header_block_info h header =
     \<lparr>bk_hash = h, bk_number = rh_number header, bk_parent_hash = rh_parent_hash header,
      bk_timestamp = rh_timestamp header\<rparr>"

section \<open>Operations\<close>

definition l1_new ::
  "('o \<Rightarrow> preimage_key \<Rightarrow> 'o \<times> bytes result) \<Rightarrow> (bytes \<Rightarrow> raw_header result) \<Rightarrow> B256 \<Rightarrow> 'o \<Rightarrow>
   'o l1_provider result" where
  "l1_new get header_decode l1_head oracle =
     (if l1_head = 0 then Inr \<lparr>lp_oracle = oracle, lp_headers = [], lp_headers_map = []\<rparr>
      else case get oracle (preimage_key_new l1_head Keccak256) of (oracle', r) \<Rightarrow>
        and_then r (\<lambda>header_rlp.
        and_then (header_decode header_rlp) (\<lambda>l1_header.
        Inr \<lparr>lp_oracle = oracle', lp_headers = [seal l1_header l1_head],
             lp_headers_map = [(l1_head, 0)]\<rparr>)))"

definition l1_header_by_hash ::
  "('o \<Rightarrow> preimage_key \<Rightarrow> 'o \<times> bytes result) \<Rightarrow> (bytes \<Rightarrow> raw_header result) \<Rightarrow>
   'o l1_provider \<Rightarrow> B256 \<Rightarrow> 'o l1_provider \<times> raw_header result" where
  "l1_header_by_hash get header_decode s h =
     (case map_of (lp_headers_map s) h of
        Some i \<Rightarrow> (s, and_then (index_vec (lp_headers s) i) (\<lambda>header. Inr (sh_header header)))
      | None \<Rightarrow>
          (case get (lp_oracle s) (preimage_key_new h Keccak256) of (oracle', r) \<Rightarrow>
             (s\<lparr>lp_oracle := oracle'\<rparr>, and_then r header_decode)))"

text \<open>The loop that walks back to the header at \<open>header_index\<close>.\<close>

definition l1_push :: "'o l1_provider \<Rightarrow> B256 \<Rightarrow> raw_header \<Rightarrow> 'o l1_provider" where
  "l1_push s h header =
     s\<lparr>lp_headers_map := AList.update h (length (lp_headers s)) (lp_headers_map s),
       lp_headers := lp_headers s @ [seal header h]\<rparr>"

partial_function (option) l1_walk ::
  "('o \<Rightarrow> preimage_key \<Rightarrow> 'o \<times> bytes result) \<Rightarrow> (bytes \<Rightarrow> raw_header result) \<Rightarrow> nat \<Rightarrow>
   'o l1_provider \<Rightarrow> ('o l1_provider \<times> unit result) option" where
  "l1_walk get header_decode header_index s =
     (if length (lp_headers_map s) \<le> header_index then
        (case index_vec (lp_headers s) (length (lp_headers_map s) - 1) of
           Inl e \<Rightarrow> Some (s, Inl e)
         | Inr last_header \<Rightarrow>
             (let header_hash = rh_parent_hash (sh_header last_header)
              in case l1_header_by_hash get header_decode s header_hash of
                   (s', Inl e) \<Rightarrow> Some (s', Inl e)
                 | (s', Inr header) \<Rightarrow>
                     l1_walk get header_decode header_index (l1_push s' header_hash header)))
      else Some (s, Inr ()))"

definition block_info_by_number ::
  "build \<Rightarrow> ('o \<Rightarrow> preimage_key \<Rightarrow> 'o \<times> bytes result) \<Rightarrow> (bytes \<Rightarrow> raw_header result) \<Rightarrow>
   'o l1_provider \<Rightarrow> u64 \<Rightarrow> ('o l1_provider \<times> block_info result) option" where
  "block_info_by_number T get header_decode s block_number =
     (case index_vec (lp_headers s) 0 of
        Inl e \<Rightarrow> Some (s, Inl e)
      | Inr head_header \<Rightarrow>
          if block_number > rh_number (sh_header head_header)
          then Some (s, bail ''BlockNumberPastHead'')
          else let header_index = as_usize T (rh_number (sh_header head_header) - block_number)
               in case l1_walk get header_decode header_index s of
                    None \<Rightarrow> None
                  | Some (s', r) \<Rightarrow>
                      Some (s', and_then r (\<lambda>_.
                        and_then (index_vec (lp_headers s') header_index) (\<lambda>header.
                        Inr (header_block_info (sh_hash header) (sh_header header))))))"

text \<open>
  Receipts and transactions: \<open>trie_list\<close> stands for the hydrated \<open>OrderedListWalker\<close>, the RLP
  strings of the list with the given root.
\<close>

definition receipts_by_hash ::
  "('o \<Rightarrow> preimage_key \<Rightarrow> 'o \<times> bytes result) \<Rightarrow> (bytes \<Rightarrow> raw_header result) \<Rightarrow>
   ('o l1_provider \<Rightarrow> B256 \<Rightarrow> 'o l1_provider \<times> bytes list result) \<Rightarrow> (bytes \<Rightarrow> 'r result) \<Rightarrow>
   'o l1_provider \<Rightarrow> B256 \<Rightarrow> 'o l1_provider \<times> 'r list result" where
  "receipts_by_hash get header_decode trie_list receipt_decode s h =
     (case l1_header_by_hash get header_decode s h of
        (s', Inl e) \<Rightarrow> (s', Inl e)
      | (s', Inr header) \<Rightarrow>
          (case trie_list s' (rh_receipts_root header) of (s'', r) \<Rightarrow>
             (s'', and_then r (try_map receipt_decode))))"

definition block_info_and_transactions_by_hash ::
  "('o \<Rightarrow> preimage_key \<Rightarrow> 'o \<times> bytes result) \<Rightarrow> (bytes \<Rightarrow> raw_header result) \<Rightarrow>
   ('o l1_provider \<Rightarrow> B256 \<Rightarrow> 'o l1_provider \<times> bytes list result) \<Rightarrow> (bytes \<Rightarrow> 't result) \<Rightarrow>
   'o l1_provider \<Rightarrow> B256 \<Rightarrow> 'o l1_provider \<times> (block_info \<times> 't list) result" where
  "block_info_and_transactions_by_hash get header_decode trie_list tx_decode s h =
     (case l1_header_by_hash get header_decode s h of
        (s', Inl e) \<Rightarrow> (s', Inl e)
      | (s', Inr header) \<Rightarrow>
          (case trie_list s' (rh_transactions_root header) of (s'', r) \<Rightarrow>
             (s'', and_then r (\<lambda>rlps.
                   and_then (try_map tx_decode rlps) (\<lambda>txs.
                   Inr (header_block_info h header, txs))))))"

definition trie_node_by_hash ::
  "('o \<Rightarrow> preimage_key \<Rightarrow> 'o \<times> bytes result) \<Rightarrow> (bytes \<Rightarrow> 'n result) \<Rightarrow>
   'o l1_provider \<Rightarrow> B256 \<Rightarrow> 'o l1_provider \<times> 'n result" where
  "trie_node_by_hash get node_decode s key =
     (case get (lp_oracle s) (preimage_key_new key Keccak256) of (oracle', r) \<Rightarrow>
        (s\<lparr>lp_oracle := oracle'\<rparr>, and_then r node_decode))"

section \<open>The chain behind the head\<close>

text \<open>
  The headers are linked by parent hashes from the head on, each decoded from an authentic
  preimage of its hash, and the map holds the index of each under its hash, once.
\<close>

definition linked :: "sealed_header list \<Rightarrow> bool" where
  "linked hs \<longleftrightarrow> (\<forall>i. Suc i < length hs \<longrightarrow> sh_hash (hs ! Suc i) = rh_parent_hash (sh_header (hs ! i)))"

definition decoded_from ::
  "(preimage_key \<Rightarrow> bytes \<Rightarrow> bool) \<Rightarrow> (bytes \<Rightarrow> raw_header result) \<Rightarrow> sealed_header \<Rightarrow> bool" where
  "decoded_from authentic header_decode h \<longleftrightarrow>
     (\<exists>v. authentic (preimage_key_new (sh_hash h) Keccak256) v \<and> header_decode v = Inr (sh_header h))"

definition indexed :: "'o l1_provider \<Rightarrow> bool" where
  "indexed s \<longleftrightarrow>
     distinct (map sh_hash (lp_headers s)) \<and>
     lp_headers_map s = zip (map sh_hash (lp_headers s)) [0..<length (lp_headers s)]"

definition l1_inv ::
  "('o \<Rightarrow> bool) \<Rightarrow> (preimage_key \<Rightarrow> bytes \<Rightarrow> bool) \<Rightarrow> (bytes \<Rightarrow> raw_header result) \<Rightarrow> B256 \<Rightarrow>
   'o l1_provider \<Rightarrow> bool" where
  "l1_inv oinv authentic header_decode l1_head s \<longleftrightarrow>
     oinv (lp_oracle s) \<and> linked (lp_headers s) \<and> indexed s \<and>
     (\<forall>h \<in> set (lp_headers s). decoded_from authentic header_decode h) \<and>
     (l1_head \<noteq> 0 \<longrightarrow> lp_headers s \<noteq> [] \<and> sh_hash (lp_headers s ! 0) = l1_head) \<and>
     (l1_head = 0 \<longrightarrow> lp_headers s = [])"

text \<open>A walk that meets a hash it has seen goes round forever.\<close>

definition stuck :: "'o l1_provider \<Rightarrow> bool" where
  "stuck s \<longleftrightarrow>
     (\<exists>h. 0 < length (lp_headers_map s) \<and> length (lp_headers_map s) \<le> length (lp_headers s) \<and>
       rh_parent_hash (sh_header (lp_headers s ! (length (lp_headers_map s) - 1))) = h \<and>
       h \<in> dom (map_of (lp_headers_map s)) \<and>
       (\<forall>(k, i) \<in> set (lp_headers_map s). i < length (lp_headers s)))"

lemma length_update_dom: "h \<in> dom (map_of al) \<Longrightarrow> length (AList.update h v al) = length al"
  by (induction al) (auto simp: dom_def)

lemma update_fresh: "h \<notin> fst ` set al \<Longrightarrow> AList.update h v al = al @ [(h, v)]"
  by (induction al) auto

lemma set_update_subset: "set (AList.update h v al) \<subseteq> insert (h, v) (set al)"
  by (induction al) auto

lemma stuck_length: "stuck s \<Longrightarrow> length (lp_headers_map s) - 1 < length (lp_headers s)"
  unfolding stuck_def by linarith

lemma stuck_push:
  assumes "stuck s" and "rh_parent_hash (sh_header (lp_headers s ! (length (lp_headers_map s) - 1))) = h"
  shows "stuck (l1_push s h header) \<and> length (lp_headers_map (l1_push s h header)) = length (lp_headers_map s)"
proof -
  let ?m = "lp_headers_map s"
  have dom: "h \<in> dom (map_of ?m)" and len: "0 < length ?m" "length ?m \<le> length (lp_headers s)"
    and idx: "\<forall>(k, i) \<in> set ?m. i < length (lp_headers s)"
    using assms by (auto simp: stuck_def)
  have upd: "length (AList.update h (length (lp_headers s)) ?m) = length ?m"
    using length_update_dom [OF dom] .
  moreover have "h \<in> dom (map_of (AList.update h (length (lp_headers s)) ?m))"
    by (simp add: update_conv')
  moreover have "\<forall>(k, i) \<in> set (AList.update h (length (lp_headers s)) ?m). i < Suc (length (lp_headers s))"
    using set_update_subset [of h "length (lp_headers s)" ?m] idx by fastforce
  ultimately show ?thesis
    using len assms(2) stuck_length [OF assms(1)] by (simp add: stuck_def l1_push_def nth_append)
qed

lemma stuck_lookup:
  assumes "stuck s" and "rh_parent_hash (sh_header (lp_headers s ! (length (lp_headers_map s) - 1))) = h"
  shows "\<exists>header. l1_header_by_hash get dec s h = (s, Inr header)"
proof -
  from assms obtain i where i: "map_of (lp_headers_map s) h = Some i"
    by (auto simp: stuck_def)
  then have "(h, i) \<in> set (lp_headers_map s)" by (rule map_of_SomeD)
  then have "i < length (lp_headers s)" using assms(1) by (auto simp: stuck_def)
  with i show ?thesis by (simp add: l1_header_by_hash_def index_vec_def)
qed

text \<open>The map of an indexed provider, as a function and by its size.\<close>

lemma indexed_length: "indexed s \<Longrightarrow> length (lp_headers_map s) = length (lp_headers s)"
  by (simp add: indexed_def)

lemma indexed_dom: "indexed s \<Longrightarrow> fst ` set (lp_headers_map s) = sh_hash ` set (lp_headers s)"
  by (simp add: indexed_def flip: set_map)

lemma indexed_push:
  assumes "indexed s" and "h \<notin> sh_hash ` set (lp_headers s)"
  shows "indexed (l1_push s h header)"
  using assms indexed_dom [OF assms(1)]
  by (simp add: indexed_def l1_push_def update_fresh seal_def)

lemma linked_snoc:
  assumes "linked hs" and "hs \<noteq> []" and "sh_hash h = rh_parent_hash (sh_header (last hs))"
  shows "linked (hs @ [h])"
  unfolding linked_def
proof (intro allI impI)
  fix i assume i: "Suc i < length (hs @ [h])"
  show "sh_hash ((hs @ [h]) ! Suc i) = rh_parent_hash (sh_header ((hs @ [h]) ! i))"
  proof (cases "Suc i < length hs")
    case True
    then show ?thesis using assms(1) by (simp add: linked_def nth_append)
  next
    case False
    with i have "i = length hs - 1" "Suc i = length hs" by simp_all
    then show ?thesis using assms(2,3) by (simp add: nth_append last_conv_nth)
  qed
qed

lemma indexed_seen_stuck:
  assumes "indexed s" and "lp_headers s \<noteq> []"
    and "rh_parent_hash (sh_header (last (lp_headers s))) \<in> sh_hash ` set (lp_headers s)"
  shows "stuck s"
proof -
  have "length (lp_headers_map s) = length (lp_headers s)" using indexed_length assms(1) .
  moreover have "\<forall>(k, i) \<in> set (lp_headers_map s). i < length (lp_headers s)"
    using assms(1) by (auto simp: indexed_def dest: set_zip_rightD)
  moreover have "rh_parent_hash (sh_header (last (lp_headers s))) \<in> dom (map_of (lp_headers_map s))"
    using assms(3) indexed_dom [OF assms(1)] by (simp add: dom_map_of_conv_image_fst)
  ultimately show ?thesis using assms(2) by (simp add: stuck_def last_conv_nth)
qed

text \<open>
  Induction along a walk that returns: it is done, or it fails, or it takes a step to a state from
  which it returns the same.
\<close>

lemma l1_walk_induct:
  assumes walk: "l1_walk get dec idx s = Some y"
    and step: "\<And>s y. l1_walk get dec idx s = Some y \<Longrightarrow>
      (\<And>last_header s1 header. length (lp_headers_map s) \<le> idx \<Longrightarrow>
         index_vec (lp_headers s) (length (lp_headers_map s) - 1) = Inr last_header \<Longrightarrow>
         l1_header_by_hash get dec s (rh_parent_hash (sh_header last_header)) = (s1, Inr header) \<Longrightarrow>
         l1_walk get dec idx (l1_push s1 (rh_parent_hash (sh_header last_header)) header) = Some y \<and>
         P (l1_push s1 (rh_parent_hash (sh_header last_header)) header) y) \<Longrightarrow>
      P s y"
  shows "P s y"
proof -
  have "get' = get \<longrightarrow> dec' = dec \<longrightarrow> idx' = idx \<longrightarrow> l1_walk get dec idx s = Some y \<and> P s y"
    if "l1_walk get' dec' idx' s = Some y" for get' dec' idx' s y
  proof (rule l1_walk.raw_induct [where P = "\<lambda>get' dec' idx' s y. get' = get \<longrightarrow> dec' = dec \<longrightarrow>
        idx' = idx \<longrightarrow> l1_walk get dec idx s = Some y \<and> P s y", OF _ that], goal_cases)
    case (1 walk get' dec' idx' s y)
    show ?case
    proof (intro impI)
      assume eqs: "get' = get" "dec' = dec" "idx' = idx"
      have IH: "l1_walk get dec idx t = Some y \<and> P t y" if "walk get dec idx t = Some y" for t
        using "1"(1) [OF that] by simp
      have "l1_walk get dec idx s = Some y"
        using "1"(2) IH unfolding eqs
        by (subst l1_walk.simps) (auto simp: Let_def split: if_splits sum.splits prod.splits)
      moreover from this have "P s y"
      proof (rule step)
        fix last_header s1 header
        assume "length (lp_headers_map s) \<le> idx"
          "index_vec (lp_headers s) (length (lp_headers_map s) - 1) = Inr last_header"
          "l1_header_by_hash get dec s (rh_parent_hash (sh_header last_header)) = (s1, Inr header)"
        with "1"(2) eqs show "l1_walk get dec idx (l1_push s1 (rh_parent_hash (sh_header last_header)) header)
            = Some y \<and> P (l1_push s1 (rh_parent_hash (sh_header last_header)) header) y"
          by (intro IH) (simp add: Let_def)
      qed
      ultimately show "l1_walk get dec idx s = Some y \<and> P s y" ..
    qed
  qed
  with walk show ?thesis by blast
qed

lemma stuck_walk:
  assumes "l1_walk get dec idx s = Some y"
  shows "stuck s \<longrightarrow> idx < length (lp_headers_map s)"
proof (rule l1_walk_induct [OF assms], intro impI, rule ccontr)
  fix s y
  assume walk: "l1_walk get dec idx s = Some y"
    and IH: "\<And>last_header s1 header. length (lp_headers_map s) \<le> idx \<Longrightarrow>
       index_vec (lp_headers s) (length (lp_headers_map s) - 1) = Inr last_header \<Longrightarrow>
       l1_header_by_hash get dec s (rh_parent_hash (sh_header last_header)) = (s1, Inr header) \<Longrightarrow>
       l1_walk get dec idx (l1_push s1 (rh_parent_hash (sh_header last_header)) header) = Some y \<and>
       (stuck (l1_push s1 (rh_parent_hash (sh_header last_header)) header) \<longrightarrow>
         idx < length (lp_headers_map (l1_push s1 (rh_parent_hash (sh_header last_header)) header)))"
    and st: "stuck s" and "\<not> idx < length (lp_headers_map s)"
  then have len: "length (lp_headers_map s) \<le> idx" by simp
  let ?last = "lp_headers s ! (length (lp_headers_map s) - 1)"
  let ?h = "rh_parent_hash (sh_header ?last)"
  have "index_vec (lp_headers s) (length (lp_headers_map s) - 1) = Inr ?last"
    using stuck_length [OF st] by (simp add: index_vec_def)
  moreover obtain header where "l1_header_by_hash get dec s ?h = (s, Inr header)"
    using stuck_lookup [OF st refl] by blast
  ultimately show False using IH [OF len] stuck_push [OF st refl, of header] len by fastforce
qed

context preimage_oracle
begin

lemma l1_new_inv:
  assumes "oinv oracle" and "l1_new get dec l1_head oracle = Inr s"
  shows "l1_inv oinv authentic dec l1_head s"
proof (cases "l1_head = 0")
  case True
  with assms show ?thesis by (auto simp: l1_new_def l1_inv_def linked_def indexed_def)
next
  case False
  then obtain o' v header where get: "get oracle (preimage_key_new l1_head Keccak256) = (o', Inr v)"
      "dec v = Inr header" "s = \<lparr>lp_oracle = o', lp_headers = [seal header l1_head],
        lp_headers_map = [(l1_head, 0)]\<rparr>"
    using assms(2) by (auto simp: l1_new_def res_simps split: prod.splits)
  then show ?thesis
    using get_inv [OF assms(1) get(1)] get_authentic [OF assms(1) get(1)] False
    by (auto simp: l1_inv_def linked_def indexed_def decoded_from_def seal_def)
qed

lemma header_by_hash_fresh:
  assumes inv: "l1_inv oinv authentic dec l1_head s" and "h \<notin> sh_hash ` set (lp_headers s)"
    and "l1_header_by_hash get dec s h = (s', Inr header)"
  shows "oinv (lp_oracle s') \<and> lp_headers s' = lp_headers s \<and> lp_headers_map s' = lp_headers_map s \<and>
    decoded_from authentic dec (seal header h)"
proof -
  have idx: "indexed s" and o: "oinv (lp_oracle s)" using inv by (simp_all add: l1_inv_def)
  have "map_of (lp_headers_map s) h = None"
    using assms(2) indexed_dom [OF idx] by (simp add: map_of_eq_None_iff)
  then obtain o' v where get: "get (lp_oracle s) (preimage_key_new h Keccak256) = (o', Inr v)"
      "s' = s\<lparr>lp_oracle := o'\<rparr>" "dec v = Inr header"
    using assms(3) by (auto simp: l1_header_by_hash_def res_simps split: prod.splits)
  then show ?thesis
    using get_inv [OF o get(1)] get_authentic [OF o get(1)] by (auto simp: decoded_from_def seal_def)
qed

lemma l1_push_inv:
  assumes inv: "l1_inv oinv authentic dec l1_head s" and head: "l1_head \<noteq> 0"
    and h: "h = rh_parent_hash (sh_header (last (lp_headers s)))" "h \<notin> sh_hash ` set (lp_headers s)"
    and get: "l1_header_by_hash get dec s h = (s', Inr header)"
  shows "l1_inv oinv authentic dec l1_head (l1_push s' h header)"
proof -
  note f = header_by_hash_fresh [OF inv h(2) get]
  have ne: "lp_headers s \<noteq> []" using inv head by (simp add: l1_inv_def)
  have idx: "indexed s'" using inv f by (simp add: l1_inv_def indexed_def)
  have "linked (lp_headers s @ [seal header h])"
    using inv ne h(1) by (intro linked_snoc) (simp_all add: l1_inv_def seal_def)
  then show ?thesis
    using inv f head ne indexed_push [OF idx, of h header] h(2)
    by (auto simp: l1_inv_def l1_push_def nth_append)
qed


lemma l1_walk_step_inv:
  assumes inv: "l1_inv oinv authentic dec l1_head s" and head: "l1_head \<noteq> 0"
    and len: "length (lp_headers_map s) \<le> idx"
    and look: "l1_header_by_hash get dec s (rh_parent_hash (sh_header (last (lp_headers s)))) = (s1, Inr header)"
    and walk: "l1_walk get dec idx (l1_push s1 (rh_parent_hash (sh_header (last (lp_headers s)))) header) = Some y"
  defines "t \<equiv> l1_push s1 (rh_parent_hash (sh_header (last (lp_headers s)))) header"
  shows "l1_inv oinv authentic dec l1_head t \<and> lp_headers t ! 0 = lp_headers s ! 0"
proof -
  let ?h = "rh_parent_hash (sh_header (last (lp_headers s)))"
  have idx: "indexed s" and ne: "lp_headers s \<noteq> []" using inv head by (simp_all add: l1_inv_def)
  note n = indexed_length [OF idx]
  have fresh: "?h \<notin> sh_hash ` set (lp_headers s)"
  proof
    assume "?h \<in> sh_hash ` set (lp_headers s)"
    note st = indexed_seen_stuck [OF idx ne this]
    have last: "?h = rh_parent_hash (sh_header (lp_headers s ! (length (lp_headers_map s) - 1)))"
      using ne by (simp add: n last_conv_nth)
    then have "s1 = s" using stuck_lookup [OF st last [symmetric], of get dec] look by auto
    with stuck_push [OF st last [symmetric], of header] stuck_walk [OF walk] len show False by simp
  qed
  show ?thesis
    unfolding t_def using l1_push_inv [OF inv head refl fresh look]
      header_by_hash_fresh [OF inv fresh look] ne by (simp add: l1_push_def nth_append)
qed

lemma l1_walk_inv:
  assumes "l1_walk get dec idx s = Some y"
  shows "l1_inv oinv authentic dec l1_head s \<longrightarrow> l1_head \<noteq> 0 \<longrightarrow> snd y = Inr () \<longrightarrow>
    l1_inv oinv authentic dec l1_head (fst y) \<and> idx < length (lp_headers (fst y)) \<and>
    lp_headers (fst y) ! 0 = lp_headers s ! 0"
proof (rule l1_walk_induct [OF assms], intro impI, goal_cases)
  case (1 s y)
  have idx: "indexed s" and ne: "lp_headers s \<noteq> []" using 1(3,4) by (simp_all add: l1_inv_def)
  note n = indexed_length [OF idx] and unfold = l1_walk.simps [of get dec _ s]
  show ?case
  proof (cases "length (lp_headers_map s) \<le> idx")
    case False
    then show ?thesis using "1"(1,3) n by (auto simp: unfold)
  next
    case True
    let ?h = "rh_parent_hash (sh_header (last (lp_headers s)))"
    have last: "index_vec (lp_headers s) (length (lp_headers_map s) - 1) = Inr (last (lp_headers s))"
      using ne by (simp add: index_vec_def n last_conv_nth)
    obtain s1 header where look: "l1_header_by_hash get dec s ?h = (s1, Inr header)"
      using "1"(1,5) True last by (auto simp: unfold Let_def split: prod.splits sum.splits)
    note rec = "1"(2) [OF True last look]
    from l1_walk_step_inv [OF 1(3,4) True look] rec "1"(4,5) show ?thesis by auto
  qed
qed

lemma block_info_by_number_inv:
  assumes inv: "l1_inv oinv authentic dec l1_head s" and head: "l1_head \<noteq> 0"
    and res: "block_info_by_number T get dec s n = Some (s', Inr info)"
  shows "l1_inv oinv authentic dec l1_head s' \<and> lp_headers s' ! 0 = lp_headers s ! 0 \<and>
    n \<le> rh_number (sh_header (lp_headers s ! 0)) \<and>
    (let k = as_usize T (rh_number (sh_header (lp_headers s ! 0)) - n); h = lp_headers s' ! k
     in k < length (lp_headers s') \<and> info = header_block_info (sh_hash h) (sh_header h))"
proof -
  let ?k = "as_usize T (rh_number (sh_header (lp_headers s ! 0)) - n)"
  have "lp_headers s \<noteq> []" using inv head by (simp add: l1_inv_def)
  then have first: "index_vec (lp_headers s) 0 = Inr (lp_headers s ! 0)" by (simp add: index_vec_def)
  with res have n: "n \<le> rh_number (sh_header (lp_headers s ! 0))"
      and walk: "l1_walk get dec ?k s = Some (s', Inr ())"
      and info: "index_vec (lp_headers s') ?k = Inr h \<Longrightarrow> info = header_block_info (sh_hash h) (sh_header h)" for h
    by (auto simp: block_info_by_number_def Let_def res_simps not_less
        split: if_splits option.splits prod.splits)
  from l1_walk_inv [OF walk, of l1_head] inv head
  have "l1_inv oinv authentic dec l1_head s'" "?k < length (lp_headers s')"
      "lp_headers s' ! 0 = lp_headers s ! 0"
    by simp_all
  with n info [of "lp_headers s' ! ?k"] show ?thesis by (simp add: index_vec_def Let_def)
qed

end

section \<open>An honest chain\<close>

text \<open>The headers walked so far are the first ones of the chain.\<close>

definition walked :: "(nat \<Rightarrow> sealed_header) \<Rightarrow> nat \<Rightarrow> 'o l1_provider \<Rightarrow> bool" where
  "walked chain m s \<longleftrightarrow> lp_headers s = map chain [0..<m] \<and> indexed s"

text \<open>The oracle serves the headers of a chain that ends \<open>N\<close> blocks behind the head.\<close>

definition serves_chain ::
  "('o \<Rightarrow> preimage_key \<Rightarrow> 'o \<times> bytes result) \<Rightarrow> (bytes \<Rightarrow> raw_header result) \<Rightarrow>
   (nat \<Rightarrow> sealed_header) \<Rightarrow> nat \<Rightarrow> bool" where
  "serves_chain get dec chain N \<longleftrightarrow>
     (\<forall>i \<le> N. \<forall>oracle. \<exists>oracle' v.
        get oracle (preimage_key_new (sh_hash (chain i)) Keccak256) = (oracle', Inr v) \<and>
        dec v = Inr (sh_header (chain i))) \<and>
     (\<forall>i < N. rh_parent_hash (sh_header (chain i)) = sh_hash (chain (Suc i))) \<and>
     (\<forall>i \<le> N. unat (rh_number (sh_header (chain i))) = N - i) \<and>
     inj_on (sh_hash \<circ> chain) {..N}"

lemma serves_chain_get:
  assumes "serves_chain get dec chain N" and "i \<le> N"
  obtains oracle' v where "get oracle (preimage_key_new (sh_hash (chain i)) Keccak256) = (oracle', Inr v)"
    "dec v = Inr (sh_header (chain i))"
  using assms unfolding serves_chain_def by blast

lemma seal_eta: "seal (sh_header h) (sh_hash h) = h"
  by (simp add: seal_def)

lemma walked_step:
  assumes serves: "serves_chain get dec chain N" and w: "walked chain m s" and m: "0 < m" "m \<le> N"
  shows "\<exists>s1. l1_header_by_hash get dec s (sh_hash (chain m)) = (s1, Inr (sh_header (chain m))) \<and>
    walked chain (Suc m) (l1_push s1 (sh_hash (chain m)) (sh_header (chain m)))"
proof -
  have idx: "indexed s" and hs: "lp_headers s = map chain [0..<m]" using w by (simp_all add: walked_def)
  have "sh_hash (chain m) \<noteq> sh_hash (chain i)" if "i < m" for i
    using serves that m inj_onD [of "sh_hash \<circ> chain" "{..N}" m i] by (auto simp: serves_chain_def)
  then have fresh: "sh_hash (chain m) \<notin> sh_hash ` set (lp_headers s)" 
    unfolding hs set_map by fastforce
  then have "map_of (lp_headers_map s) (sh_hash (chain m)) = None"
    using indexed_dom [OF idx] by (simp add: map_of_eq_None_iff)
  moreover obtain o' v where
      "get (lp_oracle s) (preimage_key_new (sh_hash (chain m)) Keccak256) = (o', Inr v)"
      "dec v = Inr (sh_header (chain m))"
    using serves_chain_get [OF serves m(2)] by blast
  ultimately have get: "l1_header_by_hash get dec s (sh_hash (chain m)) =
      (s\<lparr>lp_oracle := o'\<rparr>, Inr (sh_header (chain m)))"
    by (simp add: l1_header_by_hash_def)
  have "indexed (s\<lparr>lp_oracle := o'\<rparr>)" using idx by (simp add: indexed_def)
  then have "indexed (l1_push (s\<lparr>lp_oracle := o'\<rparr>) (sh_hash (chain m)) (sh_header (chain m)))"
    using fresh by (intro indexed_push) simp_all
  then show ?thesis
    using get by (simp add: walked_def l1_push_def hs seal_eta)
qed

lemma walked_walk:
  assumes serves: "serves_chain get dec chain N"
  shows "walked chain m s \<Longrightarrow> 0 < m \<Longrightarrow> idx \<le> N \<Longrightarrow>
    \<exists>s'. l1_walk get dec idx s = Some (s', Inr ()) \<and> walked chain (max m (Suc idx)) s'"
proof (induction "Suc idx - m" arbitrary: m s)
  case 0
  then have "idx < m" "max m (Suc idx) = m" by simp_all
  moreover have "length (lp_headers_map s) = m"
    using 0 indexed_length [of s] by (simp add: walked_def)
  ultimately show ?case using 0 by (subst l1_walk.simps) simp
next
  case (Suc d)
  then have m: "m \<le> idx" "0 < m" "m \<le> N" by linarith+
  have len: "length (lp_headers_map s) = m" and hs: "lp_headers s = map chain [0..<m]"
    using Suc.prems(1) indexed_length [of s] by (simp_all add: walked_def)
  have last: "index_vec (lp_headers s) (m - 1) = Inr (chain (m - 1))"
    using m by (simp add: index_vec_def hs)
  have parent: "rh_parent_hash (sh_header (chain (m - 1))) = sh_hash (chain m)"
    using serves m by (cases m) (simp_all add: serves_chain_def)
  obtain s1 where s1: "l1_header_by_hash get dec s (sh_hash (chain m)) = (s1, Inr (sh_header (chain m)))"
      "walked chain (Suc m) (l1_push s1 (sh_hash (chain m)) (sh_header (chain m)))"
    using walked_step [OF serves Suc.prems(1) m(2,3)] by blast
  have "d = Suc idx - Suc m" using Suc.hyps(2) by simp
  from Suc.hyps(1) [OF this s1(2) _ Suc.prems(3)] obtain s' where
      "l1_walk get dec idx (l1_push s1 (sh_hash (chain m)) (sh_header (chain m))) = Some (s', Inr ())"
      "walked chain (max (Suc m) (Suc idx)) s'"
    by auto
  then show ?case
    using m len last parent s1(1) by (subst l1_walk.simps) (simp add: Let_def max_def)
qed

section \<open>Properties\<close>

text \<open>A run of queries for block information.\<close>

fun block_infos_by_number ::
  "build \<Rightarrow> ('o \<Rightarrow> preimage_key \<Rightarrow> 'o \<times> bytes result) \<Rightarrow> (bytes \<Rightarrow> raw_header result) \<Rightarrow>
   'o l1_provider \<Rightarrow> u64 list \<Rightarrow> ('o l1_provider \<times> block_info list result) option" where
  "block_infos_by_number T get dec s [] = Some (s, Inr [])"
| "block_infos_by_number T get dec s (n # ns) =
     (case block_info_by_number T get dec s n of
        None \<Rightarrow> None
      | Some (s', Inl e) \<Rightarrow> Some (s', Inl e)
      | Some (s', Inr info) \<Rightarrow>
          (case block_infos_by_number T get dec s' ns of
             None \<Rightarrow> None
           | Some (s'', r) \<Rightarrow> Some (s'', and_then r (\<lambda>infos. Inr (info # infos)))))"

text \<open>The block \<open>k\<close> generations behind the block with hash \<open>l1_head\<close>, through authentic headers.\<close>

definition ancestor_info ::
  "(preimage_key \<Rightarrow> bytes \<Rightarrow> bool) \<Rightarrow> (bytes \<Rightarrow> raw_header result) \<Rightarrow> build \<Rightarrow> B256 \<Rightarrow> u64 \<Rightarrow>
   block_info \<Rightarrow> bool" where
  "ancestor_info authentic dec T l1_head n info \<longleftrightarrow>
     (\<exists>hs. hs \<noteq> [] \<and> linked hs \<and> sh_hash (hs ! 0) = l1_head \<and>
        (\<forall>h \<in> set hs. decoded_from authentic dec h) \<and>
        n \<le> rh_number (sh_header (hs ! 0)) \<and>
        length hs = Suc (as_usize T (rh_number (sh_header (hs ! 0)) - n)) \<and>
        info = header_block_info (sh_hash (last hs)) (sh_header (last hs)))"

lemma linked_take: "linked hs \<Longrightarrow> linked (take k hs)"
  by (simp add: linked_def)

context preimage_oracle
begin

lemma block_infos_on_chain:
  assumes "l1_head \<noteq> 0"
  shows "l1_inv oinv authentic dec l1_head s \<Longrightarrow>
    block_infos_by_number T get dec s ns = Some (s', Inr infos) \<Longrightarrow>
    list_all2 (ancestor_info authentic dec T l1_head) ns infos"
proof (induction ns arbitrary: s infos)
  case Nil
  then show ?case by simp
next
  case (Cons n ns)
  then obtain s1 info infos' where one: "block_info_by_number T get dec s n = Some (s1, Inr info)"
      and rest: "block_infos_by_number T get dec s1 ns = Some (s', Inr infos')" "infos = info # infos'"
    by (auto simp: res_simps split: option.splits prod.splits sum.splits)
  let ?k = "as_usize T (rh_number (sh_header (lp_headers s ! 0)) - n)"
  note inv = block_info_by_number_inv [OF Cons.prems(1) assms one, unfolded Let_def]
  let ?hs = "take (Suc ?k) (lp_headers s1)"
  have len: "length ?hs = Suc ?k" "?hs ! 0 = lp_headers s ! 0" using inv by auto
  have last: "last ?hs = lp_headers s1 ! ?k"
    using inv take_Suc_conv_app_nth [of ?k "lp_headers s1"] by auto
  have hs: "linked (lp_headers s1)" "\<forall>h \<in> set (lp_headers s1). decoded_from authentic dec h"
      "sh_hash (lp_headers s1 ! 0) = l1_head"
    using inv assms by (auto simp: l1_inv_def)
  then have "\<forall>h \<in> set ?hs. decoded_from authentic dec h" by (auto dest: in_set_takeD)
  then have "ancestor_info authentic dec T l1_head n info"
    unfolding ancestor_info_def using len last linked_take [OF hs(1)] hs(3) inv
    by (intro exI [of _ ?hs]) auto
  with Cons.IH [OF conjunct1 [OF inv] rest(1)] rest(2) show ?case by simp
qed

end

text \<open>
  C9. The L1 blocks the guest derives from are ancestors of the L1 head it commits to: over a
  validated witness oracle, every answer to a sequence of queries by number is the information of
  the block as many parent links behind the head as its number says, through headers that decode
  preimages of their hashes. A cycle of parent hashes cannot be passed off as a chain.
\<close>

theorem l1_blocks_are_ancestors:
  assumes "vec_inv kec sha oracle" and "l1_head \<noteq> 0"
    and "l1_new (vec_get kec sha) dec l1_head oracle = Inr s"
    and "block_infos_by_number T (vec_get kec sha) dec s ns = Some (s', Inr infos)"
  shows "list_all2 (ancestor_info (authentic_preimage kec sha) dec T l1_head) ns infos"
  using vec.block_infos_on_chain [OF assms(2) vec.l1_new_inv [OF assms(1,3)] assms(4)] .

text \<open>A chain of three blocks: block \<open>i\<close> behind the head has hash \<open>i + 1\<close> and number \<open>2 - i\<close>.\<close>

definition toy_decode :: "bytes \<Rightarrow> raw_header result" where
  "toy_decode v = Inr \<lparr>rh_parent_hash = ucast (hd v) + 1, rh_number = 3 - ucast (hd v),
     rh_timestamp = 0, rh_receipts_root = 0, rh_transactions_root = 0, rh_gas_used = 0\<rparr>"

definition toy_oracle :: vec_oracle where
  "toy_oracle = \<lparr>vo_preimages = [[(preimage_key_new 2 Keccak256, [2], None),
       (preimage_key_new 1 Keccak256, [1], None)]], vo_queue = [], vo_stream = []\<rparr>"

lemma toy_oracle_inv: "vec_inv sample_hash sample_hash toy_oracle"
  by (simp add: vec_inv_def toy_oracle_def all_authentic_def authentic_preimage_def preimage_key_new_def
      sample_hash_def be_nat_def)

theorem l1_blocks_are_ancestors_witness:
  "\<exists>s s' infos. l1_new (vec_get sample_hash sample_hash) toy_decode 1 toy_oracle = Inr s \<and>
     block_infos_by_number guest (vec_get sample_hash sample_hash) toy_decode s [2, 1] = Some (s', Inr infos) \<and>
     map bk_hash infos = [1, 2] \<and>
     list_all2 (ancestor_info (authentic_preimage sample_hash sample_hash) toy_decode guest 1) [2, 1] infos"
proof -
  let ?get = "vec_get sample_hash sample_hash"
  let ?h1 = "\<lparr>rh_parent_hash = 2, rh_number = 2, rh_timestamp = 0, rh_receipts_root = 0,
    rh_transactions_root = 0, rh_gas_used = 0\<rparr>"
  let ?h2 = "\<lparr>rh_parent_hash = 3, rh_number = 1, rh_timestamp = 0, rh_receipts_root = 0,
    rh_transactions_root = 0, rh_gas_used = 0\<rparr>"
  let ?o1 = "\<lparr>vo_preimages = [[(preimage_key_new 2 Keccak256, [2], None)]], vo_queue = [], vo_stream = []\<rparr>"
  let ?s = "\<lparr>lp_oracle = ?o1, lp_headers = [seal ?h1 1], lp_headers_map = [(1, 0)]\<rparr>"
  let ?s2 = "\<lparr>lp_oracle = \<lparr>vo_preimages = [[]], vo_queue = [], vo_stream = []\<rparr>,
    lp_headers = [seal ?h1 1, seal ?h2 2], lp_headers_map = [(1, 0), (2, 1)]\<rparr>"
  have get: "?get toy_oracle (preimage_key_new 1 Keccak256) = (?o1, Inr [1])"
      "?get ?o1 (preimage_key_new 2 Keccak256) =
        (\<lparr>vo_preimages = [[]], vo_queue = [], vo_stream = []\<rparr>, Inr [2])"
    by (simp_all add: vec_get_def vec_get_loop.simps toy_oracle_def)
  have new: "l1_new ?get toy_decode 1 toy_oracle = Inr ?s"
    by (simp add: l1_new_def get toy_decode_def)
  have q2: "block_info_by_number guest ?get toy_decode ?s 2 = Some (?s, Inr (header_block_info 1 ?h1))"
    by (simp add: block_info_by_number_def index_vec_def seal_def as_usize_def l1_walk.simps)
  have "l1_walk ?get toy_decode 1 ?s = Some (?s2, Inr ())"
    by (subst l1_walk.simps, subst l1_walk.simps)
      (simp add: index_vec_def seal_def l1_header_by_hash_def get toy_decode_def l1_push_def)
  then have q1: "block_info_by_number guest ?get toy_decode ?s 1 = Some (?s2, Inr (header_block_info 2 ?h2))"
    by (simp add: block_info_by_number_def index_vec_def seal_def as_usize_def)
  have run: "block_infos_by_number guest ?get toy_decode ?s [2, 1] =
      Some (?s2, Inr [header_block_info 1 ?h1, header_block_info 2 ?h2])"
    by (simp add: q2 q1)
  from l1_blocks_are_ancestors [OF toy_oracle_inv _ new run] new run show ?thesis
    by (auto simp: header_block_info_def)
qed

text \<open>
  C10. On an honest chain the walk ends and is right: when the oracle serves the headers of a chain
  whose numbers count down and whose hashes differ, the provider built at the head answers every
  number up to the head's with the information of the block of that number.
\<close>

theorem block_info_by_number_correct:
  assumes serves: "serves_chain get dec chain N" and N: "N < 2 ^ usize_bits T"
    and head: "sh_hash (chain 0) \<noteq> 0" and n: "n \<le> rh_number (sh_header (chain 0))"
  shows "\<exists>s s' info. l1_new get dec (sh_hash (chain 0)) oracle = Inr s \<and>
    block_info_by_number T get dec s n = Some (s', Inr info) \<and>
    bk_number info = n \<and> bk_hash info = sh_hash (chain (N - unat n))"
proof -
  have numbers: "unat (rh_number (sh_header (chain i))) = N - i" if "i \<le> N" for i
    using serves that by (simp add: serves_chain_def)
  obtain o' v where get: "get oracle (preimage_key_new (sh_hash (chain 0)) Keccak256) = (o', Inr v)"
      "dec v = Inr (sh_header (chain 0))"
    using serves_chain_get [OF serves] by blast
  define s where "s = \<lparr>lp_oracle = o', lp_headers = [chain 0], lp_headers_map = [(sh_hash (chain 0), 0)]\<rparr>"
  have new: "l1_new get dec (sh_hash (chain 0)) oracle = Inr s"
    using get head by (simp add: l1_new_def s_def seal_eta)
  let ?k = "N - unat n"
  have n': "unat n \<le> N" using n numbers [of 0] by (simp add: word_le_nat_alt)
  have k: "as_usize T (rh_number (sh_header (chain 0)) - n) = ?k"
    unfolding as_usize_def unat_sub [OF n] using numbers [of 0] N by (simp add: less_imp_diff_less)
  have "walked chain 1 s" by (simp add: walked_def s_def indexed_def)
  from walked_walk [OF serves this, of ?k] obtain s' where
      walk: "l1_walk get dec ?k s = Some (s', Inr ())" "walked chain (max 1 (Suc ?k)) s'"
    by auto
  then have at: "index_vec (lp_headers s') ?k = Inr (chain ?k)"
    by (simp add: walked_def index_vec_def nth_append)
  have "bk_number (header_block_info (sh_hash (chain ?k)) (sh_header (chain ?k))) = n"
    unfolding word_unat_eq_iff header_block_info_def using numbers [of ?k] n' by simp
  moreover have "block_info_by_number T get dec s n =
      Some (s', Inr (header_block_info (sh_hash (chain ?k)) (sh_header (chain ?k))))"
    using n walk(1) at by (simp add: block_info_by_number_def s_def index_vec_def k Let_def not_less)
  ultimately show ?thesis using new by (auto simp: header_block_info_def)
qed

definition toy_chain :: "nat \<Rightarrow> sealed_header" where
  "toy_chain i = seal \<lparr>rh_parent_hash = of_nat i + 2, rh_number = 2 - of_nat i,
     rh_timestamp = 0, rh_receipts_root = 0, rh_transactions_root = 0, rh_gas_used = 0\<rparr> (of_nat i + 1)"

definition toy_get :: "unit \<Rightarrow> preimage_key \<Rightarrow> unit \<times> bytes result" where
  "toy_get s key = ((), Inr [ucast (pk_data key)])"

lemma toy_serves: "serves_chain toy_get toy_decode toy_chain 2"
proof -
  have three: "i \<le> 2 \<longleftrightarrow> i = 0 \<or> i = 1 \<or> i = 2" "i < 2 \<longleftrightarrow> i = 0 \<or> i = 1" for i :: nat by auto
  have set: "{..2 :: nat} = {0, 1, 2}" by auto
  show ?thesis
    unfolding serves_chain_def three set
    by (auto simp: toy_get_def toy_decode_def toy_chain_def seal_def preimage_key_new_def)
qed

theorem block_info_by_number_correct_witness:
  "\<exists>s s' info. l1_new toy_get toy_decode (sh_hash (toy_chain 0)) () = Inr s \<and>
    block_info_by_number guest toy_get toy_decode s 1 = Some (s', Inr info) \<and>
    bk_number info = 1 \<and> bk_hash info = 2"
  using block_info_by_number_correct [OF toy_serves, of guest 1 "()"]
  by (simp add: toy_chain_def seal_def)

end
