(* ===== verification/Executor.thy ===== *)
theory Executor
  imports Config Codec L1_Chain
begin

text \<open>
  Block execution (\<open>src/crates/kona/src/executor.rs\<close>): the executions that are cached and proven
  separately, the hashes that commit to them, and the executor that answers from a cache.

  The block executor of \<open>kona\<close>, its errors and the execution result in a block building outcome are
  parameters: an executor is a record of operations on an abstract state. \<open>alloy_rlp::encode\<close> is
  the parameter \<open>rlp\<close>.
\<close>

section \<open>Data\<close>

record withdrawal =
  wd_index :: u64
  wd_validator_index :: u64
  wd_address :: Address
  wd_amount :: u64

record payload_attributes =
  pa_timestamp :: u64
  pa_prev_randao :: B256
  pa_suggested_fee_recipient :: Address
  pa_withdrawals :: "withdrawal list option"
  pa_parent_beacon_block_root :: "B256 option"
  pa_transactions :: "bytes list option"
  pa_no_tx_pool :: "bool option"
  pa_gas_limit :: "u64 option"
  pa_eip_1559_params :: "B64 option"

record 'x block_building_outcome =
  bo_header :: sealed_header
  bo_execution_result :: 'x

record 'x execution =
  ex_agreed_output :: B256
  ex_attributes :: payload_attributes
  ex_artifacts :: "'x block_building_outcome"
  ex_claimed_output :: B256

text \<open>The \<open>Executor\<close> trait, over the state of the implementation.\<close>

record ('s, 'x) executor_ops =
  op_wait_until_ready :: "'s \<Rightarrow> 's"
  op_update_safe_head :: "'s \<Rightarrow> sealed_header \<Rightarrow> 's"
  op_execute_payload :: "'s \<Rightarrow> payload_attributes \<Rightarrow> 's \<times> 'x block_building_outcome result"
  op_compute_output_root :: "'s \<Rightarrow> 's \<times> B256 result"

record ('s, 'x) cached_executor =
  ce_cache :: "'x execution list"
  ce_executor :: 's
  ce_collection_target :: "'x execution list option"

section \<open>The cached executor\<close>

definition cached_wait_until_ready ::
  "('s, 'x) executor_ops \<Rightarrow> ('s, 'x) cached_executor \<Rightarrow> ('s, 'x) cached_executor" where
  "cached_wait_until_ready E c = c\<lparr>ce_executor := op_wait_until_ready E (ce_executor c)\<rparr>"

definition cached_update_safe_head ::
  "('s, 'x) executor_ops \<Rightarrow> ('s, 'x) cached_executor \<Rightarrow> sealed_header \<Rightarrow> ('s, 'x) cached_executor" where
  "cached_update_safe_head E c header =
     c\<lparr>ce_executor := op_update_safe_head E (ce_executor c) header\<rparr>"

definition cached_compute_output_root ::
  "('s, 'x) executor_ops \<Rightarrow> ('s, 'x) cached_executor \<Rightarrow> ('s, 'x) cached_executor \<times> B256 result" where
  "cached_compute_output_root E c =
     (case op_compute_output_root E (ce_executor c) of (s', r) \<Rightarrow> (c\<lparr>ce_executor := s'\<rparr>, r))"

text \<open>\<open>cache.last()\<close> is the next execution; a hit pops it.\<close>

definition cache_hit :: "'x execution list \<Rightarrow> B256 \<Rightarrow> payload_attributes \<Rightarrow> bool" where
  "cache_hit cache agreed_output attributes \<longleftrightarrow>
     cache \<noteq> [] \<and> agreed_output = ex_agreed_output (last cache) \<and>
     attributes = ex_attributes (last cache)"

definition cached_execute_payload ::
  "('s, 'x) executor_ops \<Rightarrow> ('s, 'x) cached_executor \<Rightarrow> payload_attributes \<Rightarrow>
   ('s, 'x) cached_executor \<times> 'x block_building_outcome result" where
  "cached_execute_payload E c attributes =
     (case cached_compute_output_root E c of
        (c, Inl e) \<Rightarrow> (c, Inl e)
      | (c, Inr agreed_output) \<Rightarrow>
          if cache_hit (ce_cache c) agreed_output attributes
          then let artifacts = ex_artifacts (last (ce_cache c));
                   c = c\<lparr>ce_cache := butlast (ce_cache c)\<rparr>
               in (cached_update_safe_head E c (bo_header artifacts), Inr artifacts)
          else case op_execute_payload E (ce_executor c) attributes of (s', r) \<Rightarrow>
            (case ce_collection_target c of
               Some target \<Rightarrow>
                 (case r of
                    Inl e \<Rightarrow> (c\<lparr>ce_executor := s'\<rparr>, Inl e)
                  | Inr artifacts \<Rightarrow>
                      (c\<lparr>ce_executor := s',
                         ce_collection_target := Some (target @
                           [\<lparr>ex_agreed_output = agreed_output, ex_attributes = attributes,
                             ex_artifacts = artifacts, ex_claimed_output = 0\<rparr>])\<rparr>, Inr artifacts))
             | None \<Rightarrow> (c\<lparr>ce_executor := s'\<rparr>, r)))"

text \<open>The cached executor as an executor again.\<close>

definition cached_ops :: "('s, 'x) executor_ops \<Rightarrow> (('s, 'x) cached_executor, 'x) executor_ops" where
  "cached_ops E =
     \<lparr>op_wait_until_ready = cached_wait_until_ready E,
      op_update_safe_head = cached_update_safe_head E,
      op_execute_payload = cached_execute_payload E,
      op_compute_output_root = cached_compute_output_root E\<rparr>"

text \<open>
  The cursor that starts an execution-only run: the L2 chain provider, the channel timeout of the
  configuration and the cursor itself are \<open>kona\<close>'s.
\<close>

definition new_execution_cursor ::
  "('w \<Rightarrow> u64 \<Rightarrow> 'w \<times> 'i result) \<Rightarrow> ('i \<Rightarrow> u64) \<Rightarrow> (rollup_config \<Rightarrow> u64 \<Rightarrow> u64) \<Rightarrow>
   (u64 \<Rightarrow> block_info \<Rightarrow> 'c) \<Rightarrow> ('c \<Rightarrow> block_info \<Rightarrow> 'i \<times> sealed_header \<times> B256 \<Rightarrow> 'c) \<Rightarrow>
   rollup_config \<Rightarrow> sealed_header \<Rightarrow> 'w \<Rightarrow> 'w \<times> 'c result" where
  "new_execution_cursor l2_block_info_by_number info_timestamp channel_timeout cursor_new cursor_advance
     config safe_header w =
     (case l2_block_info_by_number w (rh_number (sh_header safe_header)) of (w', r) \<Rightarrow>
        (w', and_then r (\<lambda>safe_head_info.
           let timeout = channel_timeout config (info_timestamp safe_head_info);
               origin = \<lparr>bk_hash = 0, bk_number = 0, bk_parent_hash = 0, bk_timestamp = 0\<rparr>;
               cursor = cursor_new timeout origin;
               tip = (safe_head_info, safe_header, 0)
           in Inr (cursor_advance cursor origin tip))))"

section \<open>Commitments\<close>

definition withdrawal_bytes :: "withdrawal \<Rightarrow> bytes" where
  "withdrawal_bytes w =
     to_be_bytes (wd_index w) @ to_be_bytes (wd_validator_index w) @ to_be_bytes (wd_address w) @
     to_be_bytes (wd_amount w)"

definition withdrawals_hash :: "(bytes \<Rightarrow> B256) \<Rightarrow> withdrawal list \<Rightarrow> B256" where
  "withdrawals_hash sha withdrawals = sha (concat (map withdrawal_bytes withdrawals))"

definition transactions_hash :: "(bytes \<Rightarrow> B256) \<Rightarrow> (bytes list \<Rightarrow> bytes) \<Rightarrow> bytes list \<Rightarrow> B256" where
  "transactions_hash sha rlp transactions = sha (rlp transactions)"

text \<open>An optional digest whose default is the zero hash; the source marks it infallible.\<close>

definition digest_field :: "B256 option \<Rightarrow> bytes result" where
  "digest_field opt =
     and_then (expect (safe_default opt 0) ''infallible'') (\<lambda>d. Inr (to_be_bytes d))"

definition attributes_bytes ::
  "(bytes \<Rightarrow> B256) \<Rightarrow> (bytes list \<Rightarrow> bytes) \<Rightarrow> payload_attributes \<Rightarrow> bytes result" where
  "attributes_bytes sha rlp a =
     and_then (digest_field (map_option (withdrawals_hash sha) (pa_withdrawals a))) (\<lambda>withdrawals.
     and_then (err_context (safe_default (pa_parent_beacon_block_root a) 0)
       ''safe_default parent_beacon_block_root'') (\<lambda>parent_beacon_block_root.
     and_then (digest_field (map_option (transactions_hash sha rlp) (pa_transactions a))) (\<lambda>transactions.
     and_then (expect (safe_default (map_option (\<lambda>b. if b then 1 else 0) (pa_no_tx_pool a)) 0xff)
       ''infallible'') (\<lambda>no_tx_pool.
     and_then (opt_field (pa_gas_limit a) ''safe_default gas_limit'') (\<lambda>gas_limit.
     and_then (opt_field (pa_eip_1559_params a) ''safe_default eip_1559_params'') (\<lambda>eip_1559_params.
     Inr (to_be_bytes (pa_timestamp a) @ to_be_bytes (pa_prev_randao a) @
          to_be_bytes (pa_suggested_fee_recipient a) @ withdrawals @
          to_be_bytes parent_beacon_block_root @ transactions @ [no_tx_pool] @
          gas_limit @ eip_1559_params)))))))"

definition attributes_hash ::
  "(bytes \<Rightarrow> B256) \<Rightarrow> (bytes list \<Rightarrow> bytes) \<Rightarrow> payload_attributes \<Rightarrow> B256 result" where
  "attributes_hash sha rlp a = and_then (attributes_bytes sha rlp a) (\<lambda>b. Inr (sha b))"

definition execution_bytes ::
  "(bytes \<Rightarrow> B256) \<Rightarrow> (bytes list \<Rightarrow> bytes) \<Rightarrow> 'x execution \<Rightarrow> bytes result" where
  "execution_bytes sha rlp e =
     and_then (expect (attributes_hash sha rlp (ex_attributes e)) ''Unhashable attributes.'') (\<lambda>h.
     Inr (to_be_bytes (ex_agreed_output e) @ to_be_bytes h @
          to_be_bytes (sh_hash (bo_header (ex_artifacts e))) @ to_be_bytes (ex_claimed_output e)))"

definition exec_precondition_hash ::
  "(bytes \<Rightarrow> B256) \<Rightarrow> (bytes list \<Rightarrow> bytes) \<Rightarrow> 'x execution list \<Rightarrow> B256 result" where
  "exec_precondition_hash sha rlp executions =
     and_then (try_map (execution_bytes sha rlp) executions) (\<lambda>bs. Inr (sha (concat bs)))"

section \<open>Injectivity of the commitments\<close>

interpretation withdrawal_enc: fixed_width_encoding withdrawal_bytes 44
proof
  fix x y
  show "length (withdrawal_bytes x) = 44" by (simp add: withdrawal_bytes_def)
  assume "withdrawal_bytes x = withdrawal_bytes y"
  then show "x = y" by (cases x; cases y) (simp add: withdrawal_bytes_def)
qed simp

text \<open>The byte strings hashed for the attributes, and for the executions.\<close>

definition attributes_preimages ::
  "(bytes \<Rightarrow> B256) \<Rightarrow> (bytes list \<Rightarrow> bytes) \<Rightarrow> payload_attributes \<Rightarrow> bytes set" where
  "attributes_preimages sha rlp a =
     ok_set (attributes_bytes sha rlp a) \<union>
     (\<lambda>ws. concat (map withdrawal_bytes ws)) ` set_option (pa_withdrawals a) \<union>
     rlp ` set_option (pa_transactions a)"

definition execution_preimages ::
  "(bytes \<Rightarrow> B256) \<Rightarrow> (bytes list \<Rightarrow> bytes) \<Rightarrow> 'x execution list \<Rightarrow> bytes set" where
  "execution_preimages sha rlp es =
     concat ` ok_set (try_map (execution_bytes sha rlp) es) \<union>
     (\<Union>e \<in> set es. attributes_preimages sha rlp (ex_attributes e))"

lemma digest_field_eq_Inr [res_simps]:
  "digest_field opt = Inr bs \<longleftrightarrow> opt \<noteq> Some 0 \<and> bs = to_be_bytes (unwrap_or opt 0)"
  by (auto simp: digest_field_def res_simps)

lemma map_option_hash_inj:
  assumes "map_option f a = map_option f b" and "inj_on f (set_option a \<union> set_option b)"
  shows "a = b"
  using assms by (cases a; cases b) (auto dest: inj_onD)

lemma no_tx_pool_inj:
  "map_option (\<lambda>b. if b then 1 else 0 :: byte) a = map_option (\<lambda>b. if b then 1 else 0) b \<longleftrightarrow> a = b"
  by (cases a; cases b) auto

lemma attributes_bytes_eq_Inr:
  "attributes_bytes sha rlp a = Inr bs \<longleftrightarrow>
     map_option (withdrawals_hash sha) (pa_withdrawals a) \<noteq> Some 0 \<and>
     pa_parent_beacon_block_root a \<noteq> Some 0 \<and>
     map_option (transactions_hash sha rlp) (pa_transactions a) \<noteq> Some 0 \<and>
     pa_gas_limit a \<noteq> Some (- 1) \<and> pa_eip_1559_params a \<noteq> Some (- 1) \<and>
     bs = to_be_bytes (pa_timestamp a) @ to_be_bytes (pa_prev_randao a) @
       to_be_bytes (pa_suggested_fee_recipient a) @
       to_be_bytes (unwrap_or (map_option (withdrawals_hash sha) (pa_withdrawals a)) 0) @
       to_be_bytes (unwrap_or (pa_parent_beacon_block_root a) 0) @
       to_be_bytes (unwrap_or (map_option (transactions_hash sha rlp) (pa_transactions a)) 0) @
       [unwrap_or (map_option (\<lambda>b. if b then 1 else 0) (pa_no_tx_pool a)) 0xff] @
       to_be_bytes (unwrap_or (pa_gas_limit a) (- 1)) @ to_be_bytes (unwrap_or (pa_eip_1559_params a) (- 1))"
  by (auto simp: attributes_bytes_def res_simps)

lemma attributes_bytes_inj:
  assumes a: "attributes_bytes sha rlp a = Inr bs" and b: "attributes_bytes sha rlp b = Inr bs"
    and inj: "inj_on sha (attributes_preimages sha rlp a \<union> attributes_preimages sha rlp b)"
    and rlp: "inj rlp"
  shows "a = b"
proof -
  have w: "inj_on (withdrawals_hash sha) (set_option (pa_withdrawals a) \<union> set_option (pa_withdrawals b))"
    by (rule inj_onI, rule withdrawal_enc.concat_enc_inject, rule inj_onD [OF inj])
      (auto simp: withdrawals_hash_def attributes_preimages_def)
  have t: "inj_on (transactions_hash sha rlp) (set_option (pa_transactions a) \<union> set_option (pa_transactions b))"
    by (rule inj_onI, rule injD [OF rlp], rule inj_onD [OF inj])
      (auto simp: transactions_hash_def attributes_preimages_def)
  from a b have "map_option (withdrawals_hash sha) (pa_withdrawals a) =
      map_option (withdrawals_hash sha) (pa_withdrawals b)"
      "map_option (transactions_hash sha rlp) (pa_transactions a) =
      map_option (transactions_hash sha rlp) (pa_transactions b)"
      "pa_no_tx_pool a = pa_no_tx_pool b"
    and rest: "pa_timestamp a = pa_timestamp b" "pa_prev_randao a = pa_prev_randao b"
      "pa_suggested_fee_recipient a = pa_suggested_fee_recipient b"
      "pa_parent_beacon_block_root a = pa_parent_beacon_block_root b"
      "pa_gas_limit a = pa_gas_limit b" "pa_eip_1559_params a = pa_eip_1559_params b"
    unfolding attributes_bytes_eq_Inr by (auto simp: no_tx_pool_inj)
  with w t show ?thesis by (auto intro: payload_attributes.equality dest: map_option_hash_inj)
qed

lemma attributes_hash_inject:
  assumes "attributes_hash sha rlp a = Inr h" and "attributes_hash sha rlp b = Inr h"
    and inj: "inj_on sha (attributes_preimages sha rlp a \<union> attributes_preimages sha rlp b)"
    and "inj rlp"
  shows "a = b"
proof -
  from assms(1,2) obtain x y where x: "attributes_bytes sha rlp a = Inr x" "sha x = h"
      and y: "attributes_bytes sha rlp b = Inr y" "sha y = h"
    by (auto simp: attributes_hash_def res_simps)
  have "x = y" by (rule inj_onD [OF inj]) (use x y in \<open>simp_all add: attributes_preimages_def\<close>)
  with x y assms(3,4) show ?thesis by (auto intro: attributes_bytes_inj)
qed

text \<open>What the hash of an execution determines: everything but the contents of the outcome.\<close>

definition execution_claim :: "'x execution \<Rightarrow> B256 \<times> payload_attributes \<times> B256 \<times> B256" where
  "execution_claim e =
     (ex_agreed_output e, ex_attributes e, sh_hash (bo_header (ex_artifacts e)), ex_claimed_output e)"

lemma execution_bytes_eq_Inr:
  "execution_bytes sha rlp e = Inr bs \<longleftrightarrow>
     (\<exists>h. attributes_hash sha rlp (ex_attributes e) = Inr h \<and>
       bs = to_be_bytes (ex_agreed_output e) @ to_be_bytes h @
         to_be_bytes (sh_hash (bo_header (ex_artifacts e))) @ to_be_bytes (ex_claimed_output e))"
  by (auto simp: execution_bytes_def res_simps)

lemma execution_bytes_inj:
  fixes e :: "'x execution" and f :: "'y execution"
  assumes "execution_bytes sha rlp e = Inr bs" and "execution_bytes sha rlp f = Inr bs"
    and "inj_on sha (attributes_preimages sha rlp (ex_attributes e) \<union>
      attributes_preimages sha rlp (ex_attributes f))" and "inj rlp"
  shows "execution_claim e = execution_claim f"
  using assms attributes_hash_inject [OF _ _ assms(3,4)]
  by (auto simp: execution_bytes_eq_Inr execution_claim_def)

lemma length_execution_bytes: "execution_bytes sha rlp e = Inr bs \<Longrightarrow> length bs = 128"
  by (auto simp: execution_bytes_eq_Inr)

lemma concat_equal_lengths:
  assumes "concat xs = concat ys" and "\<forall>x \<in> set xs. length x = n" and "\<forall>y \<in> set ys. length y = n"
    and "0 < n"
  shows "xs = ys"
  using assms(1-3)
proof (induction xs arbitrary: ys)
  case Nil
  then show ?case using assms(4) by (cases ys) auto
next
  case (Cons x xs)
  then obtain y zs where ys: "ys = y # zs" using assms(4) by (cases ys) auto
  then have "x = y" "concat xs = concat zs"
    using Cons.prems append_eq_prefix [of x y "concat xs" "concat zs"] by simp_all
  then show ?case using Cons.IH [of zs] Cons.prems ys by simp
qed

lemma exec_precondition_hash_inject:
  fixes es :: "'x execution list" and fs :: "'y execution list"
  assumes e: "exec_precondition_hash sha rlp es = Inr h" and f: "exec_precondition_hash sha rlp fs = Inr h"
    and inj: "inj_on sha (execution_preimages sha rlp es \<union> execution_preimages sha rlp fs)" and rlp: "inj rlp"
  shows "map execution_claim es = map execution_claim fs"
proof -
  obtain bs where bs: "try_map (execution_bytes sha rlp) es = Inr bs" "sha (concat bs) = h"
    using e by (auto simp: exec_precondition_hash_def res_simps)
  obtain cs where cs: "try_map (execution_bytes sha rlp) fs = Inr cs" "sha (concat cs) = h"
    using f by (auto simp: exec_precondition_hash_def res_simps)
  have "concat bs = concat cs"
    by (rule inj_onD [OF inj]) (use bs cs in \<open>simp_all add: execution_preimages_def\<close>)
  moreover have "\<forall>b \<in> set bs. length b = 128" "\<forall>c \<in> set cs. length c = 128"
    using try_map_set [OF bs(1)] try_map_set [OF cs(1)] length_execution_bytes by blast+
  ultimately have eq: "bs = cs" by (intro concat_equal_lengths [of bs cs 128]) simp_all
  have len: "length es = length fs" using bs(1) cs(1) eq by (simp add: try_map_eq_Inr)
  have "execution_claim (es ! i) = execution_claim (fs ! i)" if "i < length es" for i
  proof (rule execution_bytes_inj [OF _ _ _ rlp])
    show "execution_bytes sha rlp (es ! i) = Inr (bs ! i)" "execution_bytes sha rlp (fs ! i) = Inr (bs ! i)"
      using bs(1) cs(1) eq that len by (simp_all add: try_map_eq_Inr)
    show "inj_on sha (attributes_preimages sha rlp (ex_attributes (es ! i)) \<union>
        attributes_preimages sha rlp (ex_attributes (fs ! i)))"
      using inj that len nth_mem [of i es] nth_mem [of i fs]
      by (elim inj_on_subset) (auto simp: execution_preimages_def)
  qed
  then show ?thesis using len by (intro nth_equalityI) simp_all
qed

section \<open>The contract of an executor\<close>

text \<open>
  An executor keeps its invariant, and what it returns for a payload is a valid outcome for the
  output root it stands at. Its clients run payloads one after the other, moving the safe head to
  each block built.
\<close>

fun run_payloads ::
  "('s, 'x) executor_ops \<Rightarrow> 's \<Rightarrow> payload_attributes list \<Rightarrow>
   (B256 \<times> payload_attributes \<times> 'x block_building_outcome) list result" where
  "run_payloads E s [] = Inr []"
| "run_payloads E s (a # as) =
     (case op_compute_output_root E s of (_, root) \<Rightarrow>
      case op_execute_payload E s a of (s', r) \<Rightarrow>
        and_then root (\<lambda>agreed. and_then r (\<lambda>outcome.
        and_then (run_payloads E (op_update_safe_head E s' (bo_header outcome)) as) (\<lambda>rest.
        Inr ((agreed, a, outcome) # rest)))))"

locale block_executor =
  fixes E :: "('s, 'x) executor_ops" and einv :: "'s \<Rightarrow> bool"
    and valid :: "B256 \<Rightarrow> payload_attributes \<Rightarrow> 'x block_building_outcome \<Rightarrow> bool"
  assumes update_inv: "einv s \<Longrightarrow> einv (op_update_safe_head E s h)"
    and root_inv: "einv s \<Longrightarrow> op_compute_output_root E s = (s', r) \<Longrightarrow> einv s'"
    and execute_inv: "einv s \<Longrightarrow> op_execute_payload E s a = (s', r') \<Longrightarrow> einv s'"
    and execute_valid: "einv s \<Longrightarrow> op_compute_output_root E s = (s1, Inr root) \<Longrightarrow>
      op_execute_payload E s a = (s', Inr outcome) \<Longrightarrow> valid root a outcome"
begin

lemma run_payloads_valid:
  "einv s \<Longrightarrow> run_payloads E s as = Inr outs \<Longrightarrow> \<forall>(root, a, outcome) \<in> set outs. valid root a outcome"
proof (induction as arbitrary: s outs)
  case Nil
  then show ?case by simp
next
  case (Cons a as)
  obtain s1 r0 where root: "op_compute_output_root E s = (s1, r0)" by fastforce
  obtain s' r where exec: "op_execute_payload E s a = (s', r)" by fastforce
  from Cons.prems(2) root exec obtain agreed outcome rest where
      r: "r0 = Inr agreed" "r = Inr outcome"
      and rest: "run_payloads E (op_update_safe_head E s' (bo_header outcome)) as = Inr rest"
      and outs: "outs = (agreed, a, outcome) # rest"
    by (auto simp: res_simps)
  have "einv (op_update_safe_head E s' (bo_header outcome))"
    using Cons.prems(1) exec execute_inv update_inv by blast
  from Cons.IH [OF this rest] execute_valid [OF Cons.prems(1)] root exec r outs show ?case by auto
qed

end

text \<open>
  The cached executor meets the contract over any inner executor: an outcome is one that is valid
  in the cache, or one the inner executor produced at that output root.
\<close>

definition produced ::
  "('s, 'x) executor_ops \<Rightarrow> B256 \<Rightarrow> payload_attributes \<Rightarrow> 'x block_building_outcome \<Rightarrow> bool" where
  "produced E root a outcome \<longleftrightarrow>
     (\<exists>s s1 s'. op_compute_output_root E s = (s1, Inr root) \<and>
        op_execute_payload E s1 a = (s', Inr outcome))"

definition cache_valid ::
  "(B256 \<Rightarrow> payload_attributes \<Rightarrow> 'x block_building_outcome \<Rightarrow> bool) \<Rightarrow> ('s, 'x) cached_executor \<Rightarrow> bool" where
  "cache_valid V c \<longleftrightarrow>
     (\<forall>e \<in> set (ce_cache c). V (ex_agreed_output e) (ex_attributes e) (ex_artifacts e))"

lemma cached_execute_cases:
  assumes "cached_execute_payload E c a = (c', r)"
  obtains (fail) s1 e where "op_compute_output_root E (ce_executor c) = (s1, Inl e)" "r = Inl e"
      "c' = c\<lparr>ce_executor := s1\<rparr>"
  | (hit) s1 root where "op_compute_output_root E (ce_executor c) = (s1, Inr root)"
      "cache_hit (ce_cache c) root a" "r = Inr (ex_artifacts (last (ce_cache c)))"
      "c' = c\<lparr>ce_executor := op_update_safe_head E s1 (bo_header (ex_artifacts (last (ce_cache c)))),
              ce_cache := butlast (ce_cache c)\<rparr>"
  | (miss) s1 root s' where "op_compute_output_root E (ce_executor c) = (s1, Inr root)"
      "\<not> cache_hit (ce_cache c) root a" "op_execute_payload E s1 a = (s', r)"
      "ce_executor c' = s'" "ce_cache c' = ce_cache c"
proof -
  obtain s1 r0 where root: "op_compute_output_root E (ce_executor c) = (s1, r0)" by fastforce
  show ?thesis
  proof (cases r0)
    case (Inl e)
    with root assms show ?thesis
      by (intro fail [of s1 e]) (auto simp: cached_execute_payload_def cached_compute_output_root_def)
  next
    case (Inr a0)
    obtain s' r1 where exec: "op_execute_payload E s1 a = (s', r1)" by fastforce
    show ?thesis
    proof (cases "cache_hit (ce_cache c) a0 a")
      case True
      with root assms Inr show ?thesis
        by (intro hit [of s1 a0])
          (auto simp: cached_execute_payload_def cached_compute_output_root_def
            cached_update_safe_head_def Let_def)
    next
      case False
      with root assms Inr exec show ?thesis
        by (intro miss [of s1 a0 s'])
          (auto simp: cached_execute_payload_def cached_compute_output_root_def
            split: option.splits sum.splits)
    qed
  qed
qed

lemma cache_valid_butlast:
  assumes "cache_valid V c" and "ce_cache c' = ce_cache c \<or> ce_cache c' = butlast (ce_cache c)"
  shows "cache_valid V c'"
  using assms unfolding cache_valid_def by (metis in_set_butlastD)

interpretation cached: block_executor "cached_ops E" "cache_valid V"
    "\<lambda>root a outcome. V root a outcome \<or> produced E root a outcome"
  for E :: "('s, 'x) executor_ops" and V
proof
  fix s s1 s' :: "('s, 'x) cached_executor" and h r r' root a outcome
  assume inv: "cache_valid V s"
  show "cache_valid V (op_update_safe_head (cached_ops E) s h)"
    using inv by (simp add: cached_ops_def cached_update_safe_head_def cache_valid_def)
  show "op_compute_output_root (cached_ops E) s = (s', r) \<Longrightarrow> cache_valid V s'"
    using inv by (auto simp: cached_ops_def cached_compute_output_root_def cache_valid_def split: prod.splits)
  show "op_execute_payload (cached_ops E) s a = (s', r') \<Longrightarrow> cache_valid V s'"
    by (auto simp: cached_ops_def elim!: cached_execute_cases intro: cache_valid_butlast [OF inv])
  assume "op_compute_output_root (cached_ops E) s = (s1, Inr root)"
  then have root: "snd (op_compute_output_root E (ce_executor s)) = Inr root"
    by (auto simp: cached_ops_def cached_compute_output_root_def split: prod.splits)
  assume "op_execute_payload (cached_ops E) s a = (s', Inr outcome)"
  then have "cached_execute_payload E s a = (s', Inr outcome)" by (simp add: cached_ops_def)
  then show "V root a outcome \<or> produced E root a outcome"
  proof (cases rule: cached_execute_cases)
    case (hit s1 root')
    then have "last (ce_cache s) \<in> set (ce_cache s)" by (auto simp: cache_hit_def)
    with hit root inv show ?thesis by (auto simp: cache_hit_def cache_valid_def)
  next
    case (miss s1 root' s'')
    with root show ?thesis by (auto simp: produced_def)
  qed simp
qed

section \<open>Transparency\<close>

text \<open>
  What makes a cache transparent. \<open>R\<close> relates executor states that cannot be told apart:
  computing the output root succeeds and changes nothing visible, and related states build the
  same blocks. A cached execution replays when building its block gives its outcome and leaves the
  executor as moving the safe head to that block does.
\<close>

definition indistinguishable :: "('s, 'x) executor_ops \<Rightarrow> ('s \<Rightarrow> 's \<Rightarrow> bool) \<Rightarrow> bool" where
  "indistinguishable E R \<longleftrightarrow>
     (\<forall>s t. R s t \<longrightarrow> (\<exists>s1 root. op_compute_output_root E s = (s1, Inr root) \<and> R s1 t)) \<and>
     (\<forall>s t a. R s t \<longrightarrow> snd (op_execute_payload E s a) = snd (op_execute_payload E t a) \<and>
        R (fst (op_execute_payload E s a)) (fst (op_execute_payload E t a))) \<and>
     (\<forall>s t h. R s t \<longrightarrow> R (op_update_safe_head E s h) (op_update_safe_head E t h))"

definition replays :: "('s, 'x) executor_ops \<Rightarrow> ('s \<Rightarrow> 's \<Rightarrow> bool) \<Rightarrow> 'x execution \<Rightarrow> bool" where
  "replays E R e \<longleftrightarrow>
     (\<forall>s s1 t. op_compute_output_root E s = (s1, Inr (ex_agreed_output e)) \<longrightarrow> R s1 t \<longrightarrow>
        (\<exists>t'. op_execute_payload E t (ex_attributes e) = (t', Inr (ex_artifacts e)) \<and>
           R (op_update_safe_head E s1 (bo_header (ex_artifacts e))) t'))"

fun execute_all ::
  "('s, 'x) executor_ops \<Rightarrow> 's \<Rightarrow> payload_attributes list \<Rightarrow> 'x block_building_outcome list result" where
  "execute_all E s [] = Inr []"
| "execute_all E s (a # as) =
     (case op_execute_payload E s a of (s', r) \<Rightarrow>
        and_then r (\<lambda>outcome.
        and_then (execute_all E (op_update_safe_head E s' (bo_header outcome)) as) (\<lambda>rest.
        Inr (outcome # rest))))"

lemma cached_step:
  assumes ind: "indistinguishable E R" and rel: "R (ce_executor c) s"
    and cache: "\<forall>e \<in> set (ce_cache c). replays E R e"
  shows "snd (cached_execute_payload E c a) = snd (op_execute_payload E s a) \<and>
    R (ce_executor (fst (cached_execute_payload E c a))) (fst (op_execute_payload E s a)) \<and>
    set (ce_cache (fst (cached_execute_payload E c a))) \<subseteq> set (ce_cache c)"
proof -
  obtain c' r where step: "cached_execute_payload E c a = (c', r)" by fastforce
  obtain s1 root where root: "op_compute_output_root E (ce_executor c) = (s1, Inr root)" and R1: "R s1 s"
    using ind rel unfolding indistinguishable_def by blast
  from step show ?thesis
  proof (cases rule: cached_execute_cases)
    case (fail s1' e)
    with root show ?thesis by simp
  next
    case (hit s1' root')
    let ?e = "last (ce_cache c)"
    have ne: "ce_cache c \<noteq> []" and eqs: "root = ex_agreed_output ?e" "a = ex_attributes ?e" "s1' = s1"
      using hit root by (auto simp: cache_hit_def)
    then have "replays E R ?e" using cache by simp
    with root R1 eqs obtain t' where "op_execute_payload E s a = (t', Inr (ex_artifacts ?e))"
        "R (op_update_safe_head E s1 (bo_header (ex_artifacts ?e))) t'"
      unfolding replays_def by blast
    with hit step eqs show ?thesis by (auto dest: in_set_butlastD)
  next
    case (miss s1' root' s')
    then have "op_execute_payload E s1 a = (s', r)" using root by simp
    with ind R1 miss step show ?thesis unfolding indistinguishable_def by (metis fst_conv snd_conv order_refl)
  qed
qed

section \<open>Properties\<close>

text \<open>
  C11. The execution commitment binds the executions: unless SHA-256 collides on the byte strings
  hashed (and RLP encoding of transaction lists is injective), two execution traces with one
  precondition hash agree, block by block, in the agreed output, all payload attributes, the hash of
  the block built and the claimed output.
\<close>

theorem exec_precondition_hash_binding:
  assumes "exec_precondition_hash sha rlp es = Inr h" and "exec_precondition_hash sha rlp fs = Inr h"
    and "inj_on sha (execution_preimages sha rlp es \<union> execution_preimages sha rlp fs)" and "inj rlp"
  shows "map execution_claim es = map execution_claim fs"
  using assms by (rule exec_precondition_hash_inject)

text \<open>Concrete executions, and an injective encoding of lists of byte strings.\<close>

fun toy_rlp :: "bytes list \<Rightarrow> bytes" where
  "toy_rlp [] = []"
| "toy_rlp ([] # xs) = 0 # toy_rlp xs"
| "toy_rlp ((b # x) # xs) = 1 # b # toy_rlp (x # xs)"

fun toy_unrlp :: "bytes \<Rightarrow> bytes \<Rightarrow> bytes list" where
  "toy_unrlp acc [] = []"
| "toy_unrlp acc [t] = [acc]"
| "toy_unrlp acc (t # b # bs) =
     (if t = 0 then acc # toy_unrlp [] (b # bs) else toy_unrlp (acc @ [b]) bs)"

lemma toy_unrlp_terminator: "toy_unrlp acc (0 # bs) = acc # toy_unrlp [] bs"
  by (cases bs) simp_all

lemma toy_unrlp_rlp: "xs \<noteq> [] \<Longrightarrow> toy_unrlp acc (toy_rlp xs) = (acc @ hd xs) # tl xs"
proof (induction xs arbitrary: acc rule: toy_rlp.induct)
  case (2 xs)
  then show ?case by (cases "xs = []") (simp_all add: toy_unrlp_terminator)
qed simp_all

lemma inj_toy_rlp: "inj toy_rlp"
proof (rule inj_on_inverseI)
  show "toy_unrlp [] (toy_rlp xs) = xs" for xs
    by (cases "xs = []") (simp_all add: toy_unrlp_rlp)
qed

definition sample_attributes :: payload_attributes where
  "sample_attributes = \<lparr>pa_timestamp = 5, pa_prev_randao = 6, pa_suggested_fee_recipient = 7,
     pa_withdrawals = None, pa_parent_beacon_block_root = Some 8, pa_transactions = None,
     pa_no_tx_pool = Some True, pa_gas_limit = Some 30, pa_eip_1559_params = None\<rparr>"

definition toy_header :: "B256 \<Rightarrow> sealed_header" where
  "toy_header n = seal \<lparr>rh_parent_hash = n - 1, rh_number = ucast n, rh_timestamp = 0,
     rh_receipts_root = 0, rh_transactions_root = 0, rh_gas_used = 0\<rparr> n"

definition toy_execution :: "B256 \<Rightarrow> 'x \<Rightarrow> 'x execution" where
  "toy_execution n x = \<lparr>ex_agreed_output = n, ex_attributes = sample_attributes,
     ex_artifacts = \<lparr>bo_header = toy_header (n + 1), bo_execution_result = x\<rparr>, ex_claimed_output = n + 1\<rparr>"

definition count_hash :: "bytes \<Rightarrow> B256" where
  "count_hash bs = of_nat (length bs)"

lemma sample_attributes_bytes:
  "\<exists>bs. attributes_bytes sha rlp sample_attributes = Inr bs \<and> length bs = 173"
  by (simp add: attributes_bytes_eq_Inr sample_attributes_def)

theorem exec_precondition_hash_binding_witness:
  "\<exists>h. exec_precondition_hash count_hash toy_rlp [toy_execution 1 False] = Inr h \<and>
     exec_precondition_hash count_hash toy_rlp [toy_execution 1 True] = Inr h \<and>
     map execution_claim [toy_execution 1 False] = map execution_claim [toy_execution 1 True]"
proof -
  obtain abs where abs: "attributes_bytes count_hash toy_rlp sample_attributes = Inr abs" "length abs = 173"
    using sample_attributes_bytes by blast
  define ebs where "ebs = to_be_bytes (1 :: B256) @ to_be_bytes (count_hash abs) @ to_be_bytes (2 :: B256) @
    to_be_bytes (2 :: B256)"
  have e: "execution_bytes count_hash toy_rlp (toy_execution 1 x) = Inr ebs" for x :: bool
    using abs(1) by (simp add: execution_bytes_def attributes_hash_def toy_execution_def toy_header_def
        seal_def ebs_def)
  have h: "exec_precondition_hash count_hash toy_rlp [toy_execution 1 x] = Inr 128" for x :: bool
    by (simp add: exec_precondition_hash_def e count_hash_def) (simp add: ebs_def)
  have "pa_withdrawals sample_attributes = None" "pa_transactions sample_attributes = None"
    by (simp_all add: sample_attributes_def)
  then have "attributes_preimages count_hash toy_rlp sample_attributes = {abs}"
    by (simp add: attributes_preimages_def abs(1))
  moreover have "ex_attributes (toy_execution 1 x) = sample_attributes" for x :: bool
    by (simp add: toy_execution_def)
  ultimately have "execution_preimages count_hash toy_rlp [toy_execution 1 x] = {ebs, abs}" for x :: bool
    by (simp add: execution_preimages_def e insert_commute)
  moreover have "inj_on count_hash {ebs, abs}"
    using abs(2) by (auto simp: count_hash_def ebs_def)
  ultimately show ?thesis
    using exec_precondition_hash_binding [OF h [of False] h [of True] _ inj_toy_rlp] h by simp
qed

text \<open>
  Every outcome of the cached executor is accounted for: running payloads through it gives, for
  each, an outcome recorded in the cache under exactly that agreed output and those attributes, or
  one the inner executor built at that output root.
\<close>

theorem cached_outcomes_accounted:
  assumes "run_payloads (cached_ops E) c as = Inr outs" and "(root, a, outcome) \<in> set outs"
  shows "(\<exists>e \<in> set (ce_cache c). ex_agreed_output e = root \<and> ex_attributes e = a \<and>
      ex_artifacts e = outcome) \<or> produced E root a outcome"
proof -
  let ?V = "\<lambda>root a outcome. \<exists>e \<in> set (ce_cache c). ex_agreed_output e = root \<and> ex_attributes e = a \<and>
    ex_artifacts e = outcome"
  have "cache_valid ?V c" by (auto simp: cache_valid_def)
  from cached.run_payloads_valid [OF this assms(1)] assms(2) show ?thesis by auto
qed

text \<open>An executor whose output root is its state and whose blocks count up.\<close>

definition toy_ops :: "(B256, bool) executor_ops" where
  "toy_ops = \<lparr>op_wait_until_ready = (\<lambda>s. s), op_update_safe_head = (\<lambda>s h. sh_hash h),
     op_execute_payload = (\<lambda>s a. (s + 1, Inr \<lparr>bo_header = toy_header (s + 1), bo_execution_result = True\<rparr>)),
     op_compute_output_root = (\<lambda>s. (s, Inr s))\<rparr>"

definition toy_cached :: "(B256, bool) cached_executor" where
  "toy_cached = \<lparr>ce_cache = [toy_execution 5 True, toy_execution 1 True], ce_executor = 1,
     ce_collection_target = Some []\<rparr>"

theorem cached_outcomes_accounted_witness:
  "\<exists>outs. run_payloads (cached_ops toy_ops) toy_cached [sample_attributes, sample_attributes] = Inr outs \<and>
     length outs = 2 \<and>
     (\<forall>(root, a, outcome) \<in> set outs.
       (\<exists>e \<in> set (ce_cache toy_cached). ex_agreed_output e = root \<and> ex_attributes e = a \<and>
          ex_artifacts e = outcome) \<or> produced toy_ops root a outcome)"
proof -
  have "\<exists>outs. run_payloads (cached_ops toy_ops) toy_cached [sample_attributes, sample_attributes] = Inr outs \<and>
      length outs = 2"
    by (simp add: cached_ops_def toy_ops_def toy_cached_def cached_compute_output_root_def
        cached_execute_payload_def cache_hit_def toy_execution_def cached_update_safe_head_def
        toy_header_def seal_def)
  then obtain outs where outs: "run_payloads (cached_ops toy_ops) toy_cached
      [sample_attributes, sample_attributes] = Inr outs" "length outs = 2" by blast
  with cached_outcomes_accounted [OF outs(1)] show ?thesis by fastforce
qed

text \<open>
  C8. A cache of replayable executions is transparent: with an inner executor whose output root is
  an observation, a cached executor builds exactly the blocks, and fails exactly where, the inner
  executor alone does.
\<close>

theorem cached_executor_transparent:
  assumes "indistinguishable E R" and "R (ce_executor c) s" and "\<forall>e \<in> set (ce_cache c). replays E R e"
  shows "execute_all (cached_ops E) c as = execute_all E s as"
  using assms(2,3)
proof (induction as arbitrary: c s)
  case Nil
  then show ?case by simp
next
  case (Cons a as)
  obtain c' r where c': "cached_execute_payload E c a = (c', r)" by fastforce
  obtain s' where s': "op_execute_payload E s a = (s', r)" and R': "R (ce_executor c') s'"
      and cache: "\<forall>e \<in> set (ce_cache c'). replays E R e"
    using cached_step [OF assms(1) Cons.prems, of a] c' Cons.prems(2) by (cases "op_execute_payload E s a") auto
  show ?case
  proof (cases r)
    case (Inl e)
    with c' s' show ?thesis by (simp add: cached_ops_def)
  next
    case (Inr outcome)
    let ?c = "cached_update_safe_head E c' (bo_header outcome)"
    have "R (ce_executor ?c) (op_update_safe_head E s' (bo_header outcome))"
      using assms(1) R' unfolding indistinguishable_def by (simp add: cached_update_safe_head_def)
    then have "execute_all (cached_ops E) ?c as = execute_all E (op_update_safe_head E s' (bo_header outcome)) as"
      using cache by (intro Cons.IH) (simp_all add: cached_update_safe_head_def)
    moreover have "op_update_safe_head (cached_ops E) c' h = cached_update_safe_head E c' h" for h
      by (simp add: cached_ops_def)
    moreover have "op_execute_payload (cached_ops E) c a = (c', Inr outcome)"
      using c' Inr by (simp add: cached_ops_def)
    ultimately show ?thesis using s' Inr by simp
  qed
qed

theorem cached_executor_transparent_witness:
  "execute_all (cached_ops toy_ops) toy_cached [sample_attributes, sample_attributes] =
     execute_all toy_ops 1 [sample_attributes, sample_attributes]"
proof (rule cached_executor_transparent [of _ "(=)"])
  show "indistinguishable toy_ops (=)" by (simp add: indistinguishable_def toy_ops_def)
  show "ce_executor toy_cached = 1" by (simp add: toy_cached_def)
  show "\<forall>e \<in> set (ce_cache toy_cached). replays toy_ops (=) e"
    by (simp add: toy_cached_def replays_def toy_ops_def toy_execution_def toy_header_def seal_def)
qed

end
