(* ===== verification/Journal.thy ===== *)
theory Journal
  imports Config Codec
begin

text \<open>
  The proof journal (\<open>src/crates/kona/src/journal.rs\<close>) and the boot information that is stitched
  (\<open>src/crates/kona/src/boot.rs\<close>). \<open>BootInfo\<close> is \<open>kona_proof\<close>'s structure with the fields the
  source builds it from. The packed encoding is the one the contracts recompute, so its layout is
  the trust boundary between a proof and the chain.
\<close>

section \<open>Data\<close>

record boot_info =
  bi_l1_head :: B256
  bi_agreed_l2_output_root :: B256
  bi_claimed_l2_output_root :: B256
  bi_claimed_l2_block_number :: u64
  bi_chain_id :: u64
  bi_rollup_config :: rollup_config

record stitched_boot_info =
  sb_l1_head :: B256
  sb_agreed_l2_output_root :: B256
  sb_claimed_l2_output_root :: B256
  sb_claimed_l2_block_number :: u64

record proof_journal =
  pj_payout_recipient :: Address
  pj_precondition_hash :: B256
  pj_l1_head :: B256
  pj_agreed_l2_output_root :: B256
  pj_claimed_l2_output_root :: B256
  pj_claimed_l2_block_number :: u64
  pj_config_hash :: B256
  pj_fpvm_image_id :: B256

section \<open>Operations\<close>

definition journal_new ::
  "(bytes \<Rightarrow> B256) \<Rightarrow> B256 \<Rightarrow> Address \<Rightarrow> B256 \<Rightarrow> boot_info \<Rightarrow> proof_journal result" where
  "journal_new sha fpvm_image_id payout_recipient precondition_output boot =
     and_then (expect (config_hash sha (bi_rollup_config boot)) ''config_hash'') (\<lambda>config.
     Inr \<lparr>pj_payout_recipient = payout_recipient,
          pj_precondition_hash = precondition_output,
          pj_l1_head = bi_l1_head boot,
          pj_agreed_l2_output_root = bi_agreed_l2_output_root boot,
          pj_claimed_l2_output_root = bi_claimed_l2_output_root boot,
          pj_claimed_l2_block_number = bi_claimed_l2_block_number boot,
          pj_config_hash = config,
          pj_fpvm_image_id = fpvm_image_id\<rparr>)"

definition journal_new_stitched ::
  "B256 \<Rightarrow> Address \<Rightarrow> B256 \<Rightarrow> B256 \<Rightarrow> stitched_boot_info \<Rightarrow> proof_journal" where
  "journal_new_stitched fpvm_image_id payout_recipient precondition_output config boot =
     \<lparr>pj_payout_recipient = payout_recipient,
      pj_precondition_hash = precondition_output,
      pj_l1_head = sb_l1_head boot,
      pj_agreed_l2_output_root = sb_agreed_l2_output_root boot,
      pj_claimed_l2_output_root = sb_claimed_l2_output_root boot,
      pj_claimed_l2_block_number = sb_claimed_l2_block_number boot,
      pj_config_hash = config,
      pj_fpvm_image_id = fpvm_image_id\<rparr>"

definition encode_packed :: "proof_journal \<Rightarrow> bytes" where
  "encode_packed j =
     to_be_bytes (pj_payout_recipient j) @
     to_be_bytes (pj_precondition_hash j) @
     to_be_bytes (pj_l1_head j) @
     to_be_bytes (pj_agreed_l2_output_root j) @
     to_be_bytes (pj_claimed_l2_output_root j) @
     to_be_bytes (pj_claimed_l2_block_number j) @
     to_be_bytes (pj_config_hash j) @
     to_be_bytes (pj_fpvm_image_id j)"

text \<open>\<open>encoded[i..j].try_into().unwrap()\<close>.\<close>

definition word_at :: "bytes \<Rightarrow> nat \<Rightarrow> nat \<Rightarrow> 'a::len word result" where
  "word_at encoded i j =
     and_then (slice_vec encoded i j) (\<lambda>s. expect (try_into_word s) ''unwrap on an Err value'')"

definition decode_packed :: "bytes \<Rightarrow> proof_journal result" where
  "decode_packed encoded =
     and_then (word_at encoded 0 20) (\<lambda>payout_recipient.
     and_then (word_at encoded 20 52) (\<lambda>precondition_hash.
     and_then (word_at encoded 52 84) (\<lambda>l1_head.
     and_then (word_at encoded 84 116) (\<lambda>agreed_l2_output_root.
     and_then (word_at encoded 116 148) (\<lambda>claimed_l2_output_root.
     and_then (word_at encoded 148 156) (\<lambda>claimed_l2_block_number.
     and_then (word_at encoded 156 188) (\<lambda>config.
     and_then (word_at encoded 188 220) (\<lambda>fpvm_image_id.
     Inr \<lparr>pj_payout_recipient = payout_recipient,
          pj_precondition_hash = precondition_hash,
          pj_l1_head = l1_head,
          pj_agreed_l2_output_root = agreed_l2_output_root,
          pj_claimed_l2_output_root = claimed_l2_output_root,
          pj_claimed_l2_block_number = claimed_l2_block_number,
          pj_config_hash = config,
          pj_fpvm_image_id = fpvm_image_id\<rparr>))))))))"

text \<open>A receipt's journal is its byte string.\<close>

definition boot_from_journal :: "proof_journal \<Rightarrow> stitched_boot_info" where
  "boot_from_journal j =
     \<lparr>sb_l1_head = pj_l1_head j,
      sb_agreed_l2_output_root = pj_agreed_l2_output_root j,
      sb_claimed_l2_output_root = pj_claimed_l2_output_root j,
      sb_claimed_l2_block_number = pj_claimed_l2_block_number j\<rparr>"

definition journal_from_receipt :: "bytes \<Rightarrow> proof_journal result" where
  "journal_from_receipt journal_bytes = decode_packed journal_bytes"

definition boot_from_receipt :: "bytes \<Rightarrow> stitched_boot_info result" where
  "boot_from_receipt journal_bytes =
     and_then (journal_from_receipt journal_bytes) (\<lambda>j. Inr (boot_from_journal j))"

section \<open>The packed encoding is a codec\<close>

lemma length_encode_packed: "length (encode_packed j) = 220"
  by (simp add: encode_packed_def)

lemma word_at_eq_Inr:
  "word_at bs i j = Inr (w :: 'a::len word) \<longleftrightarrow>
     i \<le> j \<and> j \<le> length bs \<and> j - i = LENGTH('a) div 8 \<and> w = from_be_bytes (take (j - i) (drop i bs))"
  by (auto simp: word_at_def res_simps try_into_word_def slice_vec_def split: if_splits)

lemma decode_encode_append: "decode_packed (encode_packed j @ rest) = Inr j"
  by (simp add: decode_packed_def encode_packed_def word_at_def slice_vec_def)

lemma decode_packed_short: "length bs < 220 \<Longrightarrow> \<exists>msg. decode_packed bs = Inl (Panic msg)"
  by (simp add: decode_packed_def word_at_def slice_vec_def try_into_word_def)

lemma to_be_word_at:
  "word_at bs i j = Inr (w :: 'a::len word) \<Longrightarrow> 8 dvd LENGTH('a) \<Longrightarrow>
     to_be_bytes w = take (j - i) (drop i bs)"
  by (auto simp: word_at_eq_Inr intro: to_from_be_bytes)

lemma encode_decode:
  assumes "decode_packed bs = Inr j"
  shows "encode_packed j = take 220 bs"
proof -
  have "take 220 bs = take 20 bs @ take 32 (drop 20 bs) @ take 32 (drop 52 bs) @
      take 32 (drop 84 bs) @ take 32 (drop 116 bs) @ take 8 (drop 148 bs) @
      take 32 (drop 156 bs) @ take 32 (drop 188 bs)"
    by (simp add: take_split [of 20 220 bs] take_split [of 32 200 "drop 20 bs"]
        take_split [of 32 168 "drop 52 bs"] take_split [of 32 136 "drop 84 bs"]
        take_split [of 32 104 "drop 116 bs"] take_split [of 8 72 "drop 148 bs"]
        take_split [of 32 64 "drop 156 bs"])
  moreover from assms have
    "word_at bs 0 20 = Inr (pj_payout_recipient j)" "word_at bs 20 52 = Inr (pj_precondition_hash j)"
    "word_at bs 52 84 = Inr (pj_l1_head j)" "word_at bs 84 116 = Inr (pj_agreed_l2_output_root j)"
    "word_at bs 116 148 = Inr (pj_claimed_l2_output_root j)"
    "word_at bs 148 156 = Inr (pj_claimed_l2_block_number j)"
    "word_at bs 156 188 = Inr (pj_config_hash j)" "word_at bs 188 220 = Inr (pj_fpvm_image_id j)"
    unfolding decode_packed_def and_then_eq_Inr by auto
  note this [THEN to_be_word_at, simplified]
  ultimately show ?thesis
    by (simp only: encode_packed_def)
qed

interpretation journal_codec: fixed_width_codec encode_packed 220 decode_packed
  by unfold_locales
    (simp_all add: length_encode_packed decode_encode_append decode_packed_short encode_decode)

lemma encode_packed_inject [simp]: "encode_packed j = encode_packed k \<longleftrightarrow> j = k"
  by (rule journal_codec.enc_eq_iff)

lemma journal_new_stitched_sel [simp]:
  "pj_l1_head (journal_new_stitched i p pre c b) = sb_l1_head b"
  "pj_agreed_l2_output_root (journal_new_stitched i p pre c b) = sb_agreed_l2_output_root b"
  "pj_claimed_l2_output_root (journal_new_stitched i p pre c b) = sb_claimed_l2_output_root b"
  "pj_claimed_l2_block_number (journal_new_stitched i p pre c b) = sb_claimed_l2_block_number b"
  "pj_config_hash (journal_new_stitched i p pre c b) = c"
  "pj_precondition_hash (journal_new_stitched i p pre c b) = pre"
  "pj_fpvm_image_id (journal_new_stitched i p pre c b) = i"
  "boot_from_journal (journal_new_stitched i p pre c b) = b"
  by (simp_all add: journal_new_stitched_def boot_from_journal_def)

section \<open>Properties\<close>

text \<open>
  C18. Decoding inverts encoding. A packed journal is 220 bytes, is decoded to the journal it came
  from whatever bytes follow it, and two journals with the same packed bytes are equal; a byte
  string shorter than 220 bytes makes the decoder panic, and every longer one decodes to the
  journal whose encoding is its first 220 bytes.
\<close>

theorem journal_roundtrip:
  "length (encode_packed j) = 220 \<and> decode_packed (encode_packed j @ rest) = Inr j \<and>
   (encode_packed j = encode_packed k \<longleftrightarrow> j = k) \<and>
   (case decode_packed bs of
      Inr d \<Rightarrow> 220 \<le> length bs \<and> encode_packed d = take 220 bs
    | Inl e \<Rightarrow> length bs < 220 \<and> (\<exists>msg. e = Panic msg))"
proof -
  have ok: "\<exists>d. decode_packed bs = Inr d" if "220 \<le> length bs"
    using that by (simp add: decode_packed_def word_at_def slice_vec_def try_into_word_def)
  have "case decode_packed bs of
      Inr d \<Rightarrow> 220 \<le> length bs \<and> encode_packed d = take 220 bs
    | Inl e \<Rightarrow> length bs < 220 \<and> (\<exists>msg. e = Panic msg)"
  proof (cases "220 \<le> length bs")
    case True
    then show ?thesis using ok by (auto simp: encode_decode)
  next
    case False
    then show ?thesis using decode_packed_short [of bs] by auto
  qed
  then show ?thesis
    by (simp add: length_encode_packed decode_encode_append journal_codec.enc_eq_iff)
qed

text \<open>
  A stand-alone journal states exactly the boot information it was made from: reading the boot
  information back from the encoded journal gives the l1 head, agreed root, claimed root and block
  number of the boot, and building the stitched journal from it with the same recipient,
  precondition, configuration hash and image gives the journal back.
\<close>

theorem journal_new_boot:
  assumes "journal_new sha image_id payout precondition boot = Inr j"
  shows "boot_from_receipt (encode_packed j) =
      Inr \<lparr>sb_l1_head = bi_l1_head boot, sb_agreed_l2_output_root = bi_agreed_l2_output_root boot,
           sb_claimed_l2_output_root = bi_claimed_l2_output_root boot,
           sb_claimed_l2_block_number = bi_claimed_l2_block_number boot\<rparr> \<and>
    journal_new_stitched image_id payout precondition (pj_config_hash j) (boot_from_journal j) = j \<and>
    config_hash sha (bi_rollup_config boot) = Inr (pj_config_hash j)"
  using assms
  by (auto simp: journal_new_def boot_from_receipt_def journal_from_receipt_def
      journal_codec.dec_enc boot_from_journal_def journal_new_stitched_def res_simps)

theorem journal_new_boot_witness:
  "\<exists>j. journal_new (\<lambda>_. 5) 1 2 3 \<lparr>bi_l1_head = 4, bi_agreed_l2_output_root = 6,
       bi_claimed_l2_output_root = 7, bi_claimed_l2_block_number = 8, bi_chain_id = 10,
       bi_rollup_config = sample_config 250\<rparr> = Inr j \<and>
     boot_from_receipt (encode_packed j) = Inr \<lparr>sb_l1_head = 4, sb_agreed_l2_output_root = 6,
       sb_claimed_l2_output_root = 7, sb_claimed_l2_block_number = 8\<rparr>"
proof -
  let ?boot = "\<lparr>bi_l1_head = 4, bi_agreed_l2_output_root = 6, bi_claimed_l2_output_root = 7,
    bi_claimed_l2_block_number = 8, bi_chain_id = 10, bi_rollup_config = sample_config 250\<rparr>"
  have "\<exists>h. config_hash (\<lambda>_. 5) (sample_config 250) = Inr h"
    using sample_config_ok [of "\<lambda>_. 5" 250] by (auto simp: config_hash_def)
  then obtain j where j: "journal_new (\<lambda>_. 5) 1 2 3 ?boot = Inr j"
    by (auto simp: journal_new_def)
  show ?thesis using j journal_new_boot [OF j] by auto
qed

end
