(* ===== verification/Core.thy ===== *)
theory Core
  imports Precondition Executor Journal
begin

text \<open>
  The core client (\<open>src/crates/kona/src/client/core.rs\<close>): from an agreed output root it derives and
  executes L2 blocks up to the claimed height, or checks a trace of executions, and compares the
  result with the claim.

  The parts of \<open>kona\<close> it drives are one record of parameters: loading the boot information, the L2
  chain provider, the cursors, the block executor, the derivation pipeline (with the source of
  data) and the driver. The driver is given the operations of the executor it drives, here the
  cached executor of theory \<open>Executor\<close>. The oracle is the read-once wrapper around an inner oracle
  with operations \<open>get\<close> and \<open>get_exact\<close>; the stream goes to the L1 chain provider of theory
  \<open>L1_Chain\<close>; the beacon is any blob provider.
\<close>

section \<open>The parameters\<close>

record ('o, 'p, 's, 'x, 'c, 'i, 'l, 'd) kona =
  k_boot_load :: "'o local_once_oracle \<Rightarrow> 'o local_once_oracle \<times> boot_info result"
  k_l2_header_by_hash :: "'o local_once_oracle \<Rightarrow> B256 \<Rightarrow> 'o local_once_oracle \<times> raw_header result"
  k_l2_block_info_by_number :: "'o local_once_oracle \<Rightarrow> u64 \<Rightarrow> 'o local_once_oracle \<times> 'i result"
  k_info_timestamp :: "'i \<Rightarrow> u64"
  k_channel_timeout :: "rollup_config \<Rightarrow> u64 \<Rightarrow> u64"
  k_cursor_new :: "u64 \<Rightarrow> block_info \<Rightarrow> 'c"
  k_cursor_advance :: "'c \<Rightarrow> block_info \<Rightarrow> 'i \<times> sealed_header \<times> B256 \<Rightarrow> 'c"
  k_new_oracle_pipeline_cursor :: "rollup_config \<Rightarrow> sealed_header \<Rightarrow> 'o l1_provider \<Rightarrow>
    'o local_once_oracle \<Rightarrow> ('o l1_provider \<times> 'o local_once_oracle) \<times> 'c result"
  k_executor_new :: "rollup_config \<Rightarrow> 'o local_once_oracle \<Rightarrow> 'c \<Rightarrow> 's"
  k_executor :: "('s, 'x) executor_ops"
  k_pipeline_new :: "rollup_config \<Rightarrow> 'c \<Rightarrow> 'o local_once_oracle \<Rightarrow> 'o l1_provider \<Rightarrow> 'p \<Rightarrow> 'l result"
  k_driver_new :: "'c \<Rightarrow> ('s, 'x) cached_executor \<Rightarrow> 'l \<Rightarrow> 'd"
  k_advance_to_target :: "(('s, 'x) cached_executor, 'x) executor_ops \<Rightarrow> 'd \<Rightarrow> rollup_config \<Rightarrow> u64 \<Rightarrow>
    'd \<times> (u64 \<times> B256) result"

text \<open>The guest's own inputs: hash functions, decoders, the inner oracle and the blob provider.\<close>

record ('o, 'p) guest_env =
  ge_build :: build
  ge_sha :: "bytes \<Rightarrow> B256"
  ge_rlp :: "bytes list \<Rightarrow> bytes"
  ge_pot_from_slice :: "bytes \<Rightarrow> precondition_validation_data result"
  ge_header_decode :: "bytes \<Rightarrow> raw_header result"
  ge_get :: "'o \<Rightarrow> preimage_key \<Rightarrow> 'o \<times> bytes result"
  ge_get_exact :: "'o \<Rightarrow> preimage_key \<Rightarrow> nat \<Rightarrow> 'o \<times> bytes result"
  ge_get_blobs :: "'p \<Rightarrow> block_info \<Rightarrow> indexed_blob_hash list \<Rightarrow> 'p \<times> blob list result"

definition L1_HEAD_INSUFFICIENT :: string where
  "L1_HEAD_INSUFFICIENT = ''Expected zero claim hash.''"

text \<open>A stateful step whose error ends the computation.\<close>

definition with_state :: "'s \<times> 'a result \<Rightarrow> ('s \<Rightarrow> 'a \<Rightarrow> 'b result) \<Rightarrow> 'b result" where
  "with_state m f = (case m of (s, r) \<Rightarrow> and_then r (f s))"

definition map_result :: "('a result \<Rightarrow> 'b result) \<Rightarrow> 's \<times> 'a result \<Rightarrow> 's \<times> 'b result" where
  "map_result f m = (case m of (s, r) \<Rightarrow> (s, f r))"

section \<open>Operations\<close>

definition fetch_safe_head_hash ::
  "('o \<Rightarrow> preimage_key \<Rightarrow> nat \<Rightarrow> 'o \<times> bytes result) \<Rightarrow> 'o \<Rightarrow> B256 \<Rightarrow> 'o \<times> B256 result" where
  "fetch_safe_head_hash get_exact oracle agreed_l2_output_root =
     map_result (\<lambda>r. and_then r (\<lambda>output_preimage.
         and_then (slice_vec output_preimage 96 128) try_into_word))
       (get_exact oracle (preimage_key_new agreed_l2_output_root Keccak256) 128)"

text \<open>Execution only: each execution starts at the latest output root and reproduces its outcome.\<close>

fun verify_executions ::
  "('s, 'x) executor_ops \<Rightarrow> 's \<Rightarrow> B256 \<Rightarrow> 'x execution list \<Rightarrow> B256 result" where
  "verify_executions E s latest_output_root [] = Inr latest_output_root"
| "verify_executions E s latest_output_root (e # es) =
     and_then (ensure (ex_agreed_output e = latest_output_root) ''assert agreed_output'') (\<lambda>_.
     with_state (op_execute_payload E s (ex_attributes e)) (\<lambda>s executor_result.
     and_then (ensure (bo_header (ex_artifacts e) = bo_header executor_result) ''assert header'') (\<lambda>_.
     and_then (ensure (bo_execution_result (ex_artifacts e) = bo_execution_result executor_result)
       ''assert execution_result'') (\<lambda>_.
     with_state (map_result (\<lambda>r. err_context r ''compute_output_root: Verify post state'')
         (op_compute_output_root E (op_update_safe_head E s (bo_header (ex_artifacts e)))))
       (\<lambda>s root.
     and_then (ensure (ex_claimed_output e = root) ''assert claimed_output'') (\<lambda>_.
     verify_executions E s root es))))))"

definition run_execution_only ::
  "('o, 'p) guest_env \<Rightarrow> ('o, 'p, 's, 'x, 'c, 'i, 'l, 'd) kona \<Rightarrow> boot_info \<Rightarrow> sealed_header \<Rightarrow>
   'o local_once_oracle \<Rightarrow> nat \<Rightarrow> 'x execution list \<Rightarrow> (B256 \<times> B256 option) result" where
  "run_execution_only G K boot safe_head oracle expected_output_count execution_cache =
     with_state (map_result (\<lambda>r. err_context r ''new_execution_cursor'')
         (new_execution_cursor (k_l2_block_info_by_number K) (k_info_timestamp K) (k_channel_timeout K)
            (k_cursor_new K) (k_cursor_advance K) (bi_rollup_config boot) safe_head oracle))
       (\<lambda>oracle cursor.
     let E = k_executor K;
         s = op_update_safe_head E (k_executor_new K (bi_rollup_config boot) oracle cursor) safe_head
     in and_then (ensure (expected_output_count = length execution_cache) ''assert block count'') (\<lambda>_.
        and_then (ensure (execution_cache \<noteq> []) ''assert non-empty trace'') (\<lambda>_.
        and_then (exec_precondition_hash (ge_sha G) (ge_rlp G) execution_cache) (\<lambda>precondition.
        and_then (ensure (rh_number (sh_header (bo_header (ex_artifacts (last execution_cache))))
            = bi_claimed_l2_block_number boot) ''assert terminating block number'') (\<lambda>_.
        and_then (verify_executions E s (bi_agreed_l2_output_root boot) execution_cache) (\<lambda>root.
        Inr (precondition, Some root)))))))"

text \<open>The derivation loop over the starting blocks from the safe head to the claim.\<close>

fun derive_outputs ::
  "('o, 'p, 's, 'x, 'c, 'i, 'l, 'd) kona \<Rightarrow> rollup_config \<Rightarrow> 'd \<Rightarrow> u64 \<Rightarrow> nat \<Rightarrow> B256 list result" where
  "derive_outputs K config driver starting_block 0 = Inr []"
| "derive_outputs K config driver starting_block (Suc n) =
     with_state (map_result (\<lambda>r. err_context r ''advance_to_target'')
         (k_advance_to_target K (cached_ops (k_executor K)) driver config (starting_block + 1)))
       (\<lambda>driver (number, output_root).
     if number = starting_block then Inr []
     else and_then (derive_outputs K config driver (starting_block + 1) n)
            (\<lambda>output_roots. Inr (output_root # output_roots)))"

definition core_epilogue ::
  "('o, 'p) guest_env \<Rightarrow> boot_info \<Rightarrow> u64 \<Rightarrow> nat \<Rightarrow>
   (precondition_validation_data \<times> blob list) option \<Rightarrow> B256 list \<Rightarrow> (B256 \<times> B256 option) result" where
  "core_epilogue G boot safe_head_number expected_output_count precondition_data output_roots =
     and_then (err_context
       (case precondition_data of
          None \<Rightarrow> Inr 0
        | Some (d, blobs) \<Rightarrow>
            validate_precondition (ge_build G) (ge_sha G) d blobs safe_head_number output_roots)
       ''validate_precondition'') (\<lambda>precondition.
     if length output_roots \<noteq> expected_output_count then Inr (precondition, None)
     else if output_roots = [] then Inr (precondition, Some (bi_agreed_l2_output_root boot))
     else Inr (precondition, Some (last output_roots)))"

definition run_derivation ::
  "('o, 'p) guest_env \<Rightarrow> ('o, 'p, 's, 'x, 'c, 'i, 'l, 'd) kona \<Rightarrow> B256 \<Rightarrow> boot_info \<Rightarrow> sealed_header \<Rightarrow>
   'o local_once_oracle \<Rightarrow> 'o l1_provider \<Rightarrow> 'p \<Rightarrow> nat \<Rightarrow> 'x execution list \<Rightarrow>
   'x execution list option \<Rightarrow> (B256 \<times> B256 option) result" where
  "run_derivation G K data_hash boot safe_head oracle l1_provider beacon expected_output_count
     execution_cache collection_target =
     (let config = bi_rollup_config boot; safe_head_number = rh_number (sh_header safe_head)
      in case load_precondition_data (local_get (ge_get G)) (ge_get_blobs G) (ge_pot_from_slice G)
           data_hash oracle beacon of (oracle, beacon, r) \<Rightarrow>
         and_then (err_context r ''load_precondition_data'') (\<lambda>precondition_data.
         with_state (map_result (\<lambda>r. err_context r ''new_oracle_pipeline_cursor'')
             (k_new_oracle_pipeline_cursor K config safe_head l1_provider oracle))
           (\<lambda>(l1_provider, oracle) cursor.
         and_then (err_context (k_pipeline_new K config cursor oracle l1_provider beacon)
           ''OraclePipeline::new'') (\<lambda>pipeline.
         let executor = \<lparr>ce_cache = rev execution_cache,
               ce_executor = k_executor_new K config oracle cursor,
               ce_collection_target = collection_target\<rparr>;
             driver = k_driver_new K cursor executor pipeline
         in and_then (derive_outputs K config driver safe_head_number
              (unat (bi_claimed_l2_block_number boot - safe_head_number))) (\<lambda>output_roots.
            core_epilogue G boot safe_head_number expected_output_count precondition_data
              output_roots)))))"

definition check_claim :: "boot_info \<Rightarrow> B256 option \<Rightarrow> unit result" where
  "check_claim boot output_hash =
     (case output_hash of
        Some computed_output \<Rightarrow>
          ensure (bi_claimed_l2_output_root boot = computed_output) ''assert claimed_l2_output_root''
      | None \<Rightarrow> if bi_claimed_l2_output_root boot \<noteq> 0 then bail L1_HEAD_INSUFFICIENT else Inr ())"

definition run_core_client ::
  "('o, 'p) guest_env \<Rightarrow> ('o, 'p, 's, 'x, 'c, 'i, 'l, 'd) kona \<Rightarrow> B256 \<Rightarrow> 'o \<Rightarrow> 'o \<Rightarrow> 'p \<Rightarrow>
   'x execution list \<Rightarrow> 'x execution list option \<Rightarrow> (boot_info \<times> B256) result" where
  "run_core_client G K data_hash oracle stream beacon execution_cache collection_target =
     with_state (map_result (\<lambda>r. err_context r ''BootInfo::load'') (k_boot_load K (local_once_new oracle)))
       (\<lambda>oracle boot.
     and_then (ensure (bi_chain_id boot = rc_l2_chain_id (bi_rollup_config boot)) ''assert chain_id'') (\<lambda>_.
     with_state (fetch_safe_head_hash (local_get_exact (ge_get_exact G)) oracle
         (bi_agreed_l2_output_root boot)) (\<lambda>oracle safe_head_hash.
     and_then (l1_new (ge_get G) (ge_header_decode G) (bi_l1_head boot) stream) (\<lambda>l1_provider.
     with_state (k_l2_header_by_hash K oracle safe_head_hash) (\<lambda>oracle header.
     let safe_head = seal header safe_head_hash
     in if bi_claimed_l2_block_number boot < rh_number header then bail ''Invalid claim''
        else let expected_output_count =
               as_usize (ge_build G) (bi_claimed_l2_block_number boot - rh_number header)
        in and_then
             (if bi_l1_head boot = 0
              then run_execution_only G K boot safe_head oracle expected_output_count execution_cache
              else run_derivation G K data_hash boot safe_head oracle l1_provider beacon
                     expected_output_count execution_cache collection_target)
             (\<lambda>(precondition, output_hash).
              and_then (check_claim boot output_hash) (\<lambda>_. Inr (boot, precondition))))))))"

text \<open>The collected executions, each claiming what the next one agrees to.\<close>

fun recover_collected_executions :: "'x execution list \<Rightarrow> B256 \<Rightarrow> 'x execution list" where
  "recover_collected_executions [] claimed = []"
| "recover_collected_executions [e] claimed = [e\<lparr>ex_claimed_output := claimed\<rparr>]"
| "recover_collected_executions (e # f # es) claimed =
     e\<lparr>ex_claimed_output := ex_agreed_output f\<rparr> # recover_collected_executions (f # es) claimed"

section \<open>Runs that succeed\<close>

lemma with_state_eq_Inr [res_simps]:
  "with_state m f = Inr y \<longleftrightarrow> (\<exists>s x. m = (s, Inr x) \<and> f s x = Inr y)"
  by (cases m) (auto simp: with_state_def res_simps)

lemma with_state_simps [simp]:
  "with_state (s, Inr x) f = f s x" "with_state (s, Inl e) f = Inl e" "map_result g (s, r) = (s, g r)"
  by (simp_all add: with_state_def map_result_def)

lemma map_result_eq: "map_result f m = (s, r) \<longleftrightarrow> (\<exists>r'. m = (s, r') \<and> r = f r')"
  by (cases m) (auto simp: map_result_def)

lemma map_context_eq_Inr [res_simps]:
  "map_result (\<lambda>r. err_context r c) m = (s, Inr x) \<longleftrightarrow> m = (s, Inr x)"
  by (cases m) (auto simp: map_result_def res_simps)

lemma check_claim_eq_Inr [res_simps]:
  "check_claim boot out = Inr u \<longleftrightarrow>
     (case out of Some computed \<Rightarrow> bi_claimed_l2_output_root boot = computed
      | None \<Rightarrow> bi_claimed_l2_output_root boot = 0)"
  by (auto simp: check_claim_def res_simps split: option.splits)

text \<open>
  Where a run starts. The agreed safe head is read through the oracle: the boot information, the
  preimage of the agreed output root, which names the hash, and the header with this hash. Execution
  starts with a fresh executor for the cursor at this head, which is told of the head.
\<close>

definition agreed_safe_head ::
  "('o, 'p) guest_env \<Rightarrow> ('o, 'p, 's, 'x, 'c, 'i, 'l, 'd) kona \<Rightarrow> 'o \<Rightarrow> boot_info \<Rightarrow>
   'o local_once_oracle \<Rightarrow> sealed_header \<Rightarrow> bool" where
  "agreed_safe_head G K oracle boot oracle' safe_head \<longleftrightarrow>
     (\<exists>o1 o2. k_boot_load K (local_once_new oracle) = (o1, Inr boot) \<and>
        fetch_safe_head_hash (local_get_exact (ge_get_exact G)) o1 (bi_agreed_l2_output_root boot) =
          (o2, Inr (sh_hash safe_head)) \<and>
        k_l2_header_by_hash K o2 (sh_hash safe_head) = (oracle', Inr (sh_header safe_head)))"

definition execution_start ::
  "('o, 'p) guest_env \<Rightarrow> ('o, 'p, 's, 'x, 'c, 'i, 'l, 'd) kona \<Rightarrow> 'o \<Rightarrow> boot_info \<Rightarrow>
   sealed_header \<Rightarrow> 's \<Rightarrow> bool" where
  "execution_start G K oracle boot safe_head s \<longleftrightarrow>
     (\<exists>oracle' oracle'' cursor. agreed_safe_head G K oracle boot oracle' safe_head \<and>
        new_execution_cursor (k_l2_block_info_by_number K) (k_info_timestamp K) (k_channel_timeout K)
          (k_cursor_new K) (k_cursor_advance K) (bi_rollup_config boot) safe_head oracle' =
          (oracle'', Inr cursor) \<and>
        s = op_update_safe_head (k_executor K)
          (k_executor_new K (bi_rollup_config boot) oracle'' cursor) safe_head)"

text \<open>
  One run of the executor over a trace, from a state and an output root: each block is built from
  the state the block before left, with the recorded outcome, and the output root is recomputed
  after the executor is told of the block.
\<close>

fun execution_chain ::
  "('s, 'x) executor_ops \<Rightarrow> 's \<Rightarrow> B256 \<Rightarrow> 'x execution list \<Rightarrow> B256 \<Rightarrow> bool" where
  "execution_chain E s agreed [] claimed \<longleftrightarrow> claimed = agreed"
| "execution_chain E s agreed (e # es) claimed \<longleftrightarrow>
     ex_agreed_output e = agreed \<and>
     (\<exists>s1 s2. op_execute_payload E s (ex_attributes e) = (s1, Inr (ex_artifacts e)) \<and>
        op_compute_output_root E (op_update_safe_head E s1 (bo_header (ex_artifacts e))) =
          (s2, Inr (ex_claimed_output e)) \<and>
        execution_chain E s2 (ex_claimed_output e) es claimed)"

lemma verify_executions_chain:
  fixes es :: "'x execution list"
  shows "verify_executions E s latest es = Inr root \<Longrightarrow> execution_chain E s latest es root"
proof (induction es arbitrary: s latest)
  case Nil
  then show ?case by simp
next
  case (Cons e es)
  then obtain s1 out s2 where e: "ex_agreed_output e = latest"
      and exec: "op_execute_payload E s (ex_attributes e) = (s1, Inr out)"
      and same: "bo_header (ex_artifacts e) = bo_header out"
        "bo_execution_result (ex_artifacts e) = bo_execution_result out"
      and root: "op_compute_output_root E (op_update_safe_head E s1 (bo_header (ex_artifacts e))) =
        (s2, Inr (ex_claimed_output e))"
      and rest: "verify_executions E s2 (ex_claimed_output e) es = Inr root"
    by (auto simp: res_simps)
  have "ex_artifacts e = out" using same by (simp add: block_building_outcome.equality)
  with e exec root Cons.IH [OF rest] show ?case by auto
qed

lemma seal_sel [simp]: "sh_header (seal header h) = header" "sh_hash (seal header h) = h"
  by (simp_all add: seal_def)

text \<open>The prologue shared by both modes.\<close>

lemma run_core_client_prologue:
  assumes "run_core_client G K data_hash oracle stream beacon cache target = Inr (boot, pre)"
  obtains o1 o2 o3 safe_head_hash l1 header out where
    "k_boot_load K (local_once_new oracle) = (o1, Inr boot)"
    "bi_chain_id boot = rc_l2_chain_id (bi_rollup_config boot)"
    "fetch_safe_head_hash (local_get_exact (ge_get_exact G)) o1 (bi_agreed_l2_output_root boot) =
      (o2, Inr safe_head_hash)"
    "l1_new (ge_get G) (ge_header_decode G) (bi_l1_head boot) stream = Inr l1"
    "k_l2_header_by_hash K o2 safe_head_hash = (o3, Inr header)"
    "rh_number header \<le> bi_claimed_l2_block_number boot"
    "(if bi_l1_head boot = 0
      then run_execution_only G K boot (seal header safe_head_hash) o3
        (as_usize (ge_build G) (bi_claimed_l2_block_number boot - rh_number header)) cache
      else run_derivation G K data_hash boot (seal header safe_head_hash) o3 l1 beacon
        (as_usize (ge_build G) (bi_claimed_l2_block_number boot - rh_number header)) cache target)
      = Inr (pre, out)"
    "check_claim boot out = Inr ()"
proof -
  note run = assms [unfolded run_core_client_def Let_def]
  from run obtain o1 boot' where 1: "k_boot_load K (local_once_new oracle) = (o1, Inr boot')"
    by (auto simp: res_simps)
  from run 1 obtain o2 h where 2: "bi_chain_id boot' = rc_l2_chain_id (bi_rollup_config boot')"
      "fetch_safe_head_hash (local_get_exact (ge_get_exact G)) o1 (bi_agreed_l2_output_root boot') = (o2, Inr h)"
    by (auto simp: res_simps)
  from run 1 2 obtain l1 o3 header where 3:
      "l1_new (ge_get G) (ge_header_decode G) (bi_l1_head boot') stream = Inr l1"
      "k_l2_header_by_hash K o2 h = (o3, Inr header)"
    by (auto simp: res_simps)
  from run 1 2 3 have 4: "rh_number header \<le> bi_claimed_l2_block_number boot'"
    by (auto simp: res_simps not_less split: if_splits)
  let ?mode = "if bi_l1_head boot' = 0
      then run_execution_only G K boot' (seal header h) o3
        (as_usize (ge_build G) (bi_claimed_l2_block_number boot' - rh_number header)) cache
      else run_derivation G K data_hash boot' (seal header h) o3 l1 beacon
        (as_usize (ge_build G) (bi_claimed_l2_block_number boot' - rh_number header)) cache target"
  have "and_then ?mode (\<lambda>(precondition, output_hash).
      and_then (check_claim boot' output_hash) (\<lambda>_. Inr (boot', precondition))) = Inr (boot, pre)"
    using run 4 by (simp add: 1 2 3 leD split del: if_split)
  then obtain out where "boot' = boot" "?mode = Inr (pre, out)" "check_claim boot out = Inr ()"
    by (auto simp: res_simps)
  with that 1 2 3 4 show ?thesis by blast
qed

lemma run_execution_only_sound:
  assumes "run_execution_only G K boot safe_head oracle' n cache = Inr (pre, out)"
    and "agreed_safe_head G K oracle boot oracle' safe_head"
  shows "cache \<noteq> [] \<and> n = length cache \<and> exec_precondition_hash (ge_sha G) (ge_rlp G) cache = Inr pre \<and>
    rh_number (sh_header (bo_header (ex_artifacts (last cache)))) = bi_claimed_l2_block_number boot \<and>
    (\<exists>s root. execution_start G K oracle boot safe_head s \<and> out = Some root \<and>
      execution_chain (k_executor K) s (bi_agreed_l2_output_root boot) cache root)"
proof -
  let ?s = "\<lambda>oracle'' cursor. op_update_safe_head (k_executor K)
    (k_executor_new K (bi_rollup_config boot) oracle'' cursor) safe_head"
  from assms(1) obtain oracle'' cursor root where
      cursor: "new_execution_cursor (k_l2_block_info_by_number K) (k_info_timestamp K) (k_channel_timeout K)
        (k_cursor_new K) (k_cursor_advance K) (bi_rollup_config boot) safe_head oracle' = (oracle'', Inr cursor)"
      and trace: "cache \<noteq> []" "n = length cache" "exec_precondition_hash (ge_sha G) (ge_rlp G) cache = Inr pre"
        "rh_number (sh_header (bo_header (ex_artifacts (last cache)))) = bi_claimed_l2_block_number boot"
      and root: "verify_executions (k_executor K) (?s oracle'' cursor) (bi_agreed_l2_output_root boot) cache = Inr root"
        "out = Some root"
    by (auto simp: run_execution_only_def Let_def res_simps)
  have "execution_start G K oracle boot safe_head (?s oracle'' cursor)"
    unfolding execution_start_def using assms(2) cursor by blast
  with trace root(2) verify_executions_chain [OF root(1)] show ?thesis by blast
qed

text \<open>
  Steps of the driver: each advances to the next block and reports a block other than the one it
  started from. A run of the loop is a sequence of such steps, and stops early only when the driver
  reports the block it started from.
\<close>

inductive derives ::
  "('o, 'p, 's, 'x, 'c, 'i, 'l, 'd) kona \<Rightarrow> rollup_config \<Rightarrow> 'd \<Rightarrow> u64 \<Rightarrow> B256 list \<Rightarrow> 'd \<Rightarrow> bool"
  for K config where
  derives_done: "derives K config d start [] d"
| derives_step: "k_advance_to_target K (cached_ops (k_executor K)) d config (start + 1) = (d1, Inr (number, root)) \<Longrightarrow>
    number \<noteq> start \<Longrightarrow> derives K config d1 (start + 1) roots d2 \<Longrightarrow>
    derives K config d start (root # roots) d2"

inductive_simps derives_Nil [simp]: "derives K config d start [] d'"
inductive_simps derives_Cons: "derives K config d start (root # roots) d'"

definition halted :: "('o, 'p, 's, 'x, 'c, 'i, 'l, 'd) kona \<Rightarrow> rollup_config \<Rightarrow> 'd \<Rightarrow> u64 \<Rightarrow> bool" where
  "halted K config d start \<longleftrightarrow>
     (\<exists>d' root. k_advance_to_target K (cached_ops (k_executor K)) d config (start + 1) = (d', Inr (start, root)))"

lemma derive_outputs_derives:
  "derive_outputs K config d start n = Inr roots \<Longrightarrow>
     length roots \<le> n \<and> (\<exists>d'. derives K config d start roots d' \<and>
       (length roots < n \<longrightarrow> halted K config d' (start + of_nat (length roots))))"
proof (induction K config d start n arbitrary: roots rule: derive_outputs.induct)
  case (1 K config d start)
  then show ?case by simp
next
  case (2 K config d start n)
  from "2.prems" obtain d1 number root where
      adv: "k_advance_to_target K (cached_ops (k_executor K)) d config (start + 1) = (d1, Inr (number, root))"
      and rest: "(if number = start then Inr []
        else and_then (derive_outputs K config d1 (start + 1) n) (\<lambda>rs. Inr (root # rs))) = Inr roots"
    by (auto simp: res_simps split: prod.splits)
  show ?case
  proof (cases "number = start")
    case True
    with adv rest show ?thesis by (auto simp: halted_def)
  next
    case False
    with rest obtain rs where rs: "derive_outputs K config d1 (start + 1) n = Inr rs" "roots = root # rs"
      by (auto simp: res_simps)
    from "2.IH" [OF False rs(1)] rs(2) adv False show ?thesis
      by (auto simp: add.assoc derives_Cons intro: derives_step)
  qed
qed

lemma core_epilogue_sound:
  assumes "core_epilogue G boot safe_n n data roots = Inr (pre, out)"
  shows "(case data of None \<Rightarrow> pre = 0
      | Some (d, blobs) \<Rightarrow> validate_precondition (ge_build G) (ge_sha G) d blobs safe_n roots = Inr pre) \<and>
    out = (if length roots \<noteq> n then None else Some (last (bi_agreed_l2_output_root boot # roots)))"
  using assms by (auto simp: core_epilogue_def res_simps split: option.splits if_splits)

lemma run_derivation_sound:
  assumes "run_derivation G K data_hash boot safe_head oracle l1 beacon n cache target = Inr (pre, out)"
  obtains oracle' beacon' data l1' oracle'' cursor pipeline roots where
    "load_precondition_data (local_get (ge_get G)) (ge_get_blobs G) (ge_pot_from_slice G) data_hash oracle beacon
      = (oracle', beacon', Inr data)"
    "derive_outputs K (bi_rollup_config boot)
      (k_driver_new K cursor \<lparr>ce_cache = rev cache,
         ce_executor = k_executor_new K (bi_rollup_config boot) oracle'' cursor,
         ce_collection_target = target\<rparr> pipeline)
      (rh_number (sh_header safe_head))
      (unat (bi_claimed_l2_block_number boot - rh_number (sh_header safe_head))) = Inr roots"
    "core_epilogue G boot (rh_number (sh_header safe_head)) n data roots = Inr (pre, out)"
    "k_pipeline_new K (bi_rollup_config boot) cursor oracle'' l1' beacon' = Inr pipeline"
    "k_new_oracle_pipeline_cursor K (bi_rollup_config boot) safe_head l1 oracle' = ((l1', oracle''), Inr cursor)"
  using assms
  by (auto simp: run_derivation_def Let_def res_simps split: prod.splits)

text \<open>What a successful derivation shows of the claim, for both builds.\<close>

definition claim_derived ::
  "('o, 'p, 's, 'x, 'c, 'i, 'l, 'd) kona \<Rightarrow> boot_info \<Rightarrow> 'd \<Rightarrow> u64 \<Rightarrow> B256 list \<Rightarrow> bool" where
  "claim_derived K boot driver safe_n roots \<longleftrightarrow>
     (\<exists>driver'. derives K (bi_rollup_config boot) driver safe_n roots driver' \<and>
        (if unat safe_n + length roots = unat (bi_claimed_l2_block_number boot)
         then bi_claimed_l2_output_root boot = last (bi_agreed_l2_output_root boot # roots)
         else unat safe_n + length roots < unat (bi_claimed_l2_block_number boot) \<and>
           bi_claimed_l2_output_root boot = 0 \<and>
           halted K (bi_rollup_config boot) driver' (safe_n + of_nat (length roots))))"

lemma derive_outputs_claim:
  assumes roots: "derive_outputs K (bi_rollup_config boot) driver safe_n
      (unat (bi_claimed_l2_block_number boot - safe_n)) = Inr roots"
    and le: "safe_n \<le> bi_claimed_l2_block_number boot"
    and small: "unat (bi_claimed_l2_block_number boot) < 2 ^ usize_bits T"
    and out: "out = (if length roots \<noteq> as_usize T (bi_claimed_l2_block_number boot - safe_n) then None
      else Some (last (bi_agreed_l2_output_root boot # roots)))"
    and claim: "check_claim boot out = Inr ()"
  shows "claim_derived K boot driver safe_n roots"
proof -
  let ?n = "unat (bi_claimed_l2_block_number boot - safe_n)"
  have n: "?n = unat (bi_claimed_l2_block_number boot) - unat safe_n" using le by (rule unat_sub)
  then have "as_usize T (bi_claimed_l2_block_number boot - safe_n) = ?n"
    using small by (simp add: as_usize_def less_imp_diff_less)
  moreover have "unat safe_n \<le> unat (bi_claimed_l2_block_number boot)" using le by (simp add: word_le_nat_alt)
  ultimately show ?thesis
    using derive_outputs_derives [OF roots] n out claim
    by (auto simp: claim_derived_def res_simps split: if_splits option.splits)
qed

text \<open>
  Where a derivation starts: at the agreed safe head, with the precondition data loaded after it was
  read, and a driver over the pipeline, whose executor is a fresh one behind the given cache.
\<close>

definition derivation_start ::
  "('o, 'p) guest_env \<Rightarrow> ('o, 'p, 's, 'x, 'c, 'i, 'l, 'd) kona \<Rightarrow> B256 \<Rightarrow> 'o \<Rightarrow> 'o \<Rightarrow> 'p \<Rightarrow>
   'x execution list \<Rightarrow> 'x execution list option \<Rightarrow> boot_info \<Rightarrow>
   (precondition_validation_data \<times> blob list) option \<Rightarrow> sealed_header \<Rightarrow> 'd \<Rightarrow> bool" where
  "derivation_start G K data_hash oracle stream beacon cache target boot data safe_head driver \<longleftrightarrow>
     (\<exists>o1 o2 o3 beacon' l1 l1' cursor pipeline.
        agreed_safe_head G K oracle boot o1 safe_head \<and>
        l1_new (ge_get G) (ge_header_decode G) (bi_l1_head boot) stream = Inr l1 \<and>
        load_precondition_data (local_get (ge_get G)) (ge_get_blobs G) (ge_pot_from_slice G) data_hash
          o1 beacon = (o2, beacon', Inr data) \<and>
        k_new_oracle_pipeline_cursor K (bi_rollup_config boot) safe_head l1 o2 = ((l1', o3), Inr cursor) \<and>
        k_pipeline_new K (bi_rollup_config boot) cursor o3 l1' beacon' = Inr pipeline \<and>
        driver = k_driver_new K cursor \<lparr>ce_cache = rev cache,
          ce_executor = k_executor_new K (bi_rollup_config boot) o3 cursor,
          ce_collection_target = target\<rparr> pipeline)"

lemma derivation_run:
  assumes run: "run_core_client G K data_hash oracle stream beacon cache target = Inr (boot, pre)"
    and head: "bi_l1_head boot \<noteq> 0"
    and small: "unat (bi_claimed_l2_block_number boot) < 2 ^ usize_bits (ge_build G)"
  obtains data safe_head driver roots where
    "derivation_start G K data_hash oracle stream beacon cache target boot data safe_head driver"
    "claim_derived K boot driver (rh_number (sh_header safe_head)) roots"
    "case data of None \<Rightarrow> pre = 0
      | Some (d, blobs) \<Rightarrow> validate_precondition (ge_build G) (ge_sha G) d blobs
          (rh_number (sh_header safe_head)) roots = Inr pre"
  using run
proof (cases rule: run_core_client_prologue)
  case (1 o1 o2 o3 h l1 header out)
  have start: "agreed_safe_head G K oracle boot o3 (seal header h)"
    unfolding agreed_safe_head_def seal_sel using 1(1,3,5) by blast
  let ?n = "as_usize (ge_build G) (bi_claimed_l2_block_number boot - rh_number header)"
  have "run_derivation G K data_hash boot (seal header h) o3 l1 beacon ?n cache target = Inr (pre, out)"
    using 1(7) head by simp
  then show ?thesis
  proof (cases rule: run_derivation_sound)
    case (1 oracle' beacon' data l1' oracle'' cursor pipeline roots)
    note ep = core_epilogue_sound [OF 1(3) [unfolded seal_sel]]
    let ?driver = "k_driver_new K cursor \<lparr>ce_cache = rev cache,
        ce_executor = k_executor_new K (bi_rollup_config boot) oracle'' cursor,
        ce_collection_target = target\<rparr> pipeline"
    have "claim_derived K boot ?driver (rh_number header) roots"
      using derive_outputs_claim [OF 1(2) [unfolded seal_sel] _ small conjunct2 [OF ep]]
        \<open>check_claim boot out = Inr ()\<close> \<open>rh_number header \<le> bi_claimed_l2_block_number boot\<close> by simp
    moreover have "derivation_start G K data_hash oracle stream beacon cache target boot data
        (seal header h) ?driver"
      unfolding derivation_start_def
      using start \<open>l1_new _ _ _ _ = Inr l1\<close> 1(1,4,5) by blast
    moreover note conjunct1 [OF ep]
    ultimately show ?thesis by (intro that [of data "seal header h" ?driver roots, unfolded seal_sel])
  qed
qed

text \<open>
  The starting points are determined by the inputs, and so are the output roots: two derivations of a
  claim from the same driver cannot differ, and in particular none of them leaves out a root.
\<close>

lemma agreed_safe_head_unique:
  assumes "agreed_safe_head G K oracle boot o1 h1" and "agreed_safe_head G K oracle boot o2 h2"
  shows "o1 = o2 \<and> h1 = h2"
  using assms by (auto simp: agreed_safe_head_def sealed_header.equality)

lemma execution_start_unique:
  assumes "execution_start G K oracle boot h1 s1" and "execution_start G K oracle boot h2 s2"
  shows "h1 = h2 \<and> s1 = s2"
  using assms agreed_safe_head_unique unfolding execution_start_def by (metis Pair_inject sum.inject(2))

lemma derivation_start_unique:
  assumes "derivation_start G K data_hash oracle stream beacon cache target boot data1 h1 d1"
    and "derivation_start G K data_hash oracle stream beacon cache target boot data2 h2 d2"
  shows "data1 = data2 \<and> h1 = h2 \<and> d1 = d2"
proof -
  from assms obtain o1 o2 where
      h: "agreed_safe_head G K oracle boot o1 h1" "agreed_safe_head G K oracle boot o2 h2"
    by (auto simp: derivation_start_def)
  then have "h1 = h2" using agreed_safe_head_unique [OF h] by simp
  moreover have "o1 = o2" if "agreed_safe_head G K oracle boot o1 h2" "agreed_safe_head G K oracle boot o2 h2" for o1 o2
    using agreed_safe_head_unique [OF that] by simp
  ultimately show ?thesis using assms unfolding derivation_start_def by (metis Pair_inject sum.inject(2))
qed

lemma derives_prefix:
  assumes "derives K config d start xs d1" and "derives K config d start ys d2" and "length xs \<le> length ys"
  shows "\<exists>zs. ys = xs @ zs \<and> derives K config d1 (start + of_nat (length xs)) zs d2"
  using assms
proof (induction arbitrary: ys rule: derives.induct)
  case (derives_step d start d' number root roots d1)
  then obtain y ys' where ys: "ys = y # ys'" by (cases ys) auto
  with derives_step.prems(1) derives_step.hyps(1) have "y = root" "derives K config d' (start + 1) ys' d2"
    by (auto simp: derives_Cons)
  with derives_step.IH [of ys'] derives_step.prems(2) ys show ?case by (simp add: add.assoc)
qed simp

lemma claim_derived_unique:
  assumes "claim_derived K boot driver safe_n xs" and "claim_derived K boot driver safe_n ys"
  shows "xs = ys"
proof -
  have "us = vs" if u: "claim_derived K boot driver safe_n us" and v: "claim_derived K boot driver safe_n vs"
    and less: "length us \<le> length vs" for us vs
  proof -
    from u obtain d1 where d1: "derives K (bi_rollup_config boot) driver safe_n us d1"
        "unat safe_n + length us < unat (bi_claimed_l2_block_number boot) \<Longrightarrow>
          halted K (bi_rollup_config boot) d1 (safe_n + of_nat (length us))"
      by (auto simp: claim_derived_def split: if_splits)
    from v obtain d2 where d2: "derives K (bi_rollup_config boot) driver safe_n vs d2"
        "unat safe_n + length vs \<le> unat (bi_claimed_l2_block_number boot)"
      by (auto simp: claim_derived_def split: if_splits)
    from derives_prefix [OF d1(1) d2(1) less] obtain zs where
        zs: "vs = us @ zs" "derives K (bi_rollup_config boot) d1 (safe_n + of_nat (length us)) zs d2" by blast
    show ?thesis
    proof (cases zs)
      case (Cons z zs')
      then have "halted K (bi_rollup_config boot) d1 (safe_n + of_nat (length us))"
        using d1(2) d2(2) zs(1) by simp
      with zs(2) Cons show ?thesis by (auto simp: halted_def derives_Cons)
    qed (use zs(1) in simp)
  qed
  then show ?thesis using assms nat_le_linear by metis
qed

section \<open>The guest's client\<close>

text \<open>The parts of \<open>kona\<close> that read through the oracle keep its invariant.\<close>

definition keeps_inv ::
  "('o local_once_oracle \<Rightarrow> bool) \<Rightarrow> ('o, 'p, 's, 'x, 'c, 'i, 'l, 'd) kona \<Rightarrow> bool" where
  "keeps_inv oinv K \<longleftrightarrow>
     (\<forall>s s' r. oinv s \<longrightarrow> k_boot_load K s = (s', r) \<longrightarrow> oinv s') \<and>
     (\<forall>s h s' r. oinv s \<longrightarrow> k_l2_header_by_hash K s h = (s', r) \<longrightarrow> oinv s')"

lemma local_get_exact_inv:
  assumes "local_inv (vec_inv kec sha) s"
    and "local_get_exact (vec_get_exact kec sha) s key n = (s', Inr v)"
  shows "local_inv (vec_inv kec sha) s'"
proof -
  have exact: "vec_inv kec sha o'" if "vec_inv kec sha q" "vec_get_exact kec sha q key n = (o', Inr v)" for q o' v
    using that by (auto simp: vec_get_exact_def Let_def res_simps split: prod.splits dest: vec_get_inv)
  show ?thesis
    using assms by (auto simp: local_get_exact_def local_inv_def Let_def
        split: if_splits prod.splits option.splits sum.splits dest: exact)
qed

lemma fetch_safe_head_hash_inv:
  assumes "local_inv (vec_inv kec sha) s"
    and "fetch_safe_head_hash (local_get_exact (vec_get_exact kec sha)) s root = (s', Inr h)"
  shows "local_inv (vec_inv kec sha) s'"
  using assms local_get_exact_inv
  by (fastforce simp: fetch_safe_head_hash_def map_result_def res_simps split: prod.splits)

lemma agreed_safe_head_inv:
  assumes "agreed_safe_head G K oracle boot oracle' safe_head"
    and "ge_get_exact G = vec_get_exact kec sha" and "keeps_inv (local_inv (vec_inv kec sha)) K"
    and "vec_inv kec sha oracle"
  shows "local_inv (vec_inv kec sha) oracle'"
proof -
  from assms(1) obtain o1 o2 where
      1: "k_boot_load K (local_once_new oracle) = (o1, Inr boot)"
      and 2: "fetch_safe_head_hash (local_get_exact (vec_get_exact kec sha)) o1
        (bi_agreed_l2_output_root boot) = (o2, Inr (sh_hash safe_head))"
      and 3: "k_l2_header_by_hash K o2 (sh_hash safe_head) = (oracle', Inr (sh_header safe_head))"
    unfolding agreed_safe_head_def assms(2) by blast
  have "local_inv (vec_inv kec sha) (local_once_new oracle)"
    using assms(4) by (simp add: local_inv_def local_once_new_def)
  then have "local_inv (vec_inv kec sha) o1" using assms(3) 1 unfolding keeps_inv_def by blast
  then have "local_inv (vec_inv kec sha) o2" using 2 by (rule fetch_safe_head_hash_inv)
  then show ?thesis using assms(3) 3 unfolding keeps_inv_def by blast
qed

lemma preloaded_from_inv_wf:
  assumes "preloaded_from Z w = Inr p" and "batch_sound Z verified" and "\<forall>b \<in> set (bw_blobs w). blob_wf b"
  shows "preloaded_inv (\<lambda>h b. blob_opens Z verified h b \<and> blob_wf b) p"
proof -
  have "\<forall>(h, b) \<in> set (remaining p). blob_wf b"
    unfolding preloaded_from_entries(2) [OF assms(1)] using assms(3) by (auto dest: set_zip_rightD)
  then show ?thesis
    using preloaded_from_inv [OF assms(1,2)] by (auto simp: preloaded_inv_def remaining_def)
qed

text \<open>The outputs a proof computed, against the proposal its precondition describes.\<close>

definition outputs_published ::
  "precondition_validation_data \<Rightarrow> blob list \<Rightarrow> u64 \<Rightarrow> B256 list \<Rightarrow> bool" where
  "outputs_published d blobs safe_n roots \<longleftrightarrow>
     (let first = proposal_l2_head_number d; cnt = proposal_output_count d; span = output_block_span d
      in first \<le> safe_n \<and> unat safe_n + length roots \<le> unat first + unat cnt * unat span \<and>
         (\<forall>k. covers first cnt span safe_n (length roots) k \<longrightarrow>
            output_ok blobs (unat cnt) k (roots ! (unat first + k * unat span - unat safe_n - 1))))"

definition proposal_in_bounds :: "precondition_validation_data \<Rightarrow> bool" where
  "proposal_in_bounds d \<longleftrightarrow> unat (proposal_output_count d) \<le> 2 ^ 44 \<and>
     unat (proposal_l2_head_number d) + unat (proposal_output_count d) * unat (output_block_span d) < 2 ^ 64"

lemma outputs_published_iff:
  assumes "\<forall>b \<in> set blobs. blob_wf b" and "32 \<le> usize_bits T" and "proposal_in_bounds d"
    and "unat safe_n + length roots < 2 ^ 64"
  shows "validate_precondition T sha d blobs safe_n roots = Inr h \<longleftrightarrow>
    h = precondition_hash sha d \<and> outputs_published d blobs safe_n roots"
proof (cases d)
  case (Validity first cnt span requests)
  then have "in_range T first cnt span safe_n (length roots)"
    using assms(2-) by (simp add: in_range_def proposal_in_bounds_def)
  from validate_precondition_eq_Inr [OF assms(1) this] Validity show ?thesis
    by (simp add: outputs_published_def)
qed

lemma execution_only_chain:
  assumes "run_core_client G K data_hash oracle stream beacon cache target = Inr (boot, pre)"
    and "bi_l1_head boot = 0"
  shows "cache \<noteq> [] \<and> exec_precondition_hash (ge_sha G) (ge_rlp G) cache = Inr pre \<and>
    rh_number (sh_header (bo_header (ex_artifacts (last cache)))) = bi_claimed_l2_block_number boot \<and>
    (\<exists>safe_head s. execution_start G K oracle boot safe_head s \<and>
      execution_chain (k_executor K) s (bi_agreed_l2_output_root boot) cache
        (bi_claimed_l2_output_root boot) \<and>
      rh_number (sh_header safe_head) \<le> bi_claimed_l2_block_number boot \<and>
      length cache = as_usize (ge_build G)
        (bi_claimed_l2_block_number boot - rh_number (sh_header safe_head)))"
  using assms(1)
proof (cases rule: run_core_client_prologue)
  case (1 o1 o2 o3 safe_head_hash l1 header out)
  have "agreed_safe_head G K oracle boot o3 (seal header safe_head_hash)"
    unfolding agreed_safe_head_def seal_sel using 1(1,3,5) by blast
  from run_execution_only_sound [OF _ this] 1(6,7,8) assms(2) seal_sel show ?thesis
    by (fastforce simp: res_simps)
qed

section \<open>Properties\<close>

text \<open>
  C6. An execution-only proof is a proof of its trace: when the core client succeeds with a zero L1
  head, it read the agreed safe head through the oracle and ran the executor once over the whole
  trace, from the executor state for this head and the agreed output root to the claimed output
  root: every block was built from the state the block before left, with the recorded outcome, and
  every output root recomputed. The trace is not empty, as long as the range from the safe head to
  the claimed block and ends at that block; and the precondition returned is the commitment to
  exactly this trace.
\<close>

theorem execution_only_sound:
  assumes "run_core_client G K data_hash oracle stream beacon cache target = Inr (boot, pre)"
    and "bi_l1_head boot = 0"
  shows "cache \<noteq> [] \<and> exec_precondition_hash (ge_sha G) (ge_rlp G) cache = Inr pre \<and>
    rh_number (sh_header (bo_header (ex_artifacts (last cache)))) = bi_claimed_l2_block_number boot \<and>
    (\<exists>safe_head s. execution_start G K oracle boot safe_head s \<and>
      execution_chain (k_executor K) s (bi_agreed_l2_output_root boot) cache
        (bi_claimed_l2_output_root boot) \<and>
      rh_number (sh_header safe_head) \<le> bi_claimed_l2_block_number boot \<and>
      length cache = as_usize (ge_build G)
        (bi_claimed_l2_block_number boot - rh_number (sh_header safe_head)))"
  using assms by (rule execution_only_chain)

text \<open>
  A concrete client: a safe head at block 5 whose hash and output root are 5, and an executor and a
  driver that count up.
\<close>

definition toy_env :: "(unit, unit) guest_env" where
  "toy_env = \<lparr>ge_build = guest, ge_sha = count_hash, ge_rlp = toy_rlp,
     ge_pot_from_slice = (\<lambda>_. Inr (Validity 5 2 1 [])), ge_header_decode = toy_decode,
     ge_get = toy_get, ge_get_exact = (\<lambda>_ _ _. ((), Inr (replicate 96 0 @ to_be_bytes (5 :: B256)))),
     ge_get_blobs = (\<lambda>p _ _. (p, Inr []))\<rparr>"

definition toy_boot :: "B256 \<Rightarrow> boot_info" where
  "toy_boot l1_head = \<lparr>bi_l1_head = l1_head, bi_agreed_l2_output_root = 5, bi_claimed_l2_output_root = 7,
     bi_claimed_l2_block_number = 7, bi_chain_id = 10, bi_rollup_config = sample_config 250\<rparr>"

definition toy_kona :: "B256 \<Rightarrow> (unit, unit, B256, bool, unit, unit, unit, B256) kona" where
  "toy_kona l1_head =
     \<lparr>k_boot_load = (\<lambda>s. (s, Inr (toy_boot l1_head))),
      k_l2_header_by_hash = (\<lambda>s h. (s, Inr (sh_header (toy_header h)))),
      k_l2_block_info_by_number = (\<lambda>s n. (s, Inr ())), k_info_timestamp = (\<lambda>_. 0),
      k_channel_timeout = (\<lambda>_ _. 0), k_cursor_new = (\<lambda>_ _. ()), k_cursor_advance = (\<lambda>_ _ _. ()),
      k_new_oracle_pipeline_cursor = (\<lambda>_ _ l1 s. ((l1, s), Inr ())),
      k_executor_new = (\<lambda>_ _ _. 0), k_executor = toy_ops, k_pipeline_new = (\<lambda>_ _ _ _ _. Inr ()),
      k_driver_new = (\<lambda>_ _ _. 5),
      k_advance_to_target = (\<lambda>_ d _ target. (d + 1, Inr (target, d + 1)))\<rparr>"

lemma toy_sel:
  "bi_l1_head (toy_boot h) = h" "bi_agreed_l2_output_root (toy_boot h) = 5"
  "bi_claimed_l2_output_root (toy_boot h) = 7" "bi_claimed_l2_block_number (toy_boot h) = 7"
  "bi_chain_id (toy_boot h) = 10" "bi_rollup_config (toy_boot h) = sample_config 250"
  "rc_l2_chain_id (sample_config 250) = 10"
  "k_boot_load (toy_kona h) s = (s, Inr (toy_boot h))"
  "k_l2_header_by_hash (toy_kona h) s x = (s, Inr (sh_header (toy_header x)))"
  "k_l2_block_info_by_number (toy_kona h) s n = (s, Inr ())"
  "k_new_oracle_pipeline_cursor (toy_kona h) c sh l1 s = ((l1, s), Inr ())"
  "k_pipeline_new (toy_kona h) c cursor s l1 u = Inr ()"
  "k_advance_to_target (toy_kona h) ops d c target = (d + 1, Inr (target, d + 1))"
  "k_executor (toy_kona h) = toy_ops" "k_driver_new (toy_kona h) cursor ce pipeline = 5"
  "ge_build toy_env = guest"
  by (simp_all add: toy_boot_def toy_kona_def toy_env_def sample_config_def)

lemmas toy_core_defs = toy_sel toy_env_def run_core_client_def fetch_safe_head_hash_def
  local_get_exact_def local_once_new_def preimage_key_new_def slice_vec_def l1_new_def toy_get_def
  toy_decode_def toy_header_def toy_ops_def as_usize_def check_claim_def

lemma toy_outputs: "derive_outputs (toy_kona h) config 5 5 2 = Inr [6, 7]"
  by (simp add: numeral_2_eq_2 toy_sel)

lemma toy_trace_hash:
  "\<exists>h. exec_precondition_hash count_hash toy_rlp [toy_execution 5 True, toy_execution 6 True] = Inr h"
proof -
  obtain bs where "attributes_bytes count_hash toy_rlp sample_attributes = Inr bs"
    using sample_attributes_bytes by blast
  then show ?thesis
    by (simp add: exec_precondition_hash_def execution_bytes_def attributes_hash_def toy_execution_def)
qed

theorem execution_only_sound_witness:
  "\<exists>pre safe_head s.
    run_core_client toy_env (toy_kona 0) 0 () () () [toy_execution 5 True, toy_execution 6 True] None =
      Inr (toy_boot 0, pre) \<and>
    execution_start toy_env (toy_kona 0) () (toy_boot 0) safe_head s \<and>
    execution_chain toy_ops s 5 [toy_execution 5 True, toy_execution 6 True] 7"
proof -
  let ?es = "[toy_execution 5 True, toy_execution 6 True]"
  obtain h where h: "exec_precondition_hash count_hash toy_rlp ?es = Inr h" using toy_trace_hash by blast
  have run: "run_core_client toy_env (toy_kona 0) 0 () () () ?es None = Inr (toy_boot 0, h)"
    using h by (simp add: toy_core_defs run_execution_only_def new_execution_cursor_def)
      (simp add: toy_execution_def toy_header_def seal_def toy_sel)
  from execution_only_sound [OF run] run show ?thesis by (auto simp: toy_sel simp del: execution_chain.simps)
qed

text \<open>
  C5. A derivation proof is right about its claim: when the core client succeeds with an L1 head,
  it read the agreed safe head through the oracle, and the driver, started at this head with the
  given executions as its cache, derived output roots block by block from it; either up to the
  claimed block, and the claimed root is the last of them (the agreed root, when there is no block
  to derive), or it stopped making progress before, and the claimed root is zero. Without
  precondition data the precondition is zero, and otherwise it is the hash of the data that was
  loaded and checked against exactly these output roots.
\<close>

theorem derivation_sound:
  assumes run: "run_core_client G K data_hash oracle stream beacon cache target = Inr (boot, pre)"
    and head: "bi_l1_head boot \<noteq> 0"
    and small: "unat (bi_claimed_l2_block_number boot) < 2 ^ usize_bits (ge_build G)"
  shows "\<exists>data safe_head driver roots.
    derivation_start G K data_hash oracle stream beacon cache target boot data safe_head driver \<and>
    claim_derived K boot driver (rh_number (sh_header safe_head)) roots \<and>
    (if data_hash = 0 then data = None \<and> pre = 0
     else \<exists>d blobs. data = Some (d, blobs) \<and>
       validate_precondition (ge_build G) (ge_sha G) d blobs (rh_number (sh_header safe_head)) roots = Inr pre)"
proof -
  from run head small obtain data safe_head driver roots where
      start: "derivation_start G K data_hash oracle stream beacon cache target boot data safe_head driver"
      and claim: "claim_derived K boot driver (rh_number (sh_header safe_head)) roots"
      and pre: "case data of None \<Rightarrow> pre = 0
        | Some (d, blobs) \<Rightarrow> validate_precondition (ge_build G) (ge_sha G) d blobs
            (rh_number (sh_header safe_head)) roots = Inr pre"
    by (rule derivation_run)
  from start obtain o1 o2 beacon' where "load_precondition_data (local_get (ge_get G)) (ge_get_blobs G)
      (ge_pot_from_slice G) data_hash o1 beacon = (o2, beacon', Inr data)"
    unfolding derivation_start_def by blast
  then have "data = None \<longleftrightarrow> data_hash = 0"
    by (auto simp: load_precondition_data_def res_simps split: prod.splits sum.splits if_splits)
  with pre have "if data_hash = 0 then data = None \<and> pre = 0
     else \<exists>d blobs. data = Some (d, blobs) \<and>
       validate_precondition (ge_build G) (ge_sha G) d blobs (rh_number (sh_header safe_head)) roots = Inr pre"
    by (cases data) auto
  with start claim show ?thesis by blast
qed

theorem derivation_sound_witness:
  "run_core_client toy_env (toy_kona 1) 0 () () () [] None = Inr (toy_boot 1, 0) \<and>
   (\<exists>safe_n roots. claim_derived (toy_kona 1) (toy_boot 1) 5 safe_n roots)"
proof -
  have run: "run_core_client toy_env (toy_kona 1) 0 () () () [] None = Inr (toy_boot 1, 0)"
    by (simp add: toy_core_defs run_derivation_def load_precondition_data_def core_epilogue_def
        toy_outputs)
  from derivation_sound [OF run] have "\<exists>safe_n roots. claim_derived (toy_kona 1) (toy_boot 1) 5 safe_n roots"
    unfolding derivation_start_def toy_sel by auto
  with run show ?thesis by blast
qed

text \<open>
  C4. What a guest proof with a precondition says of a proposal: over a validated witness oracle and
  verified blobs, a successful derivation with a nonzero data hash returns the hash of precondition
  data that decodes a byte string with that SHA-256 image, whose blobs open the listed blob hashes.
  All the output roots the driver derived from the agreed safe head, started with the given cache,
  up to the claimed block or to where it stopped making progress, are checked against this data: for
  a proposal within bounds they lie in the proposal's range and every published output among them
  is the one computed, with zeroes after the last.
\<close>

theorem guest_outputs_published:
  assumes run: "run_core_client G K data_hash oracle stream beacon cache target = Inr (boot, pre)"
    and env: "ge_get G = vec_get kec sha" "ge_get_exact G = vec_get_exact kec sha"
      "ge_get_blobs G = preloaded_get_blobs" "ge_sha G = sha" "32 \<le> usize_bits (ge_build G)"
    and K: "keeps_inv (local_inv (vec_inv kec sha)) K"
    and wit: "vec_inv kec sha oracle"
    and blobs: "preloaded_from Z w = Inr beacon" "batch_sound Z verified" "\<forall>b \<in> set (bw_blobs w). blob_wf b"
    and head: "bi_l1_head boot \<noteq> 0" and data: "data_hash \<noteq> 0"
    and small: "unat (bi_claimed_l2_block_number boot) < 2 ^ usize_bits (ge_build G)"
  shows "\<exists>v d blobs safe_head driver roots.
    derivation_start G K data_hash oracle stream beacon cache target boot (Some (d, blobs)) safe_head driver \<and>
    claim_derived K boot driver (rh_number (sh_header safe_head)) roots \<and>
    ucast data_hash = (ucast (sha v) :: 248 word) \<and> ge_pot_from_slice G v = Inr d \<and>
    pre = precondition_hash sha d \<and>
    list_all2 (\<lambda>r. blob_opens Z verified (ih_hash (bfr_blob_hash r))) (blob_fetch_requests d) blobs \<and>
    (proposal_in_bounds d \<longrightarrow> outputs_published d blobs (rh_number (sh_header safe_head)) roots)"
proof -
  from run head small obtain loaded safe_head driver roots where
      start: "derivation_start G K data_hash oracle stream beacon cache target boot loaded safe_head driver"
      and claim: "claim_derived K boot driver (rh_number (sh_header safe_head)) roots"
      and checked: "case loaded of None \<Rightarrow> pre = 0
        | Some (d, blobs) \<Rightarrow> validate_precondition (ge_build G) (ge_sha G) d blobs
            (rh_number (sh_header safe_head)) roots = Inr pre"
    by (rule derivation_run)
  from start obtain o1 o2 beacon' where safe: "agreed_safe_head G K oracle boot o1 safe_head"
      and load: "load_precondition_data (local_get (vec_get kec sha)) preloaded_get_blobs
        (ge_pot_from_slice G) data_hash o1 beacon = (o2, beacon', Inr loaded)"
    unfolding derivation_start_def env(1,3) by blast
  from client_sources.load_authentic [OF agreed_safe_head_inv [OF safe env(2) K wit]
      preloaded_from_inv_wf [OF blobs] data load]
  obtain d bs v where d: "loaded = Some (d, bs)" "ge_pot_from_slice G v = Inr d"
      "authentic_preimage kec sha (preimage_key_new data_hash Sha256) v"
    and opened: "list_all2 (\<lambda>r b. blob_opens Z verified (ih_hash (bfr_blob_hash r)) b \<and> blob_wf b)
      (blob_fetch_requests d) bs"
    by blast
  have val: "validate_precondition (ge_build G) sha d bs (rh_number (sh_header safe_head)) roots = Inr pre"
    using checked d(1) env(4) by simp
  from claim have "unat (rh_number (sh_header safe_head)) + length roots \<le> unat (bi_claimed_l2_block_number boot)"
    by (auto simp: claim_derived_def split: if_splits)
  then have "unat (rh_number (sh_header safe_head)) + length roots < 2 ^ 64"
    by (rule le_less_trans) simp
  moreover have "\<forall>b \<in> set bs. blob_wf b" using opened by (auto simp: list_all2_conv_all_nth in_set_conv_nth)
  ultimately have "proposal_in_bounds d \<longrightarrow> outputs_published d bs (rh_number (sh_header safe_head)) roots"
    using val outputs_published_iff env(5) by blast
  moreover have "ucast data_hash = (ucast (sha v) :: 248 word)"
    using d(3) by (simp add: authentic_preimage_def preimage_key_new_def)
  moreover have "list_all2 (\<lambda>r. blob_opens Z verified (ih_hash (bfr_blob_hash r))) (blob_fetch_requests d) bs"
    using opened by (rule list_all2_mono) simp
  ultimately show ?thesis using start d(1,2) claim validate_precondition_hash [OF val] by blast
qed

text \<open>
  A concrete guest: two blocks are derived with output roots 0 and 7 and checked against a proposal
  of two outputs with one blob of zeroes.
\<close>

definition zero_blob_hash :: B256 where
  "zero_blob_hash = ucast (of_nat (length zero_blob) :: bytes48) + 1"

definition toy_data :: precondition_validation_data where
  "toy_data = Validity 5 2 1
     [\<lparr>bfr_block_ref = sample_block, bfr_blob_hash = \<lparr>ih_index = 0, ih_hash = zero_blob_hash\<rparr>\<rparr>]"

definition guest_oracle :: "indexed_preimage list \<Rightarrow> vec_oracle" where
  "guest_oracle ps = \<lparr>vo_preimages = [ps], vo_queue = [], vo_stream = []\<rparr>"

definition output_preimage :: bytes where
  "output_preimage = replicate 96 0 @ to_be_bytes (5 :: B256)"

definition vec_env :: "(vec_oracle, preloaded_blob_provider) guest_env" where
  "vec_env = \<lparr>ge_build = guest, ge_sha = sample_hash, ge_rlp = toy_rlp,
     ge_pot_from_slice = (\<lambda>_. Inr toy_data), ge_header_decode = toy_decode,
     ge_get = vec_get sample_hash sample_hash, ge_get_exact = vec_get_exact sample_hash sample_hash,
     ge_get_blobs = preloaded_get_blobs\<rparr>"

definition vec_kona ::
  "(vec_oracle, preloaded_blob_provider, B256, bool, unit, unit, unit, B256 list) kona" where
  "vec_kona =
     \<lparr>k_boot_load = (\<lambda>s. (s, Inr (toy_boot 1))),
      k_l2_header_by_hash = (\<lambda>s h. (s, Inr (sh_header (toy_header h)))),
      k_l2_block_info_by_number = (\<lambda>s n. (s, Inr ())), k_info_timestamp = (\<lambda>_. 0),
      k_channel_timeout = (\<lambda>_ _. 0), k_cursor_new = (\<lambda>_ _. ()), k_cursor_advance = (\<lambda>_ _ _. ()),
      k_new_oracle_pipeline_cursor = (\<lambda>_ _ l1 s. ((l1, s), Inr ())),
      k_executor_new = (\<lambda>_ _ _. 0), k_executor = toy_ops, k_pipeline_new = (\<lambda>_ _ _ _ _. Inr ()),
      k_driver_new = (\<lambda>_ _ _. [0, 7]),
      k_advance_to_target = (\<lambda>_ d _ target. (tl d, Inr (target, hd d)))\<rparr>"

lemma vec_sel:
  "k_boot_load vec_kona s = (s, Inr (toy_boot 1))"
  "k_l2_header_by_hash vec_kona s x = (s, Inr (sh_header (toy_header x)))"
  "k_new_oracle_pipeline_cursor vec_kona c sh l1 s = ((l1, s), Inr ())"
  "k_pipeline_new vec_kona c cursor s l1 u = Inr ()"
  "k_advance_to_target vec_kona ops d c target = (tl d, Inr (target, hd d))"
  "k_driver_new vec_kona cursor ce pipeline = [0, 7]"
  "ge_build vec_env = guest" "ge_sha vec_env = sample_hash" "ge_header_decode vec_env = toy_decode"
  "ge_get vec_env = vec_get sample_hash sample_hash"
  "ge_get_exact vec_env = vec_get_exact sample_hash sample_hash"
  "ge_get_blobs vec_env = preloaded_get_blobs" "ge_pot_from_slice vec_env = (\<lambda>_. Inr toy_data)"
  by (simp_all add: vec_kona_def vec_env_def)

lemma vec_outputs: "derive_outputs vec_kona config [0, 7] 5 2 = Inr [0, 7]"
  by (simp add: numeral_2_eq_2 vec_sel)

lemma sample_hash_output_preimage: "sample_hash output_preimage = 5"
proof -
  have zeros: "foldl (\<lambda>a b. a * 256 + unat b) 0 (replicate n (0 :: byte)) = 0" for n
    by (induction n) simp_all
  have "be_nat (replicate 96 0 @ bs) = be_nat bs" for bs
    by (simp only: be_nat_def foldl_append zeros)
  then have "sample_hash output_preimage = from_be_bytes (to_be_bytes (5 :: B256))"
    by (simp add: sample_hash_def output_preimage_def from_be_bytes_def del: from_to_be_bytes_widths)
  then show ?thesis by simp
qed

abbreviation output_entry :: indexed_preimage where
  "output_entry \<equiv> (preimage_key_new 5 Keccak256, output_preimage, None)"

abbreviation data_entry :: indexed_preimage where
  "data_entry \<equiv> (preimage_key_new 1 Sha256, [1], None)"

lemma vec_fetch:
  "fetch_safe_head_hash (local_get_exact (vec_get_exact sample_hash sample_hash))
     (local_once_new (guest_oracle [data_entry, output_entry])) 5 =
     (local_once_new (guest_oracle [data_entry]), Inr 5)"
proof -
  have "length output_preimage = 128" "drop 96 output_preimage = to_be_bytes (5 :: B256)"
    by (simp_all add: output_preimage_def)
  then show ?thesis
    by (simp add: fetch_safe_head_hash_def local_get_exact_def local_once_new_def vec_get_exact_def
        vec_get_def vec_get_loop.simps guest_oracle_def preimage_key_new_def slice_vec_def)
qed

lemma vec_load:
  "load_precondition_data (local_get (vec_get sample_hash sample_hash)) preloaded_get_blobs
     (\<lambda>_. Inr toy_data) 1 (local_once_new (guest_oracle [data_entry]))
     \<lparr>pb_entries = [(zero_blob_hash, zero_blob)]\<rparr> =
     (local_once_new (guest_oracle []), \<lparr>pb_entries = []\<rparr>, Inr (Some (toy_data, [zero_blob])))"
  by (simp add: load_precondition_data_def local_get_def local_once_new_def vec_get_def
      vec_get_loop.simps guest_oracle_def preimage_key_new_def toy_data_def blob_fetch_requests_def
      preloaded_get_blobs_def index_vec_def)

lemma toy_data_in_bounds: "proposal_in_bounds toy_data"
  by (simp add: proposal_in_bounds_def toy_data_def)

lemma vec_validate:
  "validate_precondition guest sample_hash toy_data [zero_blob] 5 [0, 7] =
     Inr (precondition_hash sample_hash toy_data)"
proof -
  have wf: "\<forall>b \<in> set [zero_blob]. blob_wf b" by (simp add: zero_blob_def blob_wf_def)
  have k: "covers 5 2 1 5 2 k \<longleftrightarrow> k = 1 \<or> k = 2" for k by (auto simp: covers_def)
  have "outputs_published toy_data [zero_blob] 5 [0, 7]"
    using k zero_blob_outputs
    by (simp add: outputs_published_def toy_data_def numeral_2_eq_2 [symmetric])
  then show ?thesis
    using outputs_published_iff [OF wf _ toy_data_in_bounds, of guest 5 "[0, 7]" sample_hash] by simp
qed

theorem guest_outputs_published_witness:
  "\<exists>pre v d blobs safe_head driver roots.
    run_core_client vec_env vec_kona 1 (guest_oracle [data_entry, output_entry]) toy_oracle
      \<lparr>pb_entries = [(zero_blob_hash, zero_blob)]\<rparr> [] None = Inr (toy_boot 1, pre) \<and>
    derivation_start vec_env vec_kona 1 (guest_oracle [data_entry, output_entry]) toy_oracle
      \<lparr>pb_entries = [(zero_blob_hash, zero_blob)]\<rparr> [] None (toy_boot 1) (Some (d, blobs)) safe_head driver \<and>
    claim_derived vec_kona (toy_boot 1) driver (rh_number (sh_header safe_head)) roots \<and>
    ge_pot_from_slice vec_env v = Inr d \<and>
    (proposal_in_bounds d \<longrightarrow> outputs_published d blobs (rh_number (sh_header safe_head)) roots)"
proof -
  let ?w = "\<lparr>bw_blobs = [zero_blob], bw_commitments = [of_nat (length zero_blob)], bw_proofs = [7]\<rparr>"
  let ?b = "\<lparr>pb_entries = [(zero_blob_hash, zero_blob)]\<rparr>"
  let ?o = "guest_oracle [data_entry, output_entry]"
  have beacon: "preloaded_from toy_kzg ?w = Inr ?b"
    by (simp add: preloaded_from_def toy_kzg_def zero_blob_hash_def)
  have l1: "\<exists>l1. l1_new (vec_get sample_hash sample_hash) toy_decode 1 toy_oracle = Inr l1"
    by (simp add: l1_new_def toy_oracle_def vec_get_def vec_get_loop.simps toy_decode_def)
  have run: "run_core_client vec_env vec_kona 1 ?o toy_oracle ?b [] None =
      Inr (toy_boot 1, precondition_hash sample_hash toy_data)"
    using l1 by (auto simp: run_core_client_def vec_sel toy_sel vec_fetch run_derivation_def vec_load
        vec_outputs core_epilogue_def vec_validate check_claim_def as_usize_def toy_header_def)
  have inv: "vec_inv sample_hash sample_hash ?o"
    by (simp add: vec_inv_def guest_oracle_def all_authentic_def authentic_preimage_def
        preimage_key_new_def sample_hash_output_preimage)
      (simp add: sample_hash_def be_nat_def)
  have keeps: "keeps_inv (local_inv (vec_inv sample_hash sample_hash)) vec_kona"
    by (simp add: keeps_inv_def vec_sel)
  have prems: "32 \<le> usize_bits (ge_build vec_env)" "\<forall>b \<in> set (bw_blobs ?w). blob_wf b"
      "bi_l1_head (toy_boot 1) \<noteq> 0" "(1 :: B256) \<noteq> 0"
      "unat (bi_claimed_l2_block_number (toy_boot 1)) < 2 ^ usize_bits (ge_build vec_env)"
    unfolding vec_sel toy_sel by (simp_all add: blob_wf_def zero_blob_def)
  from guest_outputs_published [OF run vec_sel(10,11,12,8) prems(1) keeps inv beacon toy_kzg_sound prems(2-)] run
  show ?thesis by blast
qed

text \<open>
  The collected executions form a trace: after recovery each execution claims what the next one
  agrees to and the last one claims the given root, and nothing else changes.
\<close>

theorem recover_collected_trace:
  "map (\<lambda>e. e\<lparr>ex_claimed_output := 0\<rparr>) (recover_collected_executions es claimed) =
     map (\<lambda>e. e\<lparr>ex_claimed_output := 0\<rparr>) es \<and>
   map ex_claimed_output (recover_collected_executions es claimed) =
     (if es = [] then [] else tl (map ex_agreed_output (recover_collected_executions es claimed)) @ [claimed])"
proof (induction es claimed rule: recover_collected_executions.induct)
  case (3 e f es claimed)
  have "map ex_agreed_output (recover_collected_executions (f # es) claimed) =
      ex_agreed_output f # tl (map ex_agreed_output (recover_collected_executions (f # es) claimed))"
    by (cases es) simp_all
  with 3 show ?case by simp
qed simp_all

end
