(* ===== verification/Stitching.thy ===== *)
theory Stitching
  imports Core "HOL-Library.Multiset"
begin

text \<open>
  Recursive composition of proofs: the stitching client
  (\<open>src/crates/kona/src/client/stitching.rs\<close>), the stateless client
  (\<open>src/crates/kona/src/client/stateless.rs\<close>, \<open>src/crates/kona/src/witness.rs\<close>) and the guest
  program (\<open>src/build/risczero/kona/src/main.rs\<close>).

  What the zkVM offers the guest is a record of parameters: verifying a receipt against an image,
  the journal of a receipt, the digest of a journal and \<open>env::verify\<close>. A host build has no zkVM
  (\<open>None\<close>) and leaves out the verification, as the \<open>cfg\<close> attributes of the source do.
  \<open>kona_executor::compute_receipts_root\<close>, \<open>rkyv\<close> and the KZG library are parameters as well.
\<close>

section \<open>Data\<close>

record ('rc, 'dg) zkvm =
  zk_receipt_verify :: "'rc \<Rightarrow> B256 \<Rightarrow> bool"
  zk_receipt_journal :: "'rc \<Rightarrow> bytes"
  zk_digest :: "bytes \<Rightarrow> 'dg"
  zk_env_verify :: "B256 \<Rightarrow> bytes \<Rightarrow> bool"

text \<open>The execution result of a block building outcome, over the type of receipts.\<close>

record 'r block_execution_result =
  er_receipts :: "'r list"
  er_requests :: "bytes list"
  er_gas_used :: u64

type_synonym 'r trace = "'r block_execution_result execution list"
type_synonym 'r receipts_root = "'r list \<Rightarrow> rollup_config \<Rightarrow> u64 \<Rightarrow> B256"

record 'x witness =
  w_oracle_witness :: preimage_vec_store
  w_stream_witness :: preimage_vec_store
  w_blobs_witness :: blob_witness_data
  w_payout_recipient_address :: Address
  w_precondition_validation_data_hash :: B256
  w_stitched_executions :: "'x execution list list"
  w_stitched_boot_info :: "stitched_boot_info list"
  w_fpvm_image_id :: B256

section \<open>Verified journals\<close>

fun load_stitching_journals ::
  "('rc, 'dg) zkvm \<Rightarrow> B256 \<Rightarrow> 'dg set \<Rightarrow> 'rc list \<Rightarrow> 'dg set result" where
  "load_stitching_journals Z fpvm_image_id proven [] = Inr proven"
| "load_stitching_journals Z fpvm_image_id proven (receipt # receipts) =
     and_then (ensure (zk_receipt_verify Z receipt fpvm_image_id) ''Failed to verify receipt'') (\<lambda>_.
     load_stitching_journals Z fpvm_image_id
       (insert (zk_digest Z (zk_receipt_journal Z receipt)) proven) receipts)"

definition verify_stitching_journal ::
  "('rc, 'dg) zkvm option \<Rightarrow> B256 \<Rightarrow> 'dg set \<Rightarrow> bytes \<Rightarrow> unit result" where
  "verify_stitching_journal zk fpvm_image_id proven proof_journal =
     (case zk of
        None \<Rightarrow> Inr ()
      | Some Z \<Rightarrow>
          if zk_digest Z proof_journal \<in> proven then Inr ()
          else ensure (zk_env_verify Z fpvm_image_id proof_journal)
                 ''Failed to verify stitched journal assumption'')"

section \<open>Stitching executions\<close>

definition split_executions :: "'x execution list list \<Rightarrow> 'x execution list list \<times> 'x execution list" where
  "split_executions stitched_executions = (stitched_executions, concat stitched_executions)"

text \<open>The loops take the verification of a journal, with its other arguments fixed.\<close>

definition check_execution ::
  "'r receipts_root \<Rightarrow> rollup_config \<Rightarrow> unit \<Rightarrow> 'r block_execution_result execution \<Rightarrow> unit result" where
  "check_execution compute_receipts_root config u execution =
     (let header = sh_header (bo_header (ex_artifacts execution));
          res = bo_execution_result (ex_artifacts execution)
      in and_then (ensure (rh_receipts_root header =
           compute_receipts_root (er_receipts res) config (pa_timestamp (ex_attributes execution)))
           ''assert receipts_root'') (\<lambda>_.
         and_then (ensure (er_requests res = []) ''assert requests.is_empty()'') (\<lambda>_.
         ensure (rh_gas_used header = er_gas_used res) ''assert gas_used'')))"

definition trace_boot :: "'x execution list \<Rightarrow> stitched_boot_info result" where
  "trace_boot trace =
     (if trace = [] then Inl (Panic ''Empty execution trace'')
      else Inr \<lparr>sb_l1_head = 0,
             sb_agreed_l2_output_root = ex_agreed_output (hd trace),
             sb_claimed_l2_output_root = ex_claimed_output (last trace),
             sb_claimed_l2_block_number = rh_number (sh_header (bo_header (ex_artifacts (last trace))))\<rparr>)"

definition stitch_trace ::
  "(bytes \<Rightarrow> B256) \<Rightarrow> (bytes list \<Rightarrow> bytes) \<Rightarrow> 'r receipts_root \<Rightarrow> (bytes \<Rightarrow> unit result) \<Rightarrow> rollup_config \<Rightarrow>
   B256 \<Rightarrow> Address \<Rightarrow> B256 \<Rightarrow> unit \<Rightarrow> 'r trace \<Rightarrow> unit result" where
  "stitch_trace sha rlp compute_receipts_root verify rollup fpvm_image_id payout_recipient_address config u trace =
     and_then (exec_precondition_hash sha rlp trace) (\<lambda>precondition.
     and_then (try_fold (check_execution compute_receipts_root rollup) () trace) (\<lambda>_.
     and_then (trace_boot trace) (\<lambda>boot.
     verify (encode_packed
       (journal_new_stitched fpvm_image_id payout_recipient_address precondition config boot)))))"

definition stitch_executions ::
  "(bytes \<Rightarrow> B256) \<Rightarrow> (bytes list \<Rightarrow> bytes) \<Rightarrow> 'r receipts_root \<Rightarrow> (bytes \<Rightarrow> unit result) \<Rightarrow> boot_info \<Rightarrow>
   B256 \<Rightarrow> Address \<Rightarrow> 'r trace list \<Rightarrow> unit result" where
  "stitch_executions sha rlp compute_receipts_root verify boot fpvm_image_id payout_recipient_address
     stitched_executions =
     and_then (expect (config_hash sha (bi_rollup_config boot)) ''config_hash'') (\<lambda>config.
     if bi_l1_head boot = 0
     then ensure (length stitched_executions = 1) ''assert one execution trace''
     else try_fold (stitch_trace sha rlp compute_receipts_root verify (bi_rollup_config boot)
            fpvm_image_id payout_recipient_address config) () stitched_executions)"

section \<open>Stitching boot information\<close>

definition stitch_boot ::
  "(bytes \<Rightarrow> unit result) \<Rightarrow> B256 \<Rightarrow> Address \<Rightarrow> B256 \<Rightarrow> proof_journal \<Rightarrow> stitched_boot_info \<Rightarrow>
   proof_journal result" where
  "stitch_boot verify fpvm_image_id payout_recipient_address precondition journal boot =
     and_then (ensure (sb_l1_head boot = pj_l1_head journal) ''assert l1_head'') (\<lambda>_.
     and_then (ensure (sb_agreed_l2_output_root boot \<noteq> sb_claimed_l2_output_root boot)
       ''assert progress'') (\<lambda>_.
     and_then (verify (encode_packed (journal_new_stitched fpvm_image_id payout_recipient_address
       precondition (pj_config_hash journal) boot))) (\<lambda>_.
     if sb_claimed_l2_output_root boot = pj_agreed_l2_output_root journal
     then Inr (journal\<lparr>pj_agreed_l2_output_root := sb_agreed_l2_output_root boot\<rparr>)
     else if sb_agreed_l2_output_root boot = pj_claimed_l2_output_root journal
     then Inr (journal\<lparr>pj_claimed_l2_output_root := sb_claimed_l2_output_root boot,
                       pj_claimed_l2_block_number := sb_claimed_l2_block_number boot\<rparr>)
     else Inl (Panic ''No support for non-contiguous stitching.''))))"

definition stitch_boot_info ::
  "(bytes \<Rightarrow> B256) \<Rightarrow> (bytes \<Rightarrow> unit result) \<Rightarrow> boot_info \<Rightarrow> B256 \<Rightarrow> Address \<Rightarrow> B256 \<Rightarrow>
   stitched_boot_info list \<Rightarrow> (boot_info \<times> proof_journal) result" where
  "stitch_boot_info sha verify boot fpvm_image_id payout_recipient_address precondition
     stitched_boot_info =
     and_then (journal_new sha fpvm_image_id payout_recipient_address precondition boot) (\<lambda>journal.
     and_then (try_fold (stitch_boot verify fpvm_image_id payout_recipient_address precondition)
       journal stitched_boot_info) (\<lambda>journal.
     Inr (boot, journal)))"

section \<open>The clients\<close>

text \<open>
  The receipts are what the guest finds on its standard input after everything it read before, up to
  the first that does not deserialize.
\<close>

definition run_stitching_client ::
  "('o, 'p) guest_env \<Rightarrow> ('o, 'p, 's, 'r block_execution_result, 'c, 'i, 'l, 'd) kona \<Rightarrow>
   'r receipts_root \<Rightarrow> ('rc, 'dg) zkvm option \<Rightarrow> 'rc list \<Rightarrow> B256 \<Rightarrow> 'o \<Rightarrow> 'o \<Rightarrow> 'p \<Rightarrow> B256 \<Rightarrow> Address \<Rightarrow>
   'r trace list \<Rightarrow> stitched_boot_info list \<Rightarrow> (boot_info \<times> proof_journal) result" where
  "run_stitching_client G K compute_receipts_root zk receipts data_hash oracle stream beacon
     fpvm_image_id payout_recipient_address stitched_executions stitched_boot_info =
     (let (stitched_executions, execution_cache) = split_executions stitched_executions
      in and_then (expect (run_core_client G K data_hash oracle stream beacon execution_cache None)
           ''Failed to compute output hash.'') (\<lambda>(boot, precondition).
         and_then (case zk of None \<Rightarrow> Inr {} | Some Z \<Rightarrow> load_stitching_journals Z fpvm_image_id {} receipts)
           (\<lambda>proven.
         let verify = verify_stitching_journal zk fpvm_image_id proven
         in and_then (stitch_executions (ge_sha G) (ge_rlp G) compute_receipts_root verify boot
              fpvm_image_id payout_recipient_address stitched_executions) (\<lambda>_.
            stitch_boot_info (ge_sha G) verify boot fpvm_image_id payout_recipient_address
              precondition stitched_boot_info))))"

text \<open>
  \<open>VecOracle::default()\<close> holds no preimages. The shards an empty oracle reads from the standard
  input are the last component of its state, one list for each of the two oracles.
\<close>

definition run_stateless_client ::
  "(vec_oracle, preloaded_blob_provider) guest_env \<Rightarrow>
   (vec_oracle, preloaded_blob_provider, 's, 'r block_execution_result, 'c, 'i, 'l, 'd) kona \<Rightarrow>
   'r receipts_root \<Rightarrow> ('rc, 'dg) zkvm option \<Rightarrow> (bytes \<Rightarrow> B256) \<Rightarrow> kzg \<Rightarrow>
   preimage_vec_entry list \<Rightarrow> preimage_vec_entry list \<Rightarrow> 'rc list \<Rightarrow> 'r block_execution_result witness \<Rightarrow>
   proof_journal result" where
  "run_stateless_client G K compute_receipts_root zk kec Z oracle_shards stream_shards receipts w =
     and_then (expect (validate kec (ge_sha G) (w_oracle_witness w)) ''Failed to validate preimages'') (\<lambda>_.
     let oracle = \<lparr>vo_preimages = w_oracle_witness w, vo_queue = [], vo_stream = oracle_shards\<rparr>;
         stream = \<lparr>vo_preimages = [], vo_queue = [], vo_stream = stream_shards\<rparr>
     in and_then (preloaded_from Z (w_blobs_witness w)) (\<lambda>beacon.
        and_then (run_stitching_client G K compute_receipts_root zk receipts
            (w_precondition_validation_data_hash w) oracle stream beacon (w_fpvm_image_id w)
            (w_payout_recipient_address w) (w_stitched_executions w) (w_stitched_boot_info w))
          (\<lambda>(boot, proof_journal). Inr proof_journal)))"

text \<open>The guest replaces every empty entry of the witness oracle by the next shard frame.\<close>

fun load_shards ::
  "(bytes \<Rightarrow> preimage_vec_entry result) \<Rightarrow> preimage_vec_store \<Rightarrow> bytes list \<Rightarrow>
   (preimage_vec_store \<times> bytes list) result" where
  "load_shards from_bytes [] frames = Inr ([], frames)"
| "load_shards from_bytes (entry # entries) frames =
     (if entry \<noteq> []
      then and_then (load_shards from_bytes entries frames) (\<lambda>(es, frames). Inr (entry # es, frames))
      else case frames of
        [] \<Rightarrow> Inl (Panic ''read_frame'')
      | frame # frames \<Rightarrow>
          and_then (expect (from_bytes frame) ''Failed to deserialize shard'') (\<lambda>shard.
          and_then (load_shards from_bytes entries frames) (\<lambda>(es, frames). Inr (shard # es, frames))))"

record 'rc guest_input =
  gi_witness_frame :: bytes
  gi_shard_frames :: "bytes list"
  gi_oracle_shards :: "preimage_vec_entry list"
  gi_stream_shards :: "preimage_vec_entry list"
  gi_receipts :: "'rc list"

definition guest_main ::
  "(vec_oracle, preloaded_blob_provider) guest_env \<Rightarrow>
   (vec_oracle, preloaded_blob_provider, 's, 'r block_execution_result, 'c, 'i, 'l, 'd) kona \<Rightarrow>
   'r receipts_root \<Rightarrow> ('rc, 'dg) zkvm option \<Rightarrow> (bytes \<Rightarrow> B256) \<Rightarrow> kzg \<Rightarrow>
   (bytes \<Rightarrow> 'r block_execution_result witness result) \<Rightarrow> (bytes \<Rightarrow> preimage_vec_entry result) \<Rightarrow>
   'rc guest_input \<Rightarrow> bytes result" where
  "guest_main G K compute_receipts_root zk kec Z witness_from_bytes shard_from_bytes input =
     and_then (expect (witness_from_bytes (gi_witness_frame input)) ''Failed to deserialize witness'') (\<lambda>w.
     and_then (load_shards shard_from_bytes (w_oracle_witness w) (gi_shard_frames input)) (\<lambda>(preimages, _).
     and_then (run_stateless_client G K compute_receipts_root zk kec Z (gi_oracle_shards input)
       (gi_stream_shards input) (gi_receipts input) (w\<lparr>w_oracle_witness := preimages\<rparr>)) (\<lambda>proof_journal.
     and_then (ensure (pj_claimed_l2_output_root proof_journal \<noteq> 0)
       ''Cannot prove proposal prematurity.'') (\<lambda>_.
     Inr (encode_packed proof_journal)))))"

section \<open>What a verified journal rests on\<close>

text \<open>
  The journals the zkVM accepts for an image in a run that is given some receipts, and those with
  the digest of an accepted one.
\<close>

definition zk_accepts :: "('rc, 'dg) zkvm \<Rightarrow> 'rc list \<Rightarrow> B256 \<Rightarrow> bytes \<Rightarrow> bool" where
  "zk_accepts Z rcs image_id journal \<longleftrightarrow>
     zk_env_verify Z image_id journal \<or>
     (\<exists>rc \<in> set rcs. zk_receipt_verify Z rc image_id \<and> zk_receipt_journal Z rc = journal)"

definition vouched :: "('rc, 'dg) zkvm \<Rightarrow> 'rc list \<Rightarrow> B256 \<Rightarrow> bytes \<Rightarrow> bool" where
  "vouched Z rcs image_id journal \<longleftrightarrow> (\<exists>b. zk_accepts Z rcs image_id b \<and> zk_digest Z b = zk_digest Z journal)"

lemma load_stitching_journals_verified:
  "load_stitching_journals Z image_id proven rcs = Inr proven' \<Longrightarrow>
     proven' = proven \<union> (zk_digest Z \<circ> zk_receipt_journal Z) ` set rcs \<and>
     (\<forall>rc \<in> set rcs. zk_receipt_verify Z rc image_id)"
  by (induction Z image_id proven rcs rule: load_stitching_journals.induct) (auto simp: res_simps)

lemma vouched_proven:
  assumes "load_stitching_journals Z image_id {} rcs = Inr proven" and "zk_digest Z j \<in> proven"
  shows "vouched Z rcs image_id j"
  using load_stitching_journals_verified [OF assms(1)] assms(2)
  by (fastforce simp: vouched_def zk_accepts_def)

lemma vouched_env_verify: "zk_env_verify Z image_id j \<Longrightarrow> vouched Z rcs image_id j"
  by (auto simp: vouched_def zk_accepts_def)

text \<open>The contract of a journal verifier, and what stitching makes of it.\<close>

locale journal_verifier =
  fixes verify :: "bytes \<Rightarrow> unit result"
    and holds :: "bytes \<Rightarrow> bool"
  assumes verify_holds: "verify j = Inr u \<Longrightarrow> holds j"

text \<open>Segments between output roots, each starting where the one before ends.\<close>

fun boot_chain :: "B256 \<Rightarrow> stitched_boot_info list \<Rightarrow> B256 \<Rightarrow> bool" where
  "boot_chain agreed [] claimed \<longleftrightarrow> agreed = claimed"
| "boot_chain agreed (s # ss) claimed \<longleftrightarrow>
     sb_agreed_l2_output_root s = agreed \<and> boot_chain (sb_claimed_l2_output_root s) ss claimed"

lemma boot_chain_append:
  "boot_chain a (xs @ ys) c \<longleftrightarrow> (\<exists>b. boot_chain a xs b \<and> boot_chain b ys c)"
  by (induction xs arbitrary: a) auto

definition stitched_between :: "proof_journal \<Rightarrow> stitched_boot_info list \<Rightarrow> stitched_boot_info list \<Rightarrow>
    proof_journal \<Rightarrow> bool" where
  "stitched_between J0 before after J \<longleftrightarrow>
     boot_chain (pj_agreed_l2_output_root J) before (pj_agreed_l2_output_root J0) \<and>
     boot_chain (pj_claimed_l2_output_root J0) after (pj_claimed_l2_output_root J) \<and>
     J = J0\<lparr>pj_agreed_l2_output_root := pj_agreed_l2_output_root J,
            pj_claimed_l2_output_root := pj_claimed_l2_output_root J,
            pj_claimed_l2_block_number :=
              (if after = [] then pj_claimed_l2_block_number J0
               else sb_claimed_l2_block_number (last after))\<rparr>"

lemma stitched_between_keeps:
  assumes "stitched_between J0 before after J"
  shows "pj_fpvm_image_id J = pj_fpvm_image_id J0" "pj_config_hash J = pj_config_hash J0"
    "pj_precondition_hash J = pj_precondition_hash J0" "pj_l1_head J = pj_l1_head J0"
    "pj_payout_recipient J = pj_payout_recipient J0"
    "pj_claimed_l2_block_number J =
       (if after = [] then pj_claimed_l2_block_number J0 else sb_claimed_l2_block_number (last after))"
proof -
  have J: "J = J0\<lparr>pj_agreed_l2_output_root := pj_agreed_l2_output_root J,
      pj_claimed_l2_output_root := pj_claimed_l2_output_root J,
      pj_claimed_l2_block_number := (if after = [] then pj_claimed_l2_block_number J0
        else sb_claimed_l2_block_number (last after))\<rparr>"
    using assms unfolding stitched_between_def by blast
  show "pj_fpvm_image_id J = pj_fpvm_image_id J0" "pj_config_hash J = pj_config_hash J0"
    "pj_precondition_hash J = pj_precondition_hash J0" "pj_l1_head J = pj_l1_head J0"
    "pj_payout_recipient J = pj_payout_recipient J0"
    "pj_claimed_l2_block_number J =
       (if after = [] then pj_claimed_l2_block_number J0 else sb_claimed_l2_block_number (last after))"
    by (subst J, simp)+
qed

context journal_verifier
begin

lemma stitch_trace_holds:
  assumes "stitch_trace sha rlp root verify rollup image_id payout config u trace = Inr u'"
  obtains pre boot where "exec_precondition_hash sha rlp trace = Inr pre" "trace_boot trace = Inr boot"
    "holds (encode_packed (journal_new_stitched image_id payout pre config boot))"
  using assms by (auto simp: stitch_trace_def res_simps dest: verify_holds)

lemma stitch_traces_hold:
  "try_fold (stitch_trace sha rlp root verify rollup image_id payout config) u traces = Inr u' \<Longrightarrow>
     trace \<in> set traces \<Longrightarrow>
     \<exists>pre boot. exec_precondition_hash sha rlp trace = Inr pre \<and> trace_boot trace = Inr boot \<and>
       holds (encode_packed (journal_new_stitched image_id payout pre config boot))"
  by (induction traces arbitrary: u) (auto simp: res_simps elim: stitch_trace_holds)

lemma stitch_boots:
  "try_fold (stitch_boot verify image_id payout pre) J0 boots = Inr J \<Longrightarrow>
     \<exists>before after. mset (before @ after) = mset boots \<and> stitched_between J0 before after J \<and>
       (\<forall>b \<in> set boots. sb_l1_head b = pj_l1_head J0 \<and>
          sb_agreed_l2_output_root b \<noteq> sb_claimed_l2_output_root b \<and>
          holds (encode_packed (journal_new_stitched image_id payout pre (pj_config_hash J0) b)))"
proof (induction boots arbitrary: J0)
  case Nil
  then show ?case by (auto simp: stitched_between_def)
next
  case (Cons b boots)
  then obtain J1 where step: "stitch_boot verify image_id payout pre J0 b = Inr J1"
    and rest: "try_fold (stitch_boot verify image_id payout pre) J1 boots = Inr J" by (auto simp: res_simps)
  from Cons.IH [OF rest] obtain before after where IH: "mset (before @ after) = mset boots"
      "stitched_between J1 before after J"
      "\<forall>b \<in> set boots. sb_l1_head b = pj_l1_head J1 \<and>
         sb_agreed_l2_output_root b \<noteq> sb_claimed_l2_output_root b \<and>
         holds (encode_packed (journal_new_stitched image_id payout pre (pj_config_hash J1) b))" by blast
  have checked: "sb_l1_head b = pj_l1_head J0" "sb_agreed_l2_output_root b \<noteq> sb_claimed_l2_output_root b"
      "holds (encode_packed (journal_new_stitched image_id payout pre (pj_config_hash J0) b))"
    and same: "pj_l1_head J1 = pj_l1_head J0" "pj_config_hash J1 = pj_config_hash J0"
    using step by (auto simp: stitch_boot_def res_simps split: if_splits dest: verify_holds)
  from step consider
      (backward) "sb_claimed_l2_output_root b = pj_agreed_l2_output_root J0"
        "J1 = J0\<lparr>pj_agreed_l2_output_root := sb_agreed_l2_output_root b\<rparr>"
    | (forward) "sb_agreed_l2_output_root b = pj_claimed_l2_output_root J0"
        "J1 = J0\<lparr>pj_claimed_l2_output_root := sb_claimed_l2_output_root b,
                pj_claimed_l2_block_number := sb_claimed_l2_block_number b\<rparr>"
    by (auto simp: stitch_boot_def res_simps split: if_splits)
  then show ?case
  proof cases
    case backward
    then have "stitched_between J0 (before @ [b]) after J"
      using IH(2) by (auto simp: stitched_between_def boot_chain_append)
    moreover have "mset ((before @ [b]) @ after) = mset (b # boots)" using IH(1) by simp
    ultimately show ?thesis using IH(3) checked same by (metis set_ConsD)
  next
    case forward
    then have "stitched_between J0 before (b # after) J"
      using IH(2) by (auto simp: stitched_between_def split: if_splits)
    moreover have "mset (before @ b # after) = mset (b # boots)" using IH(1) by simp
    ultimately show ?thesis using IH(3) checked same by (metis set_ConsD)
  qed
qed

end

interpretation receipts: journal_verifier
  "\<lambda>j. and_then (load_stitching_journals Z image_id {} rcs)
     (\<lambda>proven. verify_stitching_journal (Some Z) image_id proven j)" "vouched Z rcs image_id"
  for Z image_id rcs
  by unfold_locales
    (auto simp: res_simps verify_stitching_journal_def split: if_splits
      intro: vouched_proven vouched_env_verify)

text \<open>A run of the stitching client in the zkVM.\<close>

lemma run_stitching_client_sound:
  assumes "run_stitching_client G K root (Some Z) rcs data_hash oracle stream beacon image_id payout
      traces boots = Inr (boot, J)"
  obtains pre J0 before after config where
    "run_core_client G K data_hash oracle stream beacon (concat traces) None = Inr (boot, pre)"
    "journal_new (ge_sha G) image_id payout pre boot = Inr J0"
    "config_hash (ge_sha G) (bi_rollup_config boot) = Inr config" "pj_config_hash J0 = config"
    "mset (before @ after) = mset boots" "stitched_between J0 before after J"
    "\<forall>b \<in> set boots. sb_l1_head b = bi_l1_head boot \<and>
       sb_agreed_l2_output_root b \<noteq> sb_claimed_l2_output_root b \<and>
       vouched Z rcs image_id (encode_packed (journal_new_stitched image_id payout pre config b))"
    "if bi_l1_head boot = 0 then length traces = 1
     else \<forall>t \<in> set traces. \<exists>h b. exec_precondition_hash (ge_sha G) (ge_rlp G) t = Inr h \<and>
       trace_boot t = Inr b \<and>
       vouched Z rcs image_id (encode_packed (journal_new_stitched image_id payout h config b))"
proof -
  from assms obtain pre proven J0 where
      core: "run_core_client G K data_hash oracle stream beacon (concat traces) None = Inr (boot, pre)"
      and proven: "load_stitching_journals Z image_id {} rcs = Inr proven"
      and execs: "stitch_executions (ge_sha G) (ge_rlp G) root (verify_stitching_journal (Some Z) image_id proven)
        boot image_id payout traces = Inr ()"
      and J0: "journal_new (ge_sha G) image_id payout pre boot = Inr J0"
      and J: "try_fold (stitch_boot (verify_stitching_journal (Some Z) image_id proven) image_id payout pre) J0
        boots = Inr J"
    by (auto simp: run_stitching_client_def split_executions_def stitch_boot_info_def Let_def res_simps)
  have verify: "verify_stitching_journal (Some Z) image_id proven =
      (\<lambda>j. and_then (load_stitching_journals Z image_id {} rcs)
        (\<lambda>proven. verify_stitching_journal (Some Z) image_id proven j))"
    by (simp add: proven)
  from J0 obtain config where config: "config_hash (ge_sha G) (bi_rollup_config boot) = Inr config"
      "pj_config_hash J0 = config" "pj_l1_head J0 = bi_l1_head boot"
    by (auto simp: journal_new_def res_simps)
  from receipts.stitch_boots [OF J [unfolded verify]] config obtain before after where
    "mset (before @ after) = mset boots" "stitched_between J0 before after J"
    "\<forall>b \<in> set boots. sb_l1_head b = bi_l1_head boot \<and>
       sb_agreed_l2_output_root b \<noteq> sb_claimed_l2_output_root b \<and>
       vouched Z rcs image_id (encode_packed (journal_new_stitched image_id payout pre config b))" by auto
  moreover have "if bi_l1_head boot = 0 then length traces = 1
     else \<forall>t \<in> set traces. \<exists>h b. exec_precondition_hash (ge_sha G) (ge_rlp G) t = Inr h \<and>
       trace_boot t = Inr b \<and>
       vouched Z rcs image_id (encode_packed (journal_new_stitched image_id payout h config b))"
    using execs config(1) receipts.stitch_traces_hold [where Z = Z and image_id = image_id and rcs = rcs]
    by (auto simp: stitch_executions_def verify res_simps split: if_splits)
  ultimately show ?thesis using that core J0 config(1,2) by blast
qed

section \<open>Properties\<close>

text \<open>
  C2. What the stitching client returns in the zkVM: the journal is the client's own segment, which
  the core client computed, extended by the stitched segments, all of them and each once, to one
  chain of segments from the agreed to the claimed output root; it keeps the recipient, the
  precondition, the L1 head, the configuration and the image of the client's own journal and takes
  the block number of its last segment; and every stitched segment makes progress, has the same L1
  head and a journal with the same other fields whose digest is that of a journal the zkVM verified.
\<close>

theorem stitched_journal_chain:
  assumes "run_stitching_client G K root (Some Z) rcs data_hash oracle stream beacon image_id payout
      traces boots = Inr (boot, J)"
  shows "\<exists>pre J0 before after.
    run_core_client G K data_hash oracle stream beacon (concat traces) None = Inr (boot, pre) \<and>
    journal_new (ge_sha G) image_id payout pre boot = Inr J0 \<and>
    mset (before @ after) = mset boots \<and>
    boot_chain (pj_agreed_l2_output_root J) (before @ boot_from_journal J0 # after)
      (pj_claimed_l2_output_root J) \<and>
    J = J0\<lparr>pj_agreed_l2_output_root := pj_agreed_l2_output_root J,
      pj_claimed_l2_output_root := pj_claimed_l2_output_root J,
      pj_claimed_l2_block_number := sb_claimed_l2_block_number (last (boot_from_journal J0 # after))\<rparr> \<and>
    (\<forall>b \<in> set boots. sb_l1_head b = bi_l1_head boot \<and>
       sb_agreed_l2_output_root b \<noteq> sb_claimed_l2_output_root b \<and>
       vouched Z rcs image_id (encode_packed (journal_new_stitched image_id payout pre (pj_config_hash J0) b)))"
  using assms
proof (cases rule: run_stitching_client_sound)
  case (1 pre J0 before after config)
  from 1(6) have "boot_chain (pj_agreed_l2_output_root J) (before @ boot_from_journal J0 # after)
      (pj_claimed_l2_output_root J)"
    by (simp add: stitched_between_def boot_chain_append boot_from_journal_def)
  moreover have num: "sb_claimed_l2_block_number (last (boot_from_journal J0 # after)) =
      (if after = [] then pj_claimed_l2_block_number J0 else sb_claimed_l2_block_number (last after))"
    by (simp add: boot_from_journal_def)
  moreover have "J = J0\<lparr>pj_agreed_l2_output_root := pj_agreed_l2_output_root J,
      pj_claimed_l2_output_root := pj_claimed_l2_output_root J,
      pj_claimed_l2_block_number := sb_claimed_l2_block_number (last (boot_from_journal J0 # after))\<rparr>"
    using 1(6) unfolding stitched_between_def num by blast
  ultimately show ?thesis using 1 by blast
qed

text \<open>A client whose own segment leads from root 5 to root 7, with a segment on either side.\<close>

definition no_receipts_root :: "unit receipts_root" where
  "no_receipts_root rs config t = 0"

definition empty_result :: "unit block_execution_result" where
  "empty_result = \<lparr>er_receipts = [], er_requests = [], er_gas_used = 0\<rparr>"

definition stitch_ops :: "(B256, unit block_execution_result) executor_ops" where
  "stitch_ops = \<lparr>op_wait_until_ready = (\<lambda>s. s), op_update_safe_head = (\<lambda>s h. sh_hash h),
     op_execute_payload = (\<lambda>s a. (s + 1, Inr \<lparr>bo_header = toy_header (s + 1), bo_execution_result = empty_result\<rparr>)),
     op_compute_output_root = (\<lambda>s. (s, Inr s))\<rparr>"

definition stitch_kona ::
  "('o local_once_oracle \<Rightarrow> B256) \<Rightarrow> ('o, 'p, B256, unit block_execution_result, unit, unit, unit, B256) kona" where
  "stitch_kona l1_head =
     \<lparr>k_boot_load = (\<lambda>s. (s, Inr (toy_boot (l1_head s)))),
      k_l2_header_by_hash = (\<lambda>s h. (s, Inr (sh_header (toy_header h)))),
      k_l2_block_info_by_number = (\<lambda>s n. (s, Inr ())), k_info_timestamp = (\<lambda>_. 0),
      k_channel_timeout = (\<lambda>_ _. 0), k_cursor_new = (\<lambda>_ _. ()), k_cursor_advance = (\<lambda>_ _ _. ()),
      k_new_oracle_pipeline_cursor = (\<lambda>_ _ l1 s. ((l1, s), Inr ())),
      k_executor_new = (\<lambda>_ _ _. 0), k_executor = stitch_ops, k_pipeline_new = (\<lambda>_ _ _ _ _. Inr ()),
      k_driver_new = (\<lambda>_ _ _. 5),
      k_advance_to_target = (\<lambda>_ d _ target. (d + 1, Inr (target, d + 1)))\<rparr>"

lemma stitch_sel:
  "k_boot_load (stitch_kona h) s = (s, Inr (toy_boot (h s)))"
  "k_l2_header_by_hash (stitch_kona h) s x = (s, Inr (sh_header (toy_header x)))"
  "k_l2_block_info_by_number (stitch_kona h) s n = (s, Inr ())"
  "k_new_oracle_pipeline_cursor (stitch_kona h) c sh l1 s = ((l1, s), Inr ())"
  "k_pipeline_new (stitch_kona h) c cursor s l1 u = Inr ()"
  "k_advance_to_target (stitch_kona h) ops d c target = (d + 1, Inr (target, d + 1))"
  "k_executor (stitch_kona h) = stitch_ops" "k_driver_new (stitch_kona h) cursor ce pipeline = 5"
  by (simp_all add: stitch_kona_def)

lemma stitch_outputs: "derive_outputs (stitch_kona h) config 5 5 2 = Inr [6, 7]"
  by (simp add: numeral_2_eq_2 stitch_sel)

definition all_zkvm :: "(bytes, bytes) zkvm" where
  "all_zkvm = \<lparr>zk_receipt_verify = (\<lambda>_ _. True), zk_receipt_journal = (\<lambda>rc. rc), zk_digest = (\<lambda>b. b),
     zk_env_verify = (\<lambda>_ _. True)\<rparr>"

theorem stitched_journal_chain_witness:
  "\<exists>J. run_stitching_client toy_env (stitch_kona (\<lambda>_. 1)) no_receipts_root (Some all_zkvm) [] 0 () () () 3 4 []
      [\<lparr>sb_l1_head = 1, sb_agreed_l2_output_root = 7, sb_claimed_l2_output_root = 9, sb_claimed_l2_block_number = 9\<rparr>,
       \<lparr>sb_l1_head = 1, sb_agreed_l2_output_root = 2, sb_claimed_l2_output_root = 5, sb_claimed_l2_block_number = 5\<rparr>] =
      Inr (toy_boot 1, J) \<and> pj_agreed_l2_output_root J = 2 \<and> pj_claimed_l2_output_root J = 9 \<and>
    (\<exists>segments. length segments = 3 \<and>
      boot_chain (pj_agreed_l2_output_root J) segments (pj_claimed_l2_output_root J))"
proof -
  let ?f = "\<lparr>sb_l1_head = 1, sb_agreed_l2_output_root = 7, sb_claimed_l2_output_root = 9, sb_claimed_l2_block_number = 9\<rparr>"
  let ?b = "\<lparr>sb_l1_head = 1, sb_agreed_l2_output_root = 2, sb_claimed_l2_output_root = 5, sb_claimed_l2_block_number = 5\<rparr>"
  have core: "run_core_client toy_env (stitch_kona (\<lambda>_. 1)) 0 () () () [] None = Inr (toy_boot 1, 0)"
    by (simp add: toy_core_defs stitch_sel run_derivation_def load_precondition_data_def core_epilogue_def
        stitch_outputs)
  obtain config where config: "config_hash count_hash (sample_config 250) = Inr config"
    using sample_config_ok [of count_hash 250] by (auto simp: config_hash_def)
  obtain J where J: "run_stitching_client toy_env (stitch_kona (\<lambda>_. 1)) no_receipts_root (Some all_zkvm) [] 0
      () () () 3 4 [] [?f, ?b] = Inr (toy_boot 1, J)"
      and roots: "pj_agreed_l2_output_root J = 2" "pj_claimed_l2_output_root J = 9"
    using config core
    by (simp add: run_stitching_client_def split_executions_def stitch_executions_def stitch_boot_info_def
        journal_new_def stitch_boot_def verify_stitching_journal_def all_zkvm_def toy_sel toy_env_def)
  from stitched_journal_chain [OF J] obtain J0 before after where m: "mset (before @ after) = mset [?f, ?b]"
    and c: "boot_chain (pj_agreed_l2_output_root J) (before @ boot_from_journal J0 # after)
      (pj_claimed_l2_output_root J)" by blast
  have "length (before @ after) = 2" using mset_eq_length [OF m] by simp
  then have "length (before @ boot_from_journal J0 # after) = 3" by simp
  with J roots c show ?thesis by blast
qed

end
