(* ===== verification/Recursion.thy ===== *)
theory Recursion
  imports Stitching
begin

text \<open>
  Proofs of proofs: which journals the guest program of theory \<open>Stitching\<close> can prove when it may
  verify journals that it proved before, and what such a journal says.
\<close>

section \<open>Recursive proofs\<close>

text \<open>
  The part of a guest run up to the core client: the witness with its shards, the boot information
  and the precondition.
\<close>

definition guest_core ::
  "(vec_oracle, preloaded_blob_provider) guest_env \<Rightarrow>
   (vec_oracle, preloaded_blob_provider, 's, 'r block_execution_result, 'c, 'i, 'l, 'd) kona \<Rightarrow>
   (bytes \<Rightarrow> B256) \<Rightarrow> kzg \<Rightarrow> (bytes \<Rightarrow> 'r block_execution_result witness result) \<Rightarrow>
   (bytes \<Rightarrow> preimage_vec_entry result) \<Rightarrow> 'rc guest_input \<Rightarrow>
   ('r block_execution_result witness \<times> boot_info \<times> B256) result" where
  "guest_core G K kec Z witness_from_bytes shard_from_bytes input =
     and_then (witness_from_bytes (gi_witness_frame input)) (\<lambda>w.
     and_then (load_shards shard_from_bytes (w_oracle_witness w) (gi_shard_frames input)) (\<lambda>(preimages, _).
     and_then (validate kec (ge_sha G) preimages) (\<lambda>_.
     and_then (preloaded_from Z (w_blobs_witness w)) (\<lambda>beacon.
     and_then (run_core_client G K (w_precondition_validation_data_hash w)
       \<lparr>vo_preimages = preimages, vo_queue = [], vo_stream = gi_oracle_shards input\<rparr>
       \<lparr>vo_preimages = [], vo_queue = [], vo_stream = gi_stream_shards input\<rparr> beacon
       (concat (w_stitched_executions w)) None) (\<lambda>(boot, precondition).
     Inr (w\<lparr>w_oracle_witness := preimages\<rparr>, boot, precondition))))))"

text \<open>The journals a run asks to have verified.\<close>

definition boot_journals ::
  "('o, 'p) guest_env \<Rightarrow> 'x witness \<Rightarrow> boot_info \<Rightarrow> B256 \<Rightarrow> bytes set" where
  "boot_journals G w boot precondition =
     {encode_packed (journal_new_stitched (w_fpvm_image_id w) (w_payout_recipient_address w)
        precondition config b) | config b.
      config_hash (ge_sha G) (bi_rollup_config boot) = Inr config \<and> b \<in> set (w_stitched_boot_info w)}"

definition trace_journals :: "('o, 'p) guest_env \<Rightarrow> 'x witness \<Rightarrow> boot_info \<Rightarrow> bytes set" where
  "trace_journals G w boot =
     {encode_packed (journal_new_stitched (w_fpvm_image_id w) (w_payout_recipient_address w) h config b) |
        h config b. config_hash (ge_sha G) (bi_rollup_config boot) = Inr config \<and>
        (\<exists>t \<in> set (w_stitched_executions w). exec_precondition_hash (ge_sha G) (ge_rlp G) t = Inr h \<and>
           trace_boot t = Inr b)}"

text \<open>
  What a successful run of the guest shows: its own segment from the core client, the segments
  before and after it, and, for a derivation, a journal for each of the execution traces.
\<close>

definition guest_ran ::
  "('o, 'p) guest_env \<Rightarrow> ('rc, 'dg) zkvm \<Rightarrow> 'rc list \<Rightarrow> 'x witness \<Rightarrow> boot_info \<Rightarrow> B256 \<Rightarrow> proof_journal \<Rightarrow>
   bool" where
  "guest_ran G zk rcs w boot precondition J \<longleftrightarrow>
     (\<exists>J0 before after.
        journal_new (ge_sha G) (w_fpvm_image_id w) (w_payout_recipient_address w) precondition boot = Inr J0 \<and>
        mset (before @ after) = mset (w_stitched_boot_info w) \<and> stitched_between J0 before after J \<and>
        (\<forall>b \<in> set (w_stitched_boot_info w). sb_l1_head b = bi_l1_head boot \<and>
           sb_agreed_l2_output_root b \<noteq> sb_claimed_l2_output_root b)) \<and>
     (\<forall>j \<in> boot_journals G w boot precondition. vouched zk rcs (w_fpvm_image_id w) j) \<and>
     (if bi_l1_head boot = 0 then length (w_stitched_executions w) = 1
      else (\<forall>t \<in> set (w_stitched_executions w). t \<noteq> [] \<and>
          (\<exists>h. exec_precondition_hash (ge_sha G) (ge_rlp G) t = Inr h)) \<and>
        (\<forall>j \<in> trace_journals G w boot. vouched zk rcs (w_fpvm_image_id w) j))"

lemma trace_boot_eq_Inr [res_simps]:
  "trace_boot t = Inr b \<longleftrightarrow> t \<noteq> [] \<and>
     b = \<lparr>sb_l1_head = 0, sb_agreed_l2_output_root = ex_agreed_output (hd t),
          sb_claimed_l2_output_root = ex_claimed_output (last t),
          sb_claimed_l2_block_number = rh_number (sh_header (bo_header (ex_artifacts (last t))))\<rparr>"
  by (auto simp: trace_boot_def)

lemma guest_main_sound:
  assumes "guest_main G K root (Some zk) kec Z wfb sfb input = Inr b"
  obtains w boot pre J where "guest_core G K kec Z wfb sfb input = Inr (w, boot, pre)"
    "guest_ran G zk (gi_receipts input) w boot pre J" "b = encode_packed J"
    "pj_claimed_l2_output_root J \<noteq> 0"
proof -
  from assms obtain w preimages rest beacon boot J where
      w: "wfb (gi_witness_frame input) = Inr w"
        "load_shards sfb (w_oracle_witness w) (gi_shard_frames input) = Inr (preimages, rest)"
        "validate kec (ge_sha G) preimages = Inr ()" "preloaded_from Z (w_blobs_witness w) = Inr beacon"
      and run: "run_stitching_client G K root (Some zk) (gi_receipts input)
        (w_precondition_validation_data_hash w)
        \<lparr>vo_preimages = preimages, vo_queue = [], vo_stream = gi_oracle_shards input\<rparr>
        \<lparr>vo_preimages = [], vo_queue = [], vo_stream = gi_stream_shards input\<rparr> beacon (w_fpvm_image_id w)
        (w_payout_recipient_address w) (w_stitched_executions w) (w_stitched_boot_info w) = Inr (boot, J)"
      and J: "b = encode_packed J" "pj_claimed_l2_output_root J \<noteq> 0"
    by (auto simp: guest_main_def run_stateless_client_def Let_def res_simps)
  let ?w = "w\<lparr>w_oracle_witness := preimages\<rparr>"
  from run show ?thesis
  proof (cases rule: run_stitching_client_sound)
    case (1 pre J0 before after config)
    have "guest_core G K kec Z wfb sfb input = Inr (?w, boot, pre)"
      using w 1(1) by (simp add: guest_core_def)
    moreover have "guest_ran G zk (gi_receipts input) ?w boot pre J"
      unfolding guest_ran_def
    proof (intro conjI)
      show "\<exists>J0 before after.
        journal_new (ge_sha G) (w_fpvm_image_id ?w) (w_payout_recipient_address ?w) pre boot = Inr J0 \<and>
        mset (before @ after) = mset (w_stitched_boot_info ?w) \<and> stitched_between J0 before after J \<and>
        (\<forall>b \<in> set (w_stitched_boot_info ?w). sb_l1_head b = bi_l1_head boot \<and>
           sb_agreed_l2_output_root b \<noteq> sb_claimed_l2_output_root b)"
        using 1(2,5,6,7) by auto
      show "\<forall>j \<in> boot_journals G ?w boot pre. vouched zk (gi_receipts input) (w_fpvm_image_id ?w) j"
        using 1(3,7) by (auto simp: boot_journals_def)
      show "if bi_l1_head boot = 0 then length (w_stitched_executions ?w) = 1
        else (\<forall>t \<in> set (w_stitched_executions ?w). t \<noteq> [] \<and>
            (\<exists>h. exec_precondition_hash (ge_sha G) (ge_rlp G) t = Inr h)) \<and>
          (\<forall>j \<in> trace_journals G ?w boot. vouched zk (gi_receipts input) (w_fpvm_image_id ?w) j)"
        using 1(3,8) by (fastforce simp: trace_journals_def res_simps split: if_splits)
    qed
    ultimately show ?thesis using that J by blast
  qed
qed

text \<open>
  The journals provable with an image: those a run of the guest commits when every journal that the
  run verified against that image is provable. The receipts may differ from run to run, and so may
  what \<open>env::verify\<close> accepts.
\<close>

inductive provable ::
  "(vec_oracle, preloaded_blob_provider) guest_env \<Rightarrow>
   (vec_oracle, preloaded_blob_provider, 's, 'r block_execution_result, 'c, 'i, 'l, 'd) kona \<Rightarrow>
   'r receipts_root \<Rightarrow> (bytes \<Rightarrow> B256) \<Rightarrow> kzg \<Rightarrow> (bytes \<Rightarrow> 'r block_execution_result witness result) \<Rightarrow>
   (bytes \<Rightarrow> preimage_vec_entry result) \<Rightarrow> ('rc \<Rightarrow> bytes) \<Rightarrow> (bytes \<Rightarrow> 'dg) \<Rightarrow> B256 \<Rightarrow> bytes \<Rightarrow> bool"
  for G K root kec Z wfb sfb and receipt_journal :: "'rc \<Rightarrow> bytes" and digest :: "bytes \<Rightarrow> 'dg" and image_id
  where
  provable_run:
    "guest_main G K root (Some zk) kec Z wfb sfb input = Inr b \<Longrightarrow>
     zk_receipt_journal zk = receipt_journal \<Longrightarrow> zk_digest zk = digest \<Longrightarrow>
     (\<And>w boot pre j. guest_core G K kec Z wfb sfb input = Inr (w, boot, pre) \<Longrightarrow>
        j \<in> boot_journals G w boot pre \<union> trace_journals G w boot \<Longrightarrow>
        vouched zk (gi_receipts input) image_id j \<Longrightarrow>
        provable G K root kec Z wfb sfb receipt_journal digest image_id j) \<Longrightarrow>
     provable G K root kec Z wfb sfb receipt_journal digest image_id b"

text \<open>The segment of a boot, and the segments some run of the core client computed.\<close>

definition boot_segment :: "boot_info \<Rightarrow> stitched_boot_info" where
  "boot_segment boot = \<lparr>sb_l1_head = bi_l1_head boot,
     sb_agreed_l2_output_root = bi_agreed_l2_output_root boot,
     sb_claimed_l2_output_root = bi_claimed_l2_output_root boot,
     sb_claimed_l2_block_number = bi_claimed_l2_block_number boot\<rparr>"

definition computed_segment ::
  "(vec_oracle, preloaded_blob_provider) guest_env \<Rightarrow>
   (vec_oracle, preloaded_blob_provider, 's, 'r block_execution_result, 'c, 'i, 'l, 'd) kona \<Rightarrow>
   (bytes \<Rightarrow> B256) \<Rightarrow> kzg \<Rightarrow> (bytes \<Rightarrow> 'r block_execution_result witness result) \<Rightarrow>
   (bytes \<Rightarrow> preimage_vec_entry result) \<Rightarrow> 'rc itself \<Rightarrow> B256 \<Rightarrow> B256 \<Rightarrow> stitched_boot_info \<Rightarrow> bool" where
  "computed_segment G K kec Z wfb sfb rc config precondition s \<longleftrightarrow>
     (\<exists>(input :: 'rc guest_input) w boot.
        guest_core G K kec Z wfb sfb input = Inr (w, boot, precondition) \<and> s = boot_segment boot \<and>
        config_hash (ge_sha G) (bi_rollup_config boot) = Inr config)"

text \<open>Replacing each segment of a chain by a chain.\<close>

definition spans :: "(stitched_boot_info \<Rightarrow> bool) \<Rightarrow> stitched_boot_info list \<Rightarrow> stitched_boot_info \<Rightarrow> bool" where
  "spans Q ss b \<longleftrightarrow> ss \<noteq> [] \<and> boot_chain (sb_agreed_l2_output_root b) ss (sb_claimed_l2_output_root b) \<and>
     sb_claimed_l2_block_number (last ss) = sb_claimed_l2_block_number b \<and> (\<forall>s \<in> set ss. Q s)"

lemma boot_chain_refine:
  "boot_chain a bs c \<Longrightarrow> (\<And>b. b \<in> set bs \<Longrightarrow> \<exists>ss. spans Q ss b) \<Longrightarrow>
     \<exists>ss. boot_chain a ss c \<and> (\<forall>s \<in> set ss. Q s) \<and> (ss = [] \<longleftrightarrow> bs = []) \<and>
       (bs \<noteq> [] \<longrightarrow> sb_claimed_l2_block_number (last ss) = sb_claimed_l2_block_number (last bs))"
proof (induction bs arbitrary: a)
  case Nil
  then show ?case by auto
next
  case (Cons b bs)
  obtain ss where ss: "spans Q ss b" using Cons.prems(2) by auto
  obtain ts where ts: "boot_chain (sb_claimed_l2_output_root b) ts c" "\<forall>s \<in> set ts. Q s" "ts = [] \<longleftrightarrow> bs = []"
      "bs \<noteq> [] \<longrightarrow> sb_claimed_l2_block_number (last ts) = sb_claimed_l2_block_number (last bs)"
    using Cons.IH [of "sb_claimed_l2_output_root b"] Cons.prems by auto
  show ?case
    using ss ts Cons.prems(1)
    by (intro exI [of _ "ss @ ts"]) (auto simp: spans_def boot_chain_append)
qed

lemma journal_new_eq_Inr:
  "journal_new sha image_id payout pre boot = Inr J \<longleftrightarrow>
     (\<exists>config. config_hash sha (bi_rollup_config boot) = Inr config \<and>
        J = journal_new_stitched image_id payout pre config (boot_segment boot))"
  by (auto simp: journal_new_def journal_new_stitched_def boot_segment_def res_simps)

text \<open>A run whose stitched boots are chains of segments makes its journal one.\<close>

lemma guest_ran_spans:
  assumes ran: "guest_ran G zk rcs w boot pre J"
    and config: "config_hash (ge_sha G) (bi_rollup_config boot) = Inr config"
    and own: "Q (boot_segment boot)"
    and boots: "\<And>b. b \<in> set (w_stitched_boot_info w) \<Longrightarrow> \<exists>ss. spans Q ss b"
  shows "pj_config_hash J = config \<and> pj_precondition_hash J = pre \<and> pj_l1_head J = bi_l1_head boot \<and>
    pj_fpvm_image_id J = w_fpvm_image_id w \<and> (\<exists>ss. spans Q ss (boot_from_journal J))"
proof -
  from ran config obtain J0 before after where
      J0: "J0 = journal_new_stitched (w_fpvm_image_id w) (w_payout_recipient_address w) pre config (boot_segment boot)"
      and m: "mset (before @ after) = mset (w_stitched_boot_info w)" and st: "stitched_between J0 before after J"
    by (auto simp: guest_ran_def journal_new_eq_Inr)
  have "set before \<union> set after = set (w_stitched_boot_info w)" using m by (metis set_append set_mset_mset)
  then have sets: "b \<in> set before \<or> b \<in> set after \<Longrightarrow> b \<in> set (w_stitched_boot_info w)" for b by blast
  have before: "boot_chain (pj_agreed_l2_output_root J) before (bi_agreed_l2_output_root boot)"
    and after: "boot_chain (bi_claimed_l2_output_root boot) after (pj_claimed_l2_output_root J)"
    using st by (simp_all add: stitched_between_def J0 boot_segment_def)
  obtain ss where ss: "boot_chain (pj_agreed_l2_output_root J) ss (bi_agreed_l2_output_root boot)"
      "\<forall>s \<in> set ss. Q s"
    using boot_chain_refine [OF before, of Q] boots sets by blast
  obtain ts where ts: "boot_chain (bi_claimed_l2_output_root boot) ts (pj_claimed_l2_output_root J)"
      "\<forall>s \<in> set ts. Q s" "ts = [] \<longleftrightarrow> after = []"
      "after \<noteq> [] \<longrightarrow> sb_claimed_l2_block_number (last ts) = sb_claimed_l2_block_number (last after)"
    using boot_chain_refine [OF after, of Q] boots sets by blast
  have "spans Q (ss @ boot_segment boot # ts) (boot_from_journal J)"
    using ss ts own stitched_between_keeps(6) [OF st]
    by (auto simp: spans_def boot_chain_append boot_from_journal_def boot_segment_def J0)
  then show ?thesis using stitched_between_keeps [OF st] by (auto simp: J0 boot_segment_def)
qed

lemma provable_spans:
  fixes receipt_journal :: "'rc \<Rightarrow> bytes"
  assumes "provable G K root kec Z wfb sfb receipt_journal digest image_id b"
  shows "\<exists>J. b = encode_packed J \<and> pj_claimed_l2_output_root J \<noteq> 0 \<and>
    (pj_fpvm_image_id J = image_id \<longrightarrow>
      (\<exists>ss. spans (\<lambda>s. sb_l1_head s = pj_l1_head J \<and>
         computed_segment G K kec Z wfb sfb TYPE('rc) (pj_config_hash J) (pj_precondition_hash J) s) ss
         (boot_from_journal J)))"
  using assms
proof (induction rule: provable.induct)
  case (provable_run zk input b)
  from provable_run(1) show ?case
  proof (cases rule: guest_main_sound)
    case (1 w boot pre J)
    from 1(2) obtain config where config: "config_hash (ge_sha G) (bi_rollup_config boot) = Inr config"
      by (auto simp: guest_ran_def journal_new_eq_Inr)
    let ?Q = "\<lambda>s. sb_l1_head s = bi_l1_head boot \<and>
      computed_segment G K kec Z wfb sfb TYPE('rc) config pre s"
    have own: "?Q (boot_segment boot)"
      using 1(1) config by (auto simp: computed_segment_def boot_segment_def)
    have boots: "\<exists>ss. spans ?Q ss b'"
      if img: "w_fpvm_image_id w = image_id" and b': "b' \<in> set (w_stitched_boot_info w)" for b'
    proof -
      let ?j = "journal_new_stitched image_id (w_payout_recipient_address w) pre config b'"
      have asked: "encode_packed ?j \<in> boot_journals G w boot pre"
        using b' config img by (auto simp: boot_journals_def)
      then have "vouched zk (gi_receipts input) image_id (encode_packed ?j)"
        using 1(2) img by (auto simp: guest_ran_def)
      from provable_run.IH [OF 1(1) _ this] asked have "\<exists>ss. spans (\<lambda>s. sb_l1_head s = sb_l1_head b' \<and>
          computed_segment G K kec Z wfb sfb TYPE('rc) config pre s) ss b'" by auto
      moreover have "sb_l1_head b' = bi_l1_head boot" using 1(2) b' by (auto simp: guest_ran_def)
      ultimately show ?thesis by simp
    qed
    have "pj_fpvm_image_id J = w_fpvm_image_id w"
      using 1(2) by (auto simp: guest_ran_def journal_new_eq_Inr dest: stitched_between_keeps)
    then show ?thesis
      using guest_ran_spans [OF 1(2) config, of ?Q] own boots 1(3,4) by auto
  qed
qed

text \<open>An execution trace behind an execution-only segment.\<close>

lemma computed_execution_segment:
  fixes rc :: "'rc itself"
  assumes "computed_segment G K kec Z wfb sfb rc config h s" and "sb_l1_head s = 0"
  obtains input :: "'rc guest_input" and w boot safe_head es
  where "guest_core G K kec Z wfb sfb input = Inr (w, boot, h)" "bi_l1_head boot = 0" "s = boot_segment boot"
    "config_hash (ge_sha G) (bi_rollup_config boot) = Inr config"
    "concat (w_stitched_executions w) \<noteq> []"
    "exec_precondition_hash (ge_sha G) (ge_rlp G) (concat (w_stitched_executions w)) = Inr h"
    "execution_start G K \<lparr>vo_preimages = w_oracle_witness w, vo_queue = [], vo_stream = gi_oracle_shards input\<rparr>
      boot safe_head es"
    "execution_chain (k_executor K) es (bi_agreed_l2_output_root boot) (concat (w_stitched_executions w))
      (bi_claimed_l2_output_root boot)"
proof -
  have "sb_l1_head (boot_segment boot) = bi_l1_head boot" for boot by (simp add: boot_segment_def)
  with assms obtain input :: "'rc guest_input" and w boot where core: "guest_core G K kec Z wfb sfb input = Inr (w, boot, h)"
      and s: "s = boot_segment boot" "bi_l1_head boot = 0"
      and config: "config_hash (ge_sha G) (bi_rollup_config boot) = Inr config"
    by (auto simp: computed_segment_def)
  from core obtain data_hash o2 beacon where
      run: "run_core_client G K data_hash
        \<lparr>vo_preimages = w_oracle_witness w, vo_queue = [], vo_stream = gi_oracle_shards input\<rparr> o2 beacon
        (concat (w_stitched_executions w)) None = Inr (boot, h)"
    by (auto simp: guest_core_def res_simps)
  from execution_only_chain [OF run s(2)] show ?thesis using that core s config by blast
qed

section \<open>Properties\<close>

text \<open>
  C1. Recursive soundness: a journal that is provable with an image claims a nonzero output root,
  and, if it names that image as the image of the proofs it was stitched from, it is a chain of one
  or more segments from its agreed to its claimed output root, each computed by a run of the core
  client over a validated witness with the journal's L1 head, configuration hash and precondition
  hash, the last one ending at the claimed block number. However deep the recursion, nothing else
  went into the journal.
\<close>

theorem provable_journal_chain:
  fixes receipt_journal :: "'rc \<Rightarrow> bytes"
  assumes "provable G K root kec Z wfb sfb receipt_journal digest image_id b"
  shows "\<exists>J. b = encode_packed J \<and> pj_claimed_l2_output_root J \<noteq> 0 \<and>
    (pj_fpvm_image_id J = image_id \<longrightarrow>
      (\<exists>segments. segments \<noteq> [] \<and>
        boot_chain (pj_agreed_l2_output_root J) segments (pj_claimed_l2_output_root J) \<and>
        sb_claimed_l2_block_number (last segments) = pj_claimed_l2_block_number J \<and>
        (\<forall>s \<in> set segments. sb_l1_head s = pj_l1_head J \<and>
           computed_segment G K kec Z wfb sfb TYPE('rc) (pj_config_hash J) (pj_precondition_hash J) s)))"
  using provable_spans [OF assms] by (simp add: spans_def boot_from_journal_def)

text \<open>
  C3. Cached executions are proven: when a derivation run succeeds, every trace of executions it
  used as a cache has the precondition hash of a trace that some run of the core client executed in
  full, provided that the journals the run verified for its traces are provable: a successful run
  over a validated witness, without an L1 head and with the same configuration hash, that started
  at the safe head of the output root the cached trace starts from and ran the executor over its
  whole trace, from block to block and with every output root recomputed, up to the root it claims.
  Unless SHA-256 collides on what is hashed, the two traces agree in the agreed outputs, the payload
  attributes, the blocks built and the claimed outputs.
\<close>

theorem cached_traces_proven:
  fixes receipt_journal :: "'rc \<Rightarrow> bytes" and zk :: "('rc, 'dg) zkvm"
  assumes run: "guest_main G K root (Some zk) kec Z wfb sfb input = Inr b"
    and core: "guest_core G K kec Z wfb sfb input = Inr (w, boot, pre)"
    and head: "bi_l1_head boot \<noteq> 0" and t: "t \<in> set (w_stitched_executions w)"
    and sound: "\<And>j. j \<in> trace_journals G w boot \<Longrightarrow> vouched zk (gi_receipts input) (w_fpvm_image_id w) j \<Longrightarrow>
      provable G K root kec Z wfb sfb receipt_journal digest (w_fpvm_image_id w) j"
  shows "\<exists>h (input' :: 'rc guest_input) w' boot' safe_head s t'.
    guest_core G K kec Z wfb sfb input' = Inr (w', boot', h) \<and> bi_l1_head boot' = 0 \<and>
    config_hash (ge_sha G) (bi_rollup_config boot') = config_hash (ge_sha G) (bi_rollup_config boot) \<and>
    bi_agreed_l2_output_root boot' = ex_agreed_output (hd t) \<and>
    t' = concat (w_stitched_executions w') \<and> t' \<noteq> [] \<and>
    execution_start G K \<lparr>vo_preimages = w_oracle_witness w', vo_queue = [], vo_stream = gi_oracle_shards input'\<rparr>
      boot' safe_head s \<and>
    execution_chain (k_executor K) s (bi_agreed_l2_output_root boot') t' (bi_claimed_l2_output_root boot') \<and>
    exec_precondition_hash (ge_sha G) (ge_rlp G) t = Inr h \<and>
    exec_precondition_hash (ge_sha G) (ge_rlp G) t' = Inr h \<and>
    (inj_on (ge_sha G) (execution_preimages (ge_sha G) (ge_rlp G) t \<union>
        execution_preimages (ge_sha G) (ge_rlp G) t') \<and> inj (ge_rlp G) \<longrightarrow>
      map execution_claim t = map execution_claim t')"
proof -
  from run obtain J where ran: "guest_ran G zk (gi_receipts input) w boot pre J"
    by (rule guest_main_sound) (use core in auto)
  from ran head t obtain h where h: "exec_precondition_hash (ge_sha G) (ge_rlp G) t = Inr h" and ne: "t \<noteq> []"
    by (auto simp: guest_ran_def)
  from ran obtain config where config: "config_hash (ge_sha G) (bi_rollup_config boot) = Inr config"
    by (auto simp: guest_ran_def journal_new_eq_Inr)
  obtain tb where tb: "trace_boot t = Inr tb" "sb_l1_head tb = 0"
      "sb_agreed_l2_output_root tb = ex_agreed_output (hd t)" using ne by (auto simp: trace_boot_def)
  let ?j = "journal_new_stitched (w_fpvm_image_id w) (w_payout_recipient_address w) h config tb"
  have asked: "encode_packed ?j \<in> trace_journals G w boot"
    using t h tb(1) config by (auto simp: trace_journals_def)
  then have "vouched zk (gi_receipts input) (w_fpvm_image_id w) (encode_packed ?j)"
    using ran head by (auto simp: guest_ran_def)
  from provable_spans [OF sound [OF asked this]] tb(2,3) obtain s where
      s: "computed_segment G K kec Z wfb sfb TYPE('rc) config h s" "sb_l1_head s = 0"
      and agreed: "sb_agreed_l2_output_root s = ex_agreed_output (hd t)"
    by (auto simp: spans_def neq_Nil_conv)
  from s obtain input' :: "'rc guest_input" and w' boot' safe_head es where
      t': "guest_core G K kec Z wfb sfb input' = Inr (w', boot', h)" "bi_l1_head boot' = 0"
        "s = boot_segment boot'" "config_hash (ge_sha G) (bi_rollup_config boot') = Inr config"
        "concat (w_stitched_executions w') \<noteq> []"
        "exec_precondition_hash (ge_sha G) (ge_rlp G) (concat (w_stitched_executions w')) = Inr h"
        "execution_start G K \<lparr>vo_preimages = w_oracle_witness w', vo_queue = [], vo_stream = gi_oracle_shards input'\<rparr>
          boot' safe_head es"
        "execution_chain (k_executor K) es (bi_agreed_l2_output_root boot') (concat (w_stitched_executions w'))
          (bi_claimed_l2_output_root boot')"
    by (rule computed_execution_segment)
  have "bi_agreed_l2_output_root boot' = ex_agreed_output (hd t)"
    using agreed t'(3) by (simp add: boot_segment_def)
  with t' h config exec_precondition_hash_inject [OF h t'(6)] show ?thesis by metis
qed

text \<open>
  A concrete pair of runs: one proves a trace of two executions, the other derives the same two
  blocks with the trace as its cache and verifies the journal of the first. The L1 head counts the
  shards that the oracle may stream.
\<close>

definition rec_env :: "(vec_oracle, preloaded_blob_provider) guest_env" where
  "rec_env = vec_env"

definition rec_kona ::
  "(vec_oracle, preloaded_blob_provider, B256, unit block_execution_result, unit, unit, unit, B256) kona" where
  "rec_kona = stitch_kona (\<lambda>s. of_nat (length (vo_stream (lo_oracle s))))"

definition rec_trace :: "unit trace" where
  "rec_trace = [toy_execution 5 empty_result, toy_execution 6 empty_result]"

definition rec_witness :: "unit block_execution_result witness" where
  "rec_witness = \<lparr>w_oracle_witness = [[output_entry]], w_stream_witness = [],
     w_blobs_witness = \<lparr>bw_blobs = [], bw_commitments = [], bw_proofs = []\<rparr>,
     w_payout_recipient_address = 4, w_precondition_validation_data_hash = 0,
     w_stitched_executions = [rec_trace], w_stitched_boot_info = [], w_fpvm_image_id = 3\<rparr>"

definition rec_input :: "preimage_vec_entry list \<Rightarrow> bytes guest_input" where
  "rec_input shards = \<lparr>gi_witness_frame = [], gi_shard_frames = [], gi_oracle_shards = shards,
     gi_stream_shards = vo_preimages toy_oracle, gi_receipts = []\<rparr>"

definition rec_zkvm :: "bytes \<Rightarrow> (bytes, bytes) zkvm" where
  "rec_zkvm j = \<lparr>zk_receipt_verify = (\<lambda>_ _. False), zk_receipt_journal = (\<lambda>rc. rc), zk_digest = (\<lambda>b. b),
     zk_env_verify = (\<lambda>image_id b. image_id = 3 \<and> b = j)\<rparr>"

abbreviation rec_core :: "preimage_vec_entry list \<Rightarrow> (unit block_execution_result witness \<times> boot_info \<times> B256) result"
  where "rec_core shards \<equiv> guest_core rec_env rec_kona sample_hash toy_kzg (\<lambda>_. Inr rec_witness) (\<lambda>_. Inr [])
    (rec_input shards)"

abbreviation rec_main :: "bytes \<Rightarrow> preimage_vec_entry list \<Rightarrow> bytes result" where
  "rec_main j shards \<equiv> guest_main rec_env rec_kona no_receipts_root (Some (rec_zkvm j)) sample_hash toy_kzg
    (\<lambda>_. Inr rec_witness) (\<lambda>_. Inr []) (rec_input shards)"

abbreviation rec_provable :: "bytes \<Rightarrow> bool" where
  "rec_provable \<equiv> provable rec_env rec_kona no_receipts_root sample_hash toy_kzg (\<lambda>_. Inr rec_witness)
    (\<lambda>_. Inr []) (\<lambda>rc :: bytes. rc) (\<lambda>b. b) 3"

lemma rec_validate: "validate sample_hash sample_hash [[output_entry]] = Inr ()"
  by (simp add: validate_def validate_one_def validate_preimage_def check_image_def preimage_key_new_def
      sample_hash_output_preimage)

lemma rec_hash: "\<exists>h. exec_precondition_hash sample_hash toy_rlp rec_trace = Inr h"
proof -
  obtain bs where "attributes_bytes sample_hash toy_rlp sample_attributes = Inr bs"
    using sample_attributes_bytes by blast
  then show ?thesis
    by (simp add: rec_trace_def exec_precondition_hash_def execution_bytes_def attributes_hash_def toy_execution_def)
qed

definition rec_oracle :: "preimage_vec_entry list \<Rightarrow> vec_oracle" where
  "rec_oracle shards = \<lparr>vo_preimages = [[output_entry]], vo_queue = [], vo_stream = shards\<rparr>"

lemma rec_fetch:
  "\<exists>oracle'. fetch_safe_head_hash (local_get_exact (vec_get_exact sample_hash sample_hash))
     (local_once_new (rec_oracle shards)) 5 = (oracle', Inr 5)"
proof -
  have "length output_preimage = 128" "drop 96 output_preimage = to_be_bytes (5 :: B256)"
    by (simp_all add: output_preimage_def)
  then show ?thesis
    by (simp add: rec_oracle_def fetch_safe_head_hash_def local_get_exact_def local_once_new_def vec_get_exact_def
        vec_get_def vec_get_loop.simps preimage_key_new_def slice_vec_def)
qed

lemma rec_stream:
  "\<exists>l1. l1_new (vec_get sample_hash sample_hash) toy_decode 1
     \<lparr>vo_preimages = [], vo_queue = [], vo_stream = vo_preimages toy_oracle\<rparr> = Inr l1"
proof -
  have "validate sample_hash sample_hash (vo_preimages toy_oracle) = Inr ()"
    by (simp add: toy_oracle_def validate_def validate_one_def validate_preimage_def check_image_def
        preimage_key_new_def sample_hash_def be_nat_def)
  then show ?thesis
    by (simp add: l1_new_def toy_oracle_def vec_get_def vec_get_loop.simps toy_decode_def)
qed

lemma rec_sel:
  "ge_build rec_env = guest" "ge_sha rec_env = sample_hash" "ge_rlp rec_env = toy_rlp"
  "ge_header_decode rec_env = toy_decode" "ge_get rec_env = vec_get sample_hash sample_hash"
  "ge_get_exact rec_env = vec_get_exact sample_hash sample_hash"
  "k_boot_load rec_kona s = (s, Inr (toy_boot (of_nat (length (vo_stream (lo_oracle s))))))"
  by (simp_all add: rec_env_def vec_env_def rec_kona_def stitch_sel)

lemma rec_run_derivation:
  "run_core_client rec_env rec_kona 0 (rec_oracle [[]])
     \<lparr>vo_preimages = [], vo_queue = [], vo_stream = vo_preimages toy_oracle\<rparr> beacon rec_trace None =
     Inr (toy_boot 1, 0)"
proof -
  obtain oracle' where f: "fetch_safe_head_hash (local_get_exact (vec_get_exact sample_hash sample_hash))
     (local_once_new (rec_oracle [[]])) 5 = (oracle', Inr 5)" using rec_fetch by blast
  obtain l1 where l1: "l1_new (vec_get sample_hash sample_hash) toy_decode 1
     \<lparr>vo_preimages = [], vo_queue = [], vo_stream = vo_preimages toy_oracle\<rparr> = Inr l1" using rec_stream by blast
  have "vo_stream (lo_oracle (local_once_new (rec_oracle [[]]))) = [[]]"
    by (simp add: local_once_new_def rec_oracle_def)
  with f l1 show ?thesis
    by (simp add: run_core_client_def rec_sel toy_sel)
      (simp add: rec_kona_def stitch_sel toy_sel run_derivation_def load_precondition_data_def
        core_epilogue_def stitch_outputs check_claim_def as_usize_def toy_header_def rec_sel)
qed

lemma rec_run_execution:
  assumes h: "exec_precondition_hash sample_hash toy_rlp rec_trace = Inr h"
  shows "run_core_client rec_env rec_kona 0 (rec_oracle []) stream beacon rec_trace None =
     Inr (toy_boot 0, h)"
proof -
  obtain oracle' where f: "fetch_safe_head_hash (local_get_exact (vec_get_exact sample_hash sample_hash))
     (local_once_new (rec_oracle [])) 5 = (oracle', Inr 5)" using rec_fetch by blast
  have "vo_stream (lo_oracle (local_once_new (rec_oracle []))) = []"
    by (simp add: local_once_new_def rec_oracle_def)
  moreover have "verify_executions stitch_ops 5 5 rec_trace = Inr 7" "length rec_trace = 2" "rec_trace \<noteq> []"
      "rh_number (sh_header (bo_header (ex_artifacts (last rec_trace)))) = 7"
    by (simp_all add: rec_trace_def stitch_ops_def toy_execution_def toy_header_def seal_def empty_result_def)
  ultimately show ?thesis
    using f h by (simp add: run_core_client_def rec_sel toy_sel)
      (simp add: rec_kona_def stitch_sel toy_sel run_execution_only_def new_execution_cursor_def
        check_claim_def as_usize_def toy_header_def seal_def rec_sel stitch_ops_def l1_new_def)
qed

text \<open>Both runs, from the guest's input.\<close>

lemma rec_core_eq:
  "rec_core shards = and_then (run_core_client rec_env rec_kona 0 (rec_oracle shards)
     \<lparr>vo_preimages = [], vo_queue = [], vo_stream = vo_preimages toy_oracle\<rparr> \<lparr>pb_entries = []\<rparr> rec_trace None)
     (\<lambda>(boot, pre). Inr (rec_witness, boot, pre))"
proof -
  have "preloaded_from toy_kzg \<lparr>bw_blobs = [], bw_commitments = [], bw_proofs = []\<rparr> = Inr \<lparr>pb_entries = []\<rparr>"
    by (simp add: preloaded_from_def toy_kzg_def)
  then show ?thesis
    using rec_validate
    by (simp add: guest_core_def rec_input_def rec_witness_def rec_sel rec_oracle_def)
qed

lemma rec_main_eq:
  "rec_main j shards = and_then (run_stitching_client rec_env rec_kona no_receipts_root (Some (rec_zkvm j)) [] 0
     (rec_oracle shards) \<lparr>vo_preimages = [], vo_queue = [], vo_stream = vo_preimages toy_oracle\<rparr>
     \<lparr>pb_entries = []\<rparr> 3 4 [rec_trace] []) (\<lambda>(_, J).
     and_then (ensure (pj_claimed_l2_output_root J \<noteq> 0) ''Cannot prove proposal prematurity.'') (\<lambda>_.
     Inr (encode_packed J)))"
proof -
  have "preloaded_from toy_kzg \<lparr>bw_blobs = [], bw_commitments = [], bw_proofs = []\<rparr> = Inr \<lparr>pb_entries = []\<rparr>"
    by (simp add: preloaded_from_def toy_kzg_def)
  then show ?thesis
    using rec_validate
    by (simp add: guest_main_def run_stateless_client_def rec_input_def rec_witness_def rec_sel rec_oracle_def
        and_then_assoc case_prod_unfold)
qed

definition trace_journal :: "B256 \<Rightarrow> B256 \<Rightarrow> proof_journal" where
  "trace_journal h config = journal_new_stitched 3 4 h config (boot_segment (toy_boot 0))"

lemma rec_main_execution:
  assumes h: "exec_precondition_hash sample_hash toy_rlp rec_trace = Inr h"
    and config: "config_hash sample_hash (sample_config 250) = Inr config"
  shows "rec_main j [] = Inr (encode_packed (trace_journal h config))"
  using rec_run_execution [OF h] config
  by (simp add: rec_main_eq run_stitching_client_def split_executions_def stitch_executions_def rec_sel toy_sel
      stitch_boot_info_def journal_new_def trace_journal_def journal_new_stitched_def boot_segment_def)

lemma rec_trace_boot: "trace_boot rec_trace = Inr (boot_segment (toy_boot 0))"
  by (simp add: rec_trace_def trace_boot_def boot_segment_def toy_sel toy_execution_def toy_header_def seal_def)

lemma rec_main_derivation:
  assumes h: "exec_precondition_hash sample_hash toy_rlp rec_trace = Inr h"
    and config: "config_hash sample_hash (sample_config 250) = Inr config"
  shows "\<exists>b. rec_main (encode_packed (trace_journal h config)) [[]] = Inr b"
proof -
  have "try_fold (check_execution no_receipts_root (sample_config 250)) () rec_trace = Inr ()"
    by (simp add: rec_trace_def check_execution_def no_receipts_root_def toy_execution_def toy_header_def
        seal_def empty_result_def)
  then have "stitch_trace sample_hash toy_rlp no_receipts_root
      (verify_stitching_journal (Some (rec_zkvm (encode_packed (trace_journal h config)))) 3 {})
      (sample_config 250) 3 4 config () rec_trace = Inr ()"
    using h by (simp add: stitch_trace_def rec_trace_boot verify_stitching_journal_def rec_zkvm_def trace_journal_def)
  then show ?thesis
    using rec_run_derivation config
    by (simp add: rec_main_eq run_stitching_client_def split_executions_def stitch_executions_def rec_sel toy_sel
        stitch_boot_info_def journal_new_def)
qed

lemma rec_provable_trace:
  assumes h: "exec_precondition_hash sample_hash toy_rlp rec_trace = Inr h"
    and config: "config_hash sample_hash (sample_config 250) = Inr config"
  shows "rec_provable (encode_packed (trace_journal h config))"
proof (rule provable_run)
  show "rec_main [] [] = Inr (encode_packed (trace_journal h config))" by (rule rec_main_execution [OF h config])
  fix w boot pre j
  assume "vouched (rec_zkvm []) (gi_receipts (rec_input [])) 3 j"
    and "rec_core [] = Inr (w, boot, pre)" and j: "j \<in> boot_journals rec_env w boot pre \<union> trace_journals rec_env w boot"
  then have "j = []" by (auto simp: vouched_def zk_accepts_def rec_zkvm_def rec_input_def)
  moreover have "length j = 220" using j by (auto simp: boot_journals_def trace_journals_def length_encode_packed)
  ultimately show "rec_provable j" by simp
qed (simp_all add: rec_zkvm_def)

lemma rec_constants:
  obtains h config where "exec_precondition_hash sample_hash toy_rlp rec_trace = Inr h"
    "config_hash sample_hash (sample_config 250) = Inr config"
proof -
  obtain config where "config_hash sample_hash (sample_config 250) = Inr config"
    using sample_config_ok [of sample_hash 250] by (auto simp: config_hash_def)
  with that rec_hash show ?thesis by blast
qed

theorem provable_journal_chain_witness:
  "\<exists>J segments. rec_provable (encode_packed J) \<and> segments \<noteq> [] \<and>
     boot_chain (pj_agreed_l2_output_root J) segments (pj_claimed_l2_output_root J)"
proof -
  obtain h config where hc: "exec_precondition_hash sample_hash toy_rlp rec_trace = Inr h"
    "config_hash sample_hash (sample_config 250) = Inr config" by (rule rec_constants)
  have "pj_fpvm_image_id (trace_journal h config) = 3" by (simp add: trace_journal_def)
  with provable_journal_chain [OF rec_provable_trace [OF hc]] rec_provable_trace [OF hc] show ?thesis
    by auto
qed

theorem cached_traces_proven_witness:
  "\<exists>j b input' w' boot' h safe_head s. rec_main j [[]] = Inr b \<and>
     guest_core rec_env rec_kona sample_hash toy_kzg (\<lambda>_. Inr rec_witness) (\<lambda>_. Inr [])
       (input' :: bytes guest_input) = Inr (w', boot', h) \<and>
     execution_start rec_env rec_kona \<lparr>vo_preimages = w_oracle_witness w', vo_queue = [],
       vo_stream = gi_oracle_shards input'\<rparr> boot' safe_head s \<and>
     execution_chain stitch_ops s (bi_agreed_l2_output_root boot') (concat (w_stitched_executions w'))
       (bi_claimed_l2_output_root boot')"
proof -
  obtain h config where hc: "exec_precondition_hash sample_hash toy_rlp rec_trace = Inr h"
    "config_hash sample_hash (sample_config 250) = Inr config" by (rule rec_constants)
  let ?j = "encode_packed (trace_journal h config)"
  obtain b where run: "rec_main ?j [[]] = Inr b" using rec_main_derivation [OF hc] by blast
  have core: "rec_core [[]] = Inr (rec_witness, toy_boot 1, 0)" by (simp add: rec_core_eq rec_run_derivation)
  have t: "rec_trace \<in> set (w_stitched_executions rec_witness)" by (simp add: rec_witness_def)
  have head: "bi_l1_head (toy_boot 1) \<noteq> 0" by (simp add: toy_sel)
  have provable: "rec_provable j"
    if "vouched (rec_zkvm ?j) (gi_receipts (rec_input [[]])) (w_fpvm_image_id rec_witness) j" for j
  proof -
    have "j = ?j" using that by (auto simp: vouched_def zk_accepts_def rec_zkvm_def rec_input_def)
    then show ?thesis using rec_provable_trace [OF hc] by simp
  qed
  have img: "w_fpvm_image_id rec_witness = 3" by (simp add: rec_witness_def)
  have ops: "k_executor rec_kona = stitch_ops" by (simp add: rec_kona_def stitch_sel)
  from cached_traces_proven [OF run core head t, where receipt_journal = "\<lambda>rc. rc" and digest = "\<lambda>b. b"]
    provable run show ?thesis unfolding img ops by blast
qed

end
