(* ===== verification/Witgen.thy ===== *)
theory Witgen
  imports Stitching
begin

text \<open>
  Witness generation and encoding on the host (\<open>src/crates/prover/src/client/witgen.rs\<close>,
  \<open>src/crates/prover/src/client/proving.rs\<close>, \<open>src/crates/prover/src/lib.rs\<close>): the providers that
  record what the core client reads, the witness made of the records, its size limits and the
  frames the guest reads it from.

  The serialization functions of \<open>rkyv\<close> for a witness and for a shard are parameters. The sizes of
  frames in memory are natural numbers: their sum is below the 64-bit limit of the host.
\<close>

section \<open>Recording providers\<close>

record 'o oracle_witness_provider =
  wp_oracle :: 'o
  wp_witness :: preimage_vec_store

definition wp_save ::
  "(bytes \<Rightarrow> B256) \<Rightarrow> (bytes \<Rightarrow> B256) \<Rightarrow> 'o oracle_witness_provider \<Rightarrow> preimage_key \<Rightarrow> bytes \<Rightarrow>
   'o oracle_witness_provider \<times> bytes result" where
  "wp_save kec sha s key v =
     (case insert_preimage kec sha (wp_witness s) key v of
        Inl e \<Rightarrow> (s, Inl e)
      | Inr preimages \<Rightarrow> (s\<lparr>wp_witness := preimages\<rparr>, Inr v))"

definition wp_get ::
  "(bytes \<Rightarrow> B256) \<Rightarrow> (bytes \<Rightarrow> B256) \<Rightarrow> ('o \<Rightarrow> preimage_key \<Rightarrow> 'o \<times> bytes result) \<Rightarrow>
   'o oracle_witness_provider \<Rightarrow> preimage_key \<Rightarrow> 'o oracle_witness_provider \<times> bytes result" where
  "wp_get kec sha inner_get s key =
     (case inner_get (wp_oracle s) key of
        (q, Inl e) \<Rightarrow> (s\<lparr>wp_oracle := q\<rparr>, Inl e)
      | (q, Inr v) \<Rightarrow> wp_save kec sha (s\<lparr>wp_oracle := q\<rparr>) key v)"

definition wp_get_exact ::
  "(bytes \<Rightarrow> B256) \<Rightarrow> (bytes \<Rightarrow> B256) \<Rightarrow> ('o \<Rightarrow> preimage_key \<Rightarrow> nat \<Rightarrow> 'o \<times> bytes result) \<Rightarrow>
   'o oracle_witness_provider \<Rightarrow> preimage_key \<Rightarrow> nat \<Rightarrow> 'o oracle_witness_provider \<times> bytes result" where
  "wp_get_exact kec sha inner_get_exact s key n =
     (case inner_get_exact (wp_oracle s) key n of
        (q, Inl e) \<Rightarrow> (s\<lparr>wp_oracle := q\<rparr>, Inl e)
      | (q, Inr buf) \<Rightarrow> wp_save kec sha (s\<lparr>wp_oracle := q\<rparr>) key buf)"

record 'p blob_witness_provider =
  bp_provider :: 'p
  bp_witness :: blob_witness_data

text \<open>The commitment and proof of each blob are computed as in theory \<open>Blobs\<close>.\<close>

definition bp_get_blobs ::
  "kzg \<Rightarrow> ('p \<Rightarrow> block_info \<Rightarrow> indexed_blob_hash list \<Rightarrow> 'p \<times> blob list result) \<Rightarrow>
   'p blob_witness_provider \<Rightarrow> block_info \<Rightarrow> indexed_blob_hash list \<Rightarrow>
   'p blob_witness_provider \<times> blob list result" where
  "bp_get_blobs Z inner_get_blobs s block_ref hashes =
     (case inner_get_blobs (bp_provider s) block_ref hashes of
        (p, Inl e) \<Rightarrow> (s\<lparr>bp_provider := p\<rparr>, Inl e)
      | (p, Inr blobs) \<Rightarrow>
          (case witness_blobs Z (bp_witness s) blobs of
             Inl e \<Rightarrow> (s\<lparr>bp_provider := p\<rparr>, Inl e)
           | Inr w \<Rightarrow> (s\<lparr>bp_provider := p, bp_witness := w\<rparr>, Inr blobs)))"

section \<open>The generated witness\<close>

text \<open>The loop over the collected executions, and the claim of the last one.\<close>

definition fix_claimed_outputs :: "'x execution list \<Rightarrow> B256 \<Rightarrow> 'x execution list" where
  "fix_claimed_outputs executions claimed =
     (let executions = fold (\<lambda>i es. es[i - 1 := (es ! (i - 1))\<lparr>ex_claimed_output := ex_agreed_output (es ! i)\<rparr>])
        [1..<length executions] executions
      in if executions = [] then []
         else executions[length executions - 1 := (last executions)\<lparr>ex_claimed_output := claimed\<rparr>])"

text \<open>
  What \<open>run_witgen_client\<close> does with a finished core client run: the boot information and the
  precondition it returned, the executions it collected and what its providers recorded.
\<close>

definition finish_witgen ::
  "(bytes \<Rightarrow> B256) \<Rightarrow> (bytes \<Rightarrow> B256) \<Rightarrow> B256 \<Rightarrow> nat \<Rightarrow> Address \<Rightarrow> B256 \<Rightarrow> stitched_boot_info list \<Rightarrow>
   boot_info \<Rightarrow> B256 \<Rightarrow> 'x execution list \<Rightarrow> preimage_vec_store \<Rightarrow> preimage_vec_store \<Rightarrow> blob_witness_data \<Rightarrow>
   (boot_info \<times> proof_journal \<times> 'x witness) result" where
  "finish_witgen kec sha fpvm_image_id shard_size payout_recipient data_hash stitched_boot_info
     boot precondition executions oracle_witness stream_witness blobs_witness =
     and_then (finalize_preimages kec sha shard_size True oracle_witness) (\<lambda>oracle_witness.
     and_then (finalize_preimages kec sha shard_size False stream_witness) (\<lambda>stream_witness.
     and_then (stitch_boot_info sha (verify_stitching_journal (None :: (unit, unit) zkvm option) fpvm_image_id {})
       boot fpvm_image_id payout_recipient precondition stitched_boot_info) (\<lambda>(boot', journal_output).
     Inr (boot', journal_output,
       \<lparr>w_oracle_witness = oracle_witness, w_stream_witness = stream_witness,
        w_blobs_witness = blobs_witness, w_payout_recipient_address = payout_recipient,
        w_precondition_validation_data_hash = data_hash,
        w_stitched_executions = [fix_claimed_outputs executions (bi_claimed_l2_output_root boot)],
        w_stitched_boot_info = stitched_boot_info, w_fpvm_image_id = fpvm_image_id\<rparr>))))"

section \<open>Frames\<close>

text \<open>Every shard is moved out of the witness and serialized.\<close>

definition shard_witness_data ::
  "(preimage_vec_entry \<Rightarrow> bytes result) \<Rightarrow> preimage_vec_store \<Rightarrow> (preimage_vec_store \<times> bytes list) result" where
  "shard_witness_data shard_to_bytes data =
     and_then (try_map shard_to_bytes data) (\<lambda>shards. Inr (map (\<lambda>_. []) data, shards))"

definition encode_witness_frames ::
  "('x witness \<Rightarrow> bytes result) \<Rightarrow> (preimage_vec_entry \<Rightarrow> bytes result) \<Rightarrow> 'x witness \<Rightarrow>
   (bytes list \<times> bytes list) result" where
  "encode_witness_frames witness_to_bytes shard_to_bytes w =
     and_then (shard_witness_data shard_to_bytes (w_oracle_witness w)) (\<lambda>(preloaded_data, shards).
     and_then (shard_witness_data shard_to_bytes (w_stream_witness w)) (\<lambda>(_, streams).
     and_then (witness_to_bytes (w\<lparr>w_oracle_witness := preloaded_data, w_stream_witness := []\<rparr>)) (\<lambda>main_frame.
     Inr (main_frame # shards, rev streams))))"

definition sum_witness_size ::
  "('x witness \<Rightarrow> bytes result) \<Rightarrow> (preimage_vec_entry \<Rightarrow> bytes result) \<Rightarrow> 'x witness \<Rightarrow> (nat \<times> nat) result" where
  "sum_witness_size witness_to_bytes shard_to_bytes w =
     and_then (expect (encode_witness_frames witness_to_bytes shard_to_bytes w) ''Failed to encode VecOracle'')
       (\<lambda>(witness_frames, streamed_frames).
     Inr (sum_list (map length witness_frames), sum_list (map length streamed_frames)))"

text \<open>Errors of the prover; an \<open>anyhow\<close> error is its chain of messages.\<close>

datatype 'x proving_error =
    DerivationProofError nat
  | NotSeekingProof nat "'x execution list list"
  | NotAwaitingProof
  | BlockCountError nat nat "'x execution list list"
  | WitnessSizeError nat nat "'x execution list list"
  | ExecutionError "string list"
  | OtherError "string list"

text \<open>\<open>map_err(ProvingError::OtherError)\<close>: an error value becomes a proving error, a panic stays one.\<close>

definition other_error :: "'a result \<Rightarrow> ('x proving_error + 'a) result" where
  "other_error r = (case r of Inr a \<Rightarrow> Inr (Inr a) | Inl (Bail ms) \<Rightarrow> Inr (Inl (OtherError ms)) | Inl (Panic m) \<Rightarrow> Inl (Panic m))"

definition process_witness ::
  "kzg \<Rightarrow> ('x witness \<Rightarrow> bytes result) \<Rightarrow> (preimage_vec_entry \<Rightarrow> bytes result) \<Rightarrow> nat \<Rightarrow> nat \<Rightarrow>
   'x witness \<Rightarrow> 'x execution list list \<Rightarrow> bytes list \<Rightarrow> bool \<Rightarrow> bool \<Rightarrow>
   ('x proving_error + bytes list) result" where
  "process_witness Z witness_to_bytes shard_to_bytes max_witness_size max_block_executions w
     stitched_executions extra_frames seek_proof force_attempt =
     (let execution_trace = w_stitched_executions w;
          w = w\<lparr>w_stitched_executions := stitched_executions\<rparr>
      in and_then (preloaded_from Z (w_blobs_witness w)) (\<lambda>_.
         and_then (sum_witness_size witness_to_bytes shard_to_bytes w) (\<lambda>(preloaded_wit_size, streamed_wit_size).
         let total_wit_size = preloaded_wit_size + streamed_wit_size + sum_list (map length extra_frames);
             num_executions = length (concat execution_trace)
         in if total_wit_size > max_witness_size \<and> \<not> force_attempt
            then Inr (Inl (WitnessSizeError total_wit_size max_witness_size execution_trace))
            else if num_executions > max_block_executions \<and> \<not> force_attempt
            then Inr (Inl (BlockCountError num_executions max_block_executions execution_trace))
            else if \<not> seek_proof then Inr (Inl (NotSeekingProof total_wit_size execution_trace))
            else other_error (err_context
              (and_then (encode_witness_frames witness_to_bytes shard_to_bytes w)
                (\<lambda>(preloaded_frames, streamed_frames).
                 Inr (extra_frames @ preloaded_frames @ streamed_frames)))
              ''Failed to encode VecOracle''))))"

section \<open>Recording\<close>

lemma wp_save_eq_Inr:
  "wp_save kec sha s key v = (s', Inr u) \<longleftrightarrow> u = v \<and>
     (\<exists>preimages. insert_preimage kec sha (wp_witness s) key v = Inr preimages \<and> s' = s\<lparr>wp_witness := preimages\<rparr>)"
  by (auto simp: wp_save_def split: sum.splits)

lemma wp_get_eq_Inr:
  "wp_get kec sha inner s key = (s', Inr v) \<longleftrightarrow>
     (\<exists>q preimages. inner (wp_oracle s) key = (q, Inr v) \<and>
        insert_preimage kec sha (wp_witness s) key v = Inr preimages \<and>
        s' = s\<lparr>wp_oracle := q, wp_witness := preimages\<rparr>)"
  by (auto simp: wp_get_def wp_save_eq_Inr split: prod.splits sum.splits)

text \<open>A recorder hands out authentic preimages whatever the inner oracle answers.\<close>

definition recorded :: "(bytes \<Rightarrow> B256) \<Rightarrow> (bytes \<Rightarrow> B256) \<Rightarrow> 'o oracle_witness_provider \<Rightarrow> bool" where
  "recorded kec sha s \<longleftrightarrow> no_pointers (concat (wp_witness s)) \<and> all_authentic kec sha (concat (wp_witness s))"

interpretation recorder: preimage_oracle "wp_get kec sha inner" "recorded kec sha" "authentic_preimage kec sha"
  for kec sha inner
proof
  fix s s' :: "'a oracle_witness_provider" and key v
  assume inv: "recorded kec sha s" and get: "wp_get kec sha inner s key = (s', Inr v)"
  then show auth: "authentic_preimage kec sha key v" by (auto simp: wp_get_eq_Inr insert_preimage_eq_Inr)
  from get obtain preimages where "insert_preimage kec sha (wp_witness s) key v = Inr preimages"
      "wp_witness s' = preimages" by (auto simp: wp_get_eq_Inr)
  then have "concat (wp_witness s') = concat (wp_witness s) @ [(key, v, None)]"
    by (simp add: concat_insert_preimage)
  then show "recorded kec sha s'"
    using inv auth by (simp add: recorded_def all_authentic_def)
qed

lemma recorded_contents:
  "recorder.run_gets kec sha inner s ks = (s', Inr vs) \<Longrightarrow>
     contents (concat (wp_witness s')) = contents (concat (wp_witness s)) @ zip ks vs \<and> length vs = length ks"
proof (induction ks arbitrary: s vs)
  case Nil
  then show ?case by simp
next
  case (Cons k ks)
  then obtain t v us where "wp_get kec sha inner s k = (t, Inr v)" and
      rest: "recorder.run_gets kec sha inner t ks = (s', Inr us)" and vs: "vs = v # us"
    by (auto simp: res_simps split: prod.splits sum.splits)
  then have "concat (wp_witness t) = concat (wp_witness s) @ [(k, v, None)]"
    by (auto simp: wp_get_eq_Inr concat_insert_preimage)
  with Cons.IH [OF rest] vs show ?case by simp
qed

text \<open>A recorded store, once finalized, answers what the recorder answered.\<close>

lemma recorded_store:
  assumes "recorder.run_gets kec sha inner \<lparr>wp_oracle = q, wp_witness = []\<rparr> ks = (s, Inr vs)"
  shows "no_pointers (concat (wp_witness s))" "all_authentic kec sha (concat (wp_witness s))"
    "contents (concat (wp_witness s)) = zip ks vs" "length vs = length ks"
proof -
  have "recorded kec sha \<lparr>wp_oracle = q, wp_witness = []\<rparr>" by (simp add: recorded_def all_authentic_def)
  from recorder.run_gets_authentic [OF this assms] show "no_pointers (concat (wp_witness s))"
      "all_authentic kec sha (concat (wp_witness s))"
    by (simp_all add: recorded_def)
  show "contents (concat (wp_witness s)) = zip ks vs" "length vs = length ks"
    using recorded_contents [OF assms] by simp_all
qed

lemma recorded_replays:
  assumes run: "recorder.run_gets kec sha inner \<lparr>wp_oracle = q, wp_witness = []\<rparr> ks = (s, Inr vs)"
    and cf: "conflict_free (zip ks vs)"
    and fin: "finalize_preimages kec sha shard_size ptrs (wp_witness s) = Inr U"
  shows "validate kec sha U = Inr ()"
    "\<exists>s'. vec.run_gets kec sha \<lparr>vo_preimages = U, vo_queue = [], vo_stream = []\<rparr> ks = (s', Inr vs)"
    "\<not> ptrs \<Longrightarrow> \<exists>s'. vec.run_gets kec sha \<lparr>vo_preimages = [], vo_queue = [], vo_stream = rev U\<rparr> ks = (s', Inr vs)"
proof -
  note st = recorded_store [OF run]
  from finalize_ok [OF st(1,2), of shard_size ptrs] cf st(3) fin
  have U: "validate kec sha U = Inr ()" "contents (concat U) = rev (zip ks vs)" by auto
  show "validate kec sha U = Inr ()" by (rule U)
  have zip: "map fst (zip ks vs) = ks" "map snd (zip ks vs) = vs" using st(4) by simp_all
  have seq: "oracle_sequence \<lparr>vo_preimages = U, vo_queue = [], vo_stream = []\<rparr> = rev (zip ks vs)"
    "oracle_sequence \<lparr>vo_preimages = [], vo_queue = [], vo_stream = rev U\<rparr> = rev (zip ks vs)"
    using U(2) by (simp_all add: oracle_sequence_def)
  show "\<exists>s'. vec.run_gets kec sha \<lparr>vo_preimages = U, vo_queue = [], vo_stream = []\<rparr> ks = (s', Inr vs)"
    using replay_in_order [OF ready_preloaded seq(1)] unfolding zip .
  assume "\<not> ptrs"
  then have "ready kec sha \<lparr>vo_preimages = [], vo_queue = [], vo_stream = rev U\<rparr>"
    using finalize_no_pointers [OF st(1)] fin validate_shard_alone [OF U(1)] by (simp add: ready_def)
  from replay_in_order [OF this seq(2)]
  show "\<exists>s'. vec.run_gets kec sha \<lparr>vo_preimages = [], vo_queue = [], vo_stream = rev U\<rparr> ks = (s', Inr vs)"
    unfolding zip .
qed

section \<open>Frames and the guest\<close>

definition decodes :: "('a \<Rightarrow> bytes result) \<Rightarrow> (bytes \<Rightarrow> 'a result) \<Rightarrow> bool" where
  "decodes to_bytes from_bytes \<longleftrightarrow> (\<forall>x b. to_bytes x = Inr b \<longrightarrow> from_bytes b = Inr x)"

lemma shard_witness_data_eq_Inr [res_simps]:
  "shard_witness_data to_bytes data = Inr (left, shards) \<longleftrightarrow>
     left = map (\<lambda>_. []) data \<and> try_map to_bytes data = Inr shards"
  by (auto simp: shard_witness_data_def res_simps)

lemma try_map_decodes:
  "decodes to_bytes from_bytes \<Longrightarrow> try_map to_bytes xs = Inr bs \<Longrightarrow> try_map from_bytes bs = Inr xs"
  by (auto simp: try_map_eq_Inr decodes_def)

lemma load_shards_encoded:
  "decodes to_bytes from_bytes \<Longrightarrow> try_map to_bytes data = Inr shards \<Longrightarrow>
     load_shards from_bytes (map (\<lambda>_. []) data) (shards @ rest) = Inr (data, rest)"
proof (induction data arbitrary: shards)
  case Nil
  then show ?case by simp
next
  case (Cons e es)
  then obtain b bs where "to_bytes e = Inr b" "try_map to_bytes es = Inr bs" "shards = b # bs"
    by (auto simp: res_simps)
  with Cons.IH [of bs] Cons.prems(1) show ?case by (simp add: decodes_def)
qed

lemma encode_witness_frames_eq_Inr:
  "encode_witness_frames tw ts w = Inr (frames, streams) \<longleftrightarrow>
     (\<exists>main shards rstreams. frames = main # shards \<and> streams = rev rstreams \<and>
        try_map ts (w_oracle_witness w) = Inr shards \<and> try_map ts (w_stream_witness w) = Inr rstreams \<and>
        tw (w\<lparr>w_oracle_witness := map (\<lambda>_. []) (w_oracle_witness w), w_stream_witness := []\<rparr>) = Inr main)"
  by (auto simp: encode_witness_frames_def res_simps)

lemma encode_load:
  assumes enc: "encode_witness_frames tw ts w = Inr (frames, streams)"
    and codec: "decodes tw fw" "decodes ts fs"
  obtains main shards w' where "frames = main # shards" "fw main = Inr w'"
    "load_shards fs (w_oracle_witness w') (shards @ rest) = Inr (w_oracle_witness w, rest)"
    "w'\<lparr>w_oracle_witness := w_oracle_witness w\<rparr> = w\<lparr>w_stream_witness := []\<rparr>"
    "try_map fs streams = Inr (rev (w_stream_witness w))"
proof -
  let ?w = "w\<lparr>w_oracle_witness := map (\<lambda>_. []) (w_oracle_witness w), w_stream_witness := []\<rparr>"
  from enc obtain main shards rstreams where e: "frames = main # shards" "streams = rev rstreams"
      "try_map ts (w_oracle_witness w) = Inr shards" "try_map ts (w_stream_witness w) = Inr rstreams"
      "tw ?w = Inr main"
    by (auto simp: encode_witness_frames_eq_Inr)
  have "fw main = Inr ?w" using codec(1) e(5) by (simp add: decodes_def)
  moreover have "load_shards fs (w_oracle_witness ?w) (shards @ rest) = Inr (w_oracle_witness w, rest)"
    using load_shards_encoded [OF codec(2) e(3)] by simp
  moreover have "try_map fs streams = Inr (rev (w_stream_witness w))"
    using try_map_decodes [OF codec(2) e(4)] e(2)
    by (simp add: try_map_eq_Inr rev_nth)
  ultimately show ?thesis using that [OF e(1)] by simp
qed

lemma fix_claimed_outputs_loop:
  assumes "k \<le> length es"
  shows "fold (\<lambda>i es. es[i - 1 := (es ! (i - 1))\<lparr>ex_claimed_output := ex_agreed_output (es ! i)\<rparr>]) [1..<k] es =
     map (\<lambda>i. if Suc i < k then (es ! i)\<lparr>ex_claimed_output := ex_agreed_output (es ! Suc i)\<rparr> else es ! i)
       [0..<length es]"
  using assms
proof (induction k)
  case 0
  then show ?case by (simp add: map_nth)
next
  case (Suc k)
  show ?case
  proof (cases "k = 0")
    case True
    then show ?thesis by (simp add: map_nth)
  next
    case False
    let ?f = "\<lambda>i es. es[i - 1 := (es ! (i - 1))\<lparr>ex_claimed_output := ex_agreed_output (es ! i)\<rparr>]"
    have "fold ?f [1..<Suc k] es = ?f k (fold ?f [1..<k] es)" using False by simp
    also have "\<dots> = ?f k (map (\<lambda>i. if Suc i < k then (es ! i)\<lparr>ex_claimed_output := ex_agreed_output (es ! Suc i)\<rparr>
        else es ! i) [0..<length es])" using Suc by simp
    also have "\<dots> = map (\<lambda>i. if Suc i < Suc k then (es ! i)\<lparr>ex_claimed_output := ex_agreed_output (es ! Suc i)\<rparr>
        else es ! i) [0..<length es]"
      using Suc.prems False by (intro nth_equalityI) (auto simp: nth_list_update)
    finally show ?thesis .
  qed
qed

lemma recover_collected_executions_nth:
  "recover_collected_executions es claimed =
     map (\<lambda>i. (es ! i)\<lparr>ex_claimed_output := if Suc i < length es then ex_agreed_output (es ! Suc i) else claimed\<rparr>)
       [0..<length es]"
proof (induction es claimed rule: recover_collected_executions.induct)
  case (3 e f es claimed)
  show ?case
    by (simp only: recover_collected_executions.simps "3") (simp add: map_upt_Suc del: upt_Suc)
qed simp_all

section \<open>Properties\<close>

text \<open>A concrete record: one preimage each for the oracle and the stream, and a codec for what is encoded.\<close>

abbreviation seven :: preimage_key where
  "seven \<equiv> preimage_key_new 7 Keccak256"

definition once_to_bytes :: "'a \<Rightarrow> 'a \<Rightarrow> bytes result" where
  "once_to_bytes x y = (if y = x then Inr [1] else bail ''unsupported'')"

lemma decodes_once: "decodes (once_to_bytes x) (\<lambda>_. Inr x)"
  by (simp add: decodes_def once_to_bytes_def bail_def)

definition seven_shard :: preimage_vec_entry where
  "seven_shard = [(seven, [7], None)]"

lemma seven_authentic: "authentic_preimage sample_hash sample_hash seven [7]"
  by (simp add: authentic_preimage_def preimage_key_new_def sample_hash_def be_nat_def)

lemma seven_recorded:
  "recorder.run_gets sample_hash sample_hash (\<lambda>u k. (u, Inr [7])) \<lparr>wp_oracle = (), wp_witness = []\<rparr> [seven] =
     (\<lparr>wp_oracle = (), wp_witness = [seven_shard]\<rparr>, Inr [[7]])"
proof -
  have "validate_preimage sample_hash sample_hash seven [7] = Inr ()"
    using seven_authentic by (simp add: validate_preimage_eq_Inr)
  then show ?thesis
    by (simp add: wp_get_def wp_save_def insert_preimage_def push_last_def seven_shard_def)
qed

lemma seven_finalized: "finalize_preimages sample_hash sample_hash n ptrs [seven_shard] = Inr [seven_shard]"
  by (simp add: finalize_preimages_def seven_shard_def validate_def validate_one_def validate_preimage_def
      check_image_def preimage_key_new_def sample_hash_def be_nat_def push_last_def Let_def)

definition seven_witness :: "bool witness" where
  "seven_witness = \<lparr>w_oracle_witness = [seven_shard], w_stream_witness = [seven_shard],
     w_blobs_witness = \<lparr>bw_blobs = [], bw_commitments = [], bw_proofs = []\<rparr>, w_payout_recipient_address = 4,
     w_precondition_validation_data_hash = 0,
     w_stitched_executions = [fix_claimed_outputs [toy_execution 5 True, toy_execution 6 True] 7],
     w_stitched_boot_info = [], w_fpvm_image_id = 3\<rparr>"

definition seven_main :: "bool witness" where
  "seven_main = seven_witness\<lparr>w_oracle_witness := [[]], w_stream_witness := []\<rparr>"

lemma seven_encoded:
  "encode_witness_frames (once_to_bytes seven_main) (once_to_bytes seven_shard) seven_witness = Inr ([1] # [[1]], [[1]])"
  by (simp add: encode_witness_frames_def shard_witness_data_def once_to_bytes_def seven_main_def seven_witness_def)

lemma seven_finished:
  "\<exists>J. finish_witgen sample_hash sample_hash 3 10 4 0 [] (toy_boot 1) 0 [toy_execution 5 True, toy_execution 6 True]
     [seven_shard] [seven_shard] \<lparr>bw_blobs = [], bw_commitments = [], bw_proofs = []\<rparr> =
     Inr (toy_boot 1, J, seven_witness)"
proof -
  obtain config where "config_hash sample_hash (sample_config 250) = Inr config"
    using sample_config_ok [of sample_hash 250] by (auto simp: config_hash_def)
  then show ?thesis
    by (simp add: finish_witgen_def seven_finalized stitch_boot_info_def journal_new_def toy_sel seven_witness_def)
qed

text \<open>
  C22. From the host's reads to the guest's: when the recorders answered two sequences of keys (of the
  oracle and of the stream, a checked key always with the same value), the recorded stores are
  finalized into a witness and the witness is encoded into frames, then the guest decodes the frames
  to the same preloaded store, which it validates, and to the same streamed shards, and its two
  oracles answer the same keys in the same order with the same values.
\<close>

theorem recorded_witness_replays:
  assumes oracle_run: "recorder.run_gets kec sha inner \<lparr>wp_oracle = q, wp_witness = []\<rparr> ks = (s, Inr vs)"
    and stream_run: "recorder.run_gets kec sha inner \<lparr>wp_oracle = q', wp_witness = []\<rparr> ks' = (s', Inr vs')"
    and cf: "conflict_free (zip ks vs)" "conflict_free (zip ks' vs')"
    and fin: "finish_witgen kec sha image_id shard_size payout data_hash boots boot0 pre executions
      (wp_witness s) (wp_witness s') blobs = Inr (boot, J, w)"
    and enc: "encode_witness_frames tw ts w = Inr (main # shards, streams)"
    and codec: "decodes tw fw" "decodes ts fs"
  shows "\<exists>w' preimages streamed.
    fw main = Inr w' \<and> load_shards fs (w_oracle_witness w') shards = Inr (preimages, []) \<and>
    validate kec sha preimages = Inr () \<and> try_map fs streams = Inr streamed \<and>
    snd (vec.run_gets kec sha \<lparr>vo_preimages = preimages, vo_queue = [], vo_stream = []\<rparr> ks) = Inr vs \<and>
    snd (vec.run_gets kec sha \<lparr>vo_preimages = [], vo_queue = [], vo_stream = streamed\<rparr> ks') = Inr vs'"
proof -
  from fin have U: "finalize_preimages kec sha shard_size True (wp_witness s) = Inr (w_oracle_witness w)"
      and V: "finalize_preimages kec sha shard_size False (wp_witness s') = Inr (w_stream_witness w)"
    by (auto simp: finish_witgen_def res_simps)
  obtain w' where w': "fw main = Inr w'"
      "load_shards fs (w_oracle_witness w') shards = Inr (w_oracle_witness w, [])"
      "try_map fs streams = Inr (rev (w_stream_witness w))"
    using encode_load [OF enc codec, of "[]"] by auto
  note oracle_ok = recorded_replays [OF oracle_run cf(1) U]
  note stream_ok = recorded_replays [OF stream_run cf(2) V]
  from oracle_ok(2) stream_ok(3) have
    "snd (vec.run_gets kec sha \<lparr>vo_preimages = w_oracle_witness w, vo_queue = [], vo_stream = []\<rparr> ks) = Inr vs"
    "snd (vec.run_gets kec sha \<lparr>vo_preimages = [], vo_queue = [], vo_stream = rev (w_stream_witness w)\<rparr> ks') = Inr vs'"
    by (metis snd_conv)+
  with w' oracle_ok(1) show ?thesis by blast
qed

theorem recorded_witness_replays_witness:
  "\<exists>preimages. load_shards (\<lambda>_. Inr seven_shard) (w_oracle_witness seven_main) [[1]] = Inr (preimages, []) \<and>
     snd (vec.run_gets sample_hash sample_hash \<lparr>vo_preimages = preimages, vo_queue = [], vo_stream = []\<rparr> [seven]) =
       Inr [[7]]"
proof -
  have cf: "conflict_free (zip [seven] [[7]])" by (simp add: conflict_free_def)
  obtain J where fin: "finish_witgen sample_hash sample_hash 3 10 4 0 [] (toy_boot 1) 0
      [toy_execution 5 True, toy_execution 6 True] [seven_shard] [seven_shard]
      \<lparr>bw_blobs = [], bw_commitments = [], bw_proofs = []\<rparr> = Inr (toy_boot 1, J, seven_witness)"
    using seven_finished by blast
  then have "finish_witgen sample_hash sample_hash 3 10 4 0 [] (toy_boot 1) 0
      [toy_execution 5 True, toy_execution 6 True] (wp_witness \<lparr>wp_oracle = (), wp_witness = [seven_shard]\<rparr>)
      (wp_witness \<lparr>wp_oracle = (), wp_witness = [seven_shard]\<rparr>)
      \<lparr>bw_blobs = [], bw_commitments = [], bw_proofs = []\<rparr> = Inr (toy_boot 1, J, seven_witness)" by simp
  from recorded_witness_replays [OF seven_recorded seven_recorded cf cf this seven_encoded decodes_once decodes_once]
  show ?thesis by auto
qed

definition toy_vec_env :: "(vec_oracle, preloaded_blob_provider) guest_env" where
  "toy_vec_env = vec_env"

definition toy_vec_kona ::
  "(vec_oracle, preloaded_blob_provider, B256, unit block_execution_result, unit, unit, unit, B256) kona" where
  "toy_vec_kona = stitch_kona (\<lambda>_. 1)"

definition stateless_witness :: "unit block_execution_result witness" where
  "stateless_witness = \<lparr>w_oracle_witness = [seven_shard], w_stream_witness = [seven_shard],
     w_blobs_witness = \<lparr>bw_blobs = [], bw_commitments = [], bw_proofs = []\<rparr>, w_payout_recipient_address = 4,
     w_precondition_validation_data_hash = 0, w_stitched_executions = [], w_stitched_boot_info = [],
     w_fpvm_image_id = 3\<rparr>"

definition stateless_main :: "unit block_execution_result witness" where
  "stateless_main = stateless_witness\<lparr>w_oracle_witness := [[]], w_stream_witness := []\<rparr>"

lemma stateless_encoded:
  "encode_witness_frames (once_to_bytes stateless_main) (once_to_bytes seven_shard) stateless_witness =
     Inr ([1] # [[1]], [[1]])"
  by (simp add: encode_witness_frames_def shard_witness_data_def once_to_bytes_def stateless_main_def
      stateless_witness_def)

text \<open>
  C23. The guest runs on the witness the host encoded: given the frames of a witness, the guest
  program commits what the stateless client returns on that witness with its shards in place,
  followed by the check of a nonzero claim; only the stream witness, which is streamed in, is gone.
\<close>

theorem guest_runs_encoded_witness:
  assumes enc: "encode_witness_frames tw ts w = Inr (main # shards, streams)"
    and codec: "decodes tw fw" "decodes ts fs"
  shows "guest_main G K root zk kec Z fw fs
      \<lparr>gi_witness_frame = main, gi_shard_frames = shards, gi_oracle_shards = oracle_shards,
       gi_stream_shards = stream_shards, gi_receipts = receipts\<rparr> =
    and_then (run_stateless_client G K root zk kec Z oracle_shards stream_shards receipts
      (w\<lparr>w_stream_witness := []\<rparr>)) (\<lambda>J.
    if pj_claimed_l2_output_root J = 0 then Inl (Panic ''Cannot prove proposal prematurity.'')
    else Inr (encode_packed J))"
proof -
  obtain w' where w': "fw main = Inr w'"
      "load_shards fs (w_oracle_witness w') shards = Inr (w_oracle_witness w, [])"
      "w'\<lparr>w_oracle_witness := w_oracle_witness w\<rparr> = w\<lparr>w_stream_witness := []\<rparr>"
    using encode_load [OF enc codec, of "[]"] by auto
  have "and_then (ensure (x \<noteq> 0) m) (\<lambda>_. Inr y) = (if x = 0 then Inl (Panic m) else Inr y)"
    for x :: B256 and m and y :: bytes by (simp add: ensure_def)
  then show ?thesis by (simp add: guest_main_def w')
qed

theorem guest_runs_encoded_witness_witness:
  "guest_main toy_vec_env toy_vec_kona (\<lambda>_ _ _. 0) (None :: (unit, unit) zkvm option) sample_hash toy_kzg
      (\<lambda>_. Inr stateless_main) (\<lambda>_. Inr seven_shard)
      \<lparr>gi_witness_frame = [1], gi_shard_frames = [[1]], gi_oracle_shards = [], gi_stream_shards = [],
       gi_receipts = []\<rparr> =
    and_then (run_stateless_client toy_vec_env toy_vec_kona (\<lambda>_ _ _. 0) (None :: (unit, unit) zkvm option) sample_hash toy_kzg
      [] [] []
      (stateless_witness\<lparr>w_stream_witness := []\<rparr>)) (\<lambda>J.
    if pj_claimed_l2_output_root J = 0 then Inl (Panic ''Cannot prove proposal prematurity.'')
    else Inr (encode_packed J))"
  by (rule guest_runs_encoded_witness [OF stateless_encoded decodes_once decodes_once])

text \<open>
  The loop that repairs the collected executions in the witness generator computes what the
  core client's \<open>recover_collected_executions\<close> computes.
\<close>

theorem fix_claimed_outputs_recovers:
  "fix_claimed_outputs es claimed = recover_collected_executions es claimed"
proof (cases "es = []")
  case True
  then show ?thesis by (simp add: fix_claimed_outputs_def)
next
  case False
  let ?loop = "map (\<lambda>i. if Suc i < length es then (es ! i)\<lparr>ex_claimed_output := ex_agreed_output (es ! Suc i)\<rparr>
    else es ! i) [0..<length es]"
  have "fix_claimed_outputs es claimed = ?loop[length es - 1 := (last ?loop)\<lparr>ex_claimed_output := claimed\<rparr>]"
    using False fix_claimed_outputs_loop [of "length es" es] by (simp add: fix_claimed_outputs_def Let_def)
  also have "\<dots> = recover_collected_executions es claimed"
    unfolding recover_collected_executions_nth
    using False by (intro nth_equalityI) (auto simp: nth_list_update last_conv_nth)
  finally show ?thesis .
qed

text \<open>
  The limits on a witness: frames are only handed to the prover when a proof is sought, and,
  unless the attempt is forced, when together they are within the size limit and the blocks that
  would be executed within the block limit; each of the errors names the limit that is exceeded, and
  carries the executions collected by the witness generator.
\<close>

theorem process_witness_limits:
  assumes "process_witness Z tw ts max_size max_blocks w stitched extra seek force = Inr r"
  shows "case r of
      Inr frames \<Rightarrow> seek \<and>
        (\<not> force \<longrightarrow> sum_list (map length frames) \<le> max_size \<and>
          length (concat (w_stitched_executions w)) \<le> max_blocks) \<and>
        (\<exists>preloaded streamed. frames = extra @ preloaded @ streamed \<and>
          encode_witness_frames tw ts (w\<lparr>w_stitched_executions := stitched\<rparr>) = Inr (preloaded, streamed))
    | Inl (WitnessSizeError n limit es) \<Rightarrow> \<not> force \<and> limit = max_size \<and> limit < n \<and> es = w_stitched_executions w
    | Inl (BlockCountError n limit es) \<Rightarrow> \<not> force \<and> limit = max_blocks \<and> n = length (concat es) \<and> limit < n \<and>
        es = w_stitched_executions w
    | Inl (NotSeekingProof n es) \<Rightarrow> \<not> seek \<and> es = w_stitched_executions w \<and> (\<not> force \<longrightarrow> n \<le> max_size)
    | Inl _ \<Rightarrow> False"
proof -
  let ?w = "w\<lparr>w_stitched_executions := stitched\<rparr>"
  from assms obtain preloaded streamed where
      enc: "encode_witness_frames tw ts ?w = Inr (preloaded, streamed)"
    by (auto simp: process_witness_def sum_witness_size_def Let_def res_simps)
  let ?total = "sum_list (map length (extra @ preloaded @ streamed))"
  have "r = (if ?total > max_size \<and> \<not> force then Inl (WitnessSizeError ?total max_size (w_stitched_executions w))
      else if length (concat (w_stitched_executions w)) > max_blocks \<and> \<not> force
      then Inl (BlockCountError (length (concat (w_stitched_executions w))) max_blocks (w_stitched_executions w))
      else if \<not> seek then Inl (NotSeekingProof ?total (w_stitched_executions w))
      else Inr (extra @ preloaded @ streamed))"
    using assms
    by (auto simp: process_witness_def sum_witness_size_def enc other_error_def Let_def res_simps add.commute
        add.left_commute split: if_splits)
  then show ?thesis using enc by auto
qed

theorem process_witness_limits_witness:
  "process_witness toy_kzg (once_to_bytes seven_main) (once_to_bytes seven_shard) 3 2 seven_witness
      (w_stitched_executions seven_witness) [] True False = Inr (Inr [[1], [1], [1]]) \<and>
   sum_list (map length [[1 :: byte], [1], [1]]) \<le> 3 \<and> length (concat (w_stitched_executions seven_witness)) \<le> 2"
proof -
  have n: "length (concat (w_stitched_executions seven_witness)) = 2"
    by (simp add: seven_witness_def fix_claimed_outputs_def)
  have same: "seven_witness\<lparr>w_stitched_executions := w_stitched_executions seven_witness\<rparr> = seven_witness" by simp
  have "preloaded_from toy_kzg (w_blobs_witness seven_witness) = Inr \<lparr>pb_entries = []\<rparr>"
    by (simp add: preloaded_from_def toy_kzg_def seven_witness_def)
  then have run: "process_witness toy_kzg (once_to_bytes seven_main) (once_to_bytes seven_shard) 3 2 seven_witness
      (w_stitched_executions seven_witness) [] True False = Inr (Inr [[1], [1], [1]])"
    using n by (simp add: process_witness_def sum_witness_size_def same seven_encoded other_error_def Let_def
        del: length_concat)
  from process_witness_limits [OF run] run show ?thesis by simp
qed

end
