(* ===== verification/Work_Pool.thy ===== *)
theory Work_Pool
  imports Prelude "HOL-Library.Multiset"
begin

text \<open>
  Divide and conquer over a pool of jobs, the scheme that the prover follows twice (for blocks to
  execute in \<open>tasks.rs\<close>, for blocks to derive in \<open>prove.rs\<close>): jobs are handed to workers, results
  arrive in any order, a job that succeeds is kept and one that fails is replaced by two jobs that
  cover its work. The locale states what a split has to promise; its lemmas say that the work stays
  partitioned, how many results can arrive, and what sorting the finished jobs gives.
\<close>

type_synonym 'j pool = "'j multiset \<times> 'j list"

inductive pool_step :: "('j \<Rightarrow> 'j \<times> 'j \<Rightarrow> bool) \<Rightarrow> 'j pool \<Rightarrow> 'j pool \<Rightarrow> bool" for split where
  pool_finish: "j \<in># pending \<Longrightarrow> pool_step split (pending, finished) (pending - {#j#}, j # finished)"
| pool_divide: "j \<in># pending \<Longrightarrow> split j (l, u) \<Longrightarrow>
    pool_step split (pending, finished) (pending - {#j#} + {#l, u#}, finished)"

inductive_cases pool_stepE: "pool_step split (pending, finished) st'"

lemma map_sort_key: "map g (sort_key (\<lambda>x. f (g x)) xs) = sort_key f (map g xs)"
proof -
  have "map g (insort_key (\<lambda>x. f (g x)) x ys) = insort_key f (g x) (map g ys)" for x ys
    by (induction ys) auto
  then show ?thesis by (induction xs) simp_all
qed

text \<open>Sorting by a key only depends on the order of the keys.\<close>

lemma sort_key_eq_mono:
  assumes "\<And>x y. f x \<le> f y \<longleftrightarrow> g x \<le> g y"
  shows "sort_key f xs = sort_key g xs"
proof -
  have "insort_key f x ys = insort_key g x ys" for x ys using assms by (induction ys) auto
  then show ?thesis by (induction xs) simp_all
qed

locale splitting =
  fixes good :: "'j \<Rightarrow> bool"
    and span :: "'j \<Rightarrow> 'e list"
    and split :: "'j \<Rightarrow> 'j \<times> 'j \<Rightarrow> bool"
  assumes good_span: "good j \<Longrightarrow> span j \<noteq> []"
    and split_good: "good j \<Longrightarrow> split j (l, u) \<Longrightarrow> good l \<and> good u \<and> span j = span l @ span u"
begin

text \<open>The jobs of the pool, in some order, cover the work without overlap.\<close>

definition partitioned :: "'e list \<Rightarrow> 'j pool \<Rightarrow> bool" where
  "partitioned work st \<longleftrightarrow>
     (\<exists>js. mset js = fst st + mset (snd st) \<and> (\<forall>j \<in> set js. good j) \<and> concat (map span js) = work)"

definition weight :: "'j pool \<Rightarrow> nat" where
  "weight st = (\<Sum>j \<in># fst st. 2 * length (span j) - 1)"

lemma partitioned_good:
  assumes "partitioned work (pending, finished)" and "j \<in># pending \<or> j \<in> set finished"
  shows "good j"
proof -
  obtain js where js: "mset js = pending + mset finished" "\<forall>j \<in> set js. good j"
    using assms(1) by (auto simp: partitioned_def)
  have "j \<in># mset js" unfolding js(1) using assms(2) by auto
  then show ?thesis using js(2) by simp
qed

lemma partitioned_step:
  assumes part: "partitioned work st" and step: "pool_step split st st'"
  shows "partitioned work st'"
  using step part
proof (cases rule: pool_step.cases)
  case (pool_finish j pending finished)
  with part show ?thesis by (auto simp: partitioned_def)
next
  case (pool_divide j pending l u finished)
  from part obtain js where js: "mset js = pending + mset finished" "\<forall>j \<in> set js. good j"
      "concat (map span js) = work"
    by (auto simp: partitioned_def pool_divide(1))
  have "j \<in># mset js" using js(1) pool_divide(3) by simp
  then obtain xs ys where xy: "js = xs @ j # ys" using split_list by fastforce
  have good: "good l" "good u" "span j = span l @ span u"
    using split_good [OF _ pool_divide(4)] js(2) xy by auto
  have "add_mset j (mset xs + mset ys) = add_mset j (pending - {#j#} + mset finished)"
    using js(1) xy pool_divide(3) by simp
  then have "mset (xs @ l # u # ys) = pending - {#j#} + {#l, u#} + mset finished"
    by simp
  moreover have "\<forall>j \<in> set (xs @ l # u # ys). good j" using js(2) xy good by auto
  moreover have "concat (map span (xs @ l # u # ys)) = work" using js(3) xy good(3) by simp
  ultimately show ?thesis unfolding partitioned_def pool_divide(2) by (metis fst_conv snd_conv)
qed

lemma weight_step:
  assumes "partitioned work st" and "pool_step split st st'"
  shows "weight st' < weight st"
  using assms(2,1)
proof (cases rule: pool_step.cases)
  case (pool_finish j pending finished)
  from assms(1) pool_finish have "good j" by (auto intro: partitioned_good)
  then have "1 < 2 * length (span j)" using good_span by (cases "span j") auto
  moreover obtain rest where "pending = add_mset j rest" using pool_finish(3) by (metis multi_member_split)
  ultimately show ?thesis using pool_finish(1,2) by (simp add: weight_def)
next
  case (pool_divide j pending l u finished)
  from assms(1) pool_divide have "good j" by (auto intro: partitioned_good)
  with split_good [OF _ pool_divide(4)] good_span [of l] good_span [of u] have
    "0 < length (span l)" "0 < length (span u)" "length (span j) = length (span l) + length (span u)"
    by auto
  moreover obtain rest where "pending = add_mset j rest" using pool_divide(3) by (metis multi_member_split)
  ultimately show ?thesis using pool_divide(1,2) by (simp add: weight_def del: length_greater_0_conv)
qed

lemma partitioned_steps:
  assumes "(pool_step split ^^ n) st st'" and "partitioned work st"
  shows "partitioned work st' \<and> n + weight st' \<le> weight st"
  using assms
proof (induction n arbitrary: st')
  case 0
  then show ?case by simp
next
  case (Suc n)
  then obtain t where "(pool_step split ^^ n) st t" "pool_step split t st'" by auto
  with Suc.IH [of t] Suc.prems(2) partitioned_step weight_step show ?case by fastforce
qed

lemma weight_bound:
  assumes "partitioned work st"
  shows "weight st \<le> 2 * length work"
proof -
  obtain js where js: "mset js = fst st + mset (snd st)" "concat (map span js) = work"
    using assms by (auto simp: partitioned_def)
  have "weight st \<le> (\<Sum>j \<in># mset js. 2 * length (span j) - 1)" by (simp add: weight_def js(1))
  also have "\<dots> \<le> 2 * length (concat (map span js))"
    by (induction js) auto
  finally show ?thesis using js(2) by simp
qed

text \<open>Sorted by the last element they cover, the finished jobs cover the work in order.\<close>

lemma finished_sorted:
  fixes key :: "'e \<Rightarrow> 'k::linorder"
  assumes part: "partitioned work ({#}, finished)" and inc: "sorted_wrt (\<lambda>a b. key a < key b) work"
    and job_key: "\<And>j. j \<in> set finished \<Longrightarrow> job_key j = key (last (span j))"
  shows "concat (map span (sort_key job_key finished)) = work"
proof -
  from part obtain js where js: "mset js = mset finished" "\<forall>j \<in> set js. good j" "concat (map span js) = work"
    by (auto simp: partitioned_def)
  have in_fin: "set js = set finished" using js(1) by (metis set_mset_mset)
  have "sorted_wrt (\<lambda>a b. key (last (span a)) < key (last (span b))) js"
    using inc js(2) unfolding js(3) [symmetric]
  proof (induction js)
    case Nil
    then show ?case by simp
  next
    case (Cons j js)
    have "key (last (span j)) < key (last (span k))" if k: "k \<in> set js" for k
    proof -
      have "last (span j) \<in> set (span j)" "last (span k) \<in> set (span k)"
        using Cons.prems(2) k good_span by auto
      moreover from this(2) have "last (span k) \<in> set (concat (map span js))" using k by auto
      ultimately have "last (span j) \<in> set (span j)" "last (span k) \<in> set (concat (map span js))" by blast+
      then show ?thesis using Cons.prems(1) by (auto simp: sorted_wrt_append)
    qed
    then show ?case using Cons by (simp add: sorted_wrt_append)
  qed
  then have "sorted_wrt (\<lambda>a b. job_key a < job_key b) js"
    by (rule sorted_wrt_mono_rel [rotated]) (simp add: job_key in_fin)
  then have "sorted_wrt (<) (map job_key js)" by (simp add: sorted_wrt_map)
  then have "sorted (map job_key js)" "distinct (map job_key js)" by (simp_all add: strict_sorted_iff)
  then have "sort_key job_key finished = js"
    using sort_key_inj_key_eq [of finished js job_key] js(1) by (simp add: distinct_map in_fin)
  then show ?thesis using js(3) by simp
qed

end

end
