(* ===== verification/Tasks.thy ===== *)
theory Tasks
  imports Witgen Work_Pool
begin

text \<open>
  The prover's tasks (\<open>src/crates/prover/src/tasks.rs\<close>, with the arguments of
  \<open>src/crates/prover/src/args.rs\<close>): a proof is attempted as a whole; when that is too large, the
  executed blocks are proven in pieces, pieces that are still too large are halved, and the pieces
  are stitched under a derivation proof.

  The proving work itself (the native client, receipts, files on disk) is a parameter: what a worker
  may answer for a task. Results arrive in any order. \<open>SingleChainHost\<close> is \<open>kona_host\<close>'s structure,
  with the fields the source uses. The handle on the disk store is left out.
\<close>

section \<open>Data\<close>

record kona_args =
  ka_l1_head :: B256
  ka_agreed_l2_head_hash :: B256
  ka_agreed_l2_output_root :: B256
  ka_claimed_l2_output_root :: B256
  ka_claimed_l2_block_number :: u64

record proving_args =
  pv_payout_recipient_address :: "Address option"
  pv_max_block_derivations :: nat
  pv_max_block_executions :: nat
  pv_max_witness_size :: nat
  pv_skip_derivation_proof :: bool
  pv_skip_await_proof :: bool

record prove_args =
  pr_kona :: kona_args
  pr_proving :: proving_args

record ('x, 'rc) cached =
  ct_args :: prove_args
  ct_rollup_config :: rollup_config
  ct_precondition_hash :: B256
  ct_precondition_validation_data_hash :: B256
  ct_stitched_executions :: "'x execution list list"
  ct_stitched_boot_info :: "stitched_boot_info list"
  ct_stitched_proofs :: "'rc list"
  ct_prove_snark :: bool
  ct_force_attempt :: bool
  ct_seek_proof :: bool

text \<open>Arguments, tasks and results are ordered by the claimed block number.\<close>

definition claim_key :: "prove_args \<Rightarrow> u64" where
  "claim_key args = ka_claimed_l2_block_number (pr_kona args)"

definition skip_stitching :: "proving_args \<Rightarrow> bool" where
  "skip_stitching p \<longleftrightarrow> pv_skip_derivation_proof p \<or> pv_skip_await_proof p"

definition block_number :: "'x execution \<Rightarrow> u64" where
  "block_number e = rh_number (sh_header (bo_header (ex_artifacts e)))"

section \<open>Execution tasks\<close>

definition create_cached_execution_task ::
  "build \<Rightarrow> (bytes \<Rightarrow> B256) \<Rightarrow> (bytes list \<Rightarrow> bytes) \<Rightarrow> prove_args \<Rightarrow> rollup_config \<Rightarrow> 'x execution list \<Rightarrow>
   ('x, 'rc) cached result" where
  "create_cached_execution_task T sha rlp args config execution_cache =
     and_then (unwrap_opt
       (find (\<lambda>e. ex_agreed_output e = ka_agreed_l2_output_root (pr_kona args)) execution_cache)
       ''Failed to find the first execution.'') (\<lambda>first.
     and_then (sub_u64 T (block_number first) 1) (\<lambda>starting_block.
     and_then (sub_u64 T (ka_claimed_l2_block_number (pr_kona args)) starting_block) (\<lambda>num_blocks.
     let executed_blocks = filter (\<lambda>e. starting_block < block_number e \<and>
           block_number e \<le> ka_claimed_l2_block_number (pr_kona args)) execution_cache
     in and_then (exec_precondition_hash sha rlp executed_blocks) (\<lambda>precondition.
        Inr \<lparr>ct_args = args, ct_rollup_config = config, ct_precondition_hash = precondition,
             ct_precondition_validation_data_hash = 0, ct_stitched_executions = [executed_blocks],
             ct_stitched_boot_info = [], ct_stitched_proofs = [], ct_prove_snark = False,
             ct_force_attempt = (num_blocks = 1), ct_seek_proof = True\<rparr>))))"

text \<open>
  The loop that queues the execution tasks, over the index of the next claim. The caller rules out
  \<open>max_block_executions = 0\<close>, with which the loop would not advance.
\<close>

function dispatch_executions ::
  "build \<Rightarrow> (bytes \<Rightarrow> B256) \<Rightarrow> (bytes list \<Rightarrow> bytes) \<Rightarrow> prove_args \<Rightarrow> rollup_config \<Rightarrow> 'x execution list \<Rightarrow>
   nat \<Rightarrow> B256 \<Rightarrow> B256 \<Rightarrow> ('x, 'rc) cached list result" where
  "dispatch_executions T sha rlp args config execution_cache next_claim_index agreed_root agreed_head =
     (if agreed_root = ka_claimed_l2_output_root (pr_kona args) then Inr []
      else if pv_max_block_executions (pr_proving args) = 0 then Inl (Panic ''no progress'')
      else and_then (index_vec execution_cache next_claim_index) (\<lambda>e.
        let job_args = args\<lparr>pr_kona := (pr_kona args)\<lparr>ka_l1_head := 0,
              ka_agreed_l2_output_root := agreed_root, ka_agreed_l2_head_hash := agreed_head,
              ka_claimed_l2_output_root := ex_claimed_output e,
              ka_claimed_l2_block_number := block_number e\<rparr>\<rparr>
        in and_then (create_cached_execution_task T sha rlp job_args config execution_cache) (\<lambda>job.
           if next_claim_index = length execution_cache - 1 then Inr [job]
           else and_then (dispatch_executions T sha rlp args config execution_cache
               (min (next_claim_index + pv_max_block_executions (pr_proving args)) (length execution_cache - 1))
               (ex_claimed_output e) (sh_hash (bo_header (ex_artifacts e)))) (\<lambda>jobs.
             Inr (job # jobs)))))"
  by pat_completeness auto
termination
  by (relation "measure (\<lambda>(_, _, _, _, _, cache, i, _, _). length cache - i)")
    (auto simp: index_vec_def split: if_splits)

declare dispatch_executions.simps [simp del]

text \<open>Splitting a task at its midpoint.\<close>

definition split_task ::
  "build \<Rightarrow> (bytes \<Rightarrow> B256) \<Rightarrow> (bytes list \<Rightarrow> bytes) \<Rightarrow> rollup_config \<Rightarrow> 'x execution list \<Rightarrow>
   ('x, 'rc) cached \<Rightarrow> 'x execution list \<Rightarrow> u64 \<Rightarrow> u64 \<Rightarrow> (('x, 'rc) cached \<times> ('x, 'rc) cached) result" where
  "split_task T sha rlp config execution_cache job executed_blocks agreed_block num_blocks =
     and_then (add_u64 T agreed_block (num_blocks div 2)) (\<lambda>mid_point.
     and_then (unwrap_opt (find (\<lambda>e. block_number e = mid_point) executed_blocks)
       ''Failed to find the midpoint of execution.'') (\<lambda>mid_exec.
     let args = ct_args job;
         lower_job_args = args\<lparr>pr_kona := (pr_kona args)\<lparr>ka_claimed_l2_output_root := ex_claimed_output mid_exec,
           ka_claimed_l2_block_number := mid_point\<rparr>\<rparr>;
         upper_job_args = args\<lparr>pr_kona := (pr_kona args)\<lparr>ka_agreed_l2_output_root := ex_claimed_output mid_exec,
           ka_agreed_l2_head_hash := sh_hash (bo_header (ex_artifacts mid_exec))\<rparr>\<rparr>
     in and_then (create_cached_execution_task T sha rlp lower_job_args config execution_cache) (\<lambda>lower.
        and_then (create_cached_execution_task T sha rlp upper_job_args config execution_cache) (\<lambda>upper.
        Inr (lower, upper)))))"

text \<open>The blocks of a failed task: its executions, the block before them and their number.\<close>

definition task_range ::
  "build \<Rightarrow> ('x, 'rc) cached \<Rightarrow> ('x execution list \<times> u64 \<times> u64) result" where
  "task_range T job =
     and_then (index_vec (ct_stitched_executions job) 0) (\<lambda>executed_blocks.
     and_then (index_vec executed_blocks 0) (\<lambda>first.
     and_then (sub_u64 T (block_number first) 1) (\<lambda>agreed_block.
     and_then (sub_u64 T (ka_claimed_l2_block_number (pr_kona (ct_args job))) agreed_block) (\<lambda>num_blocks.
     Inr (executed_blocks, agreed_block, num_blocks)))))"

text \<open>
  One result of the pool: the tasks to send next, the number of proofs required and the proofs so
  far, or the error with which to return.
\<close>

definition handle_result ::
  "build \<Rightarrow> (bytes \<Rightarrow> B256) \<Rightarrow> (bytes list \<Rightarrow> bytes) \<Rightarrow> rollup_config \<Rightarrow> 'x execution list \<Rightarrow> nat \<Rightarrow>
   (('x, 'rc) cached \<times> 'rc) list \<Rightarrow> ('x, 'rc) cached \<Rightarrow> 'x proving_error + 'rc \<Rightarrow>
   ('x proving_error + ('x, 'rc) cached list \<times> nat \<times> (('x, 'rc) cached \<times> 'rc) list) result" where
  "handle_result T sha rlp config execution_cache num_proofs result_pq job res =
     (case res of
        Inr receipt \<Rightarrow> Inr (Inr ([], num_proofs, (job, receipt) # result_pq))
      | Inl err \<Rightarrow>
          and_then (task_range T job) (\<lambda>(executed_blocks, agreed_block, num_blocks).
          let num_proofs = num_proofs + 1;
              split = and_then (split_task T sha rlp config execution_cache job executed_blocks agreed_block num_blocks)
                (\<lambda>(lower, upper). Inr (Inr ([lower, upper], num_proofs, result_pq)))
          in case err of
               WitnessSizeError f t e \<Rightarrow> if num_blocks = 1 then Inr (Inl (WitnessSizeError f t e)) else split
             | ExecutionError e \<Rightarrow> if num_blocks = 1 then Inr (Inl (ExecutionError e)) else split
             | OtherError e \<Rightarrow> Inr (Inl (OtherError e))
             | NotAwaitingProof \<Rightarrow>
                 and_then (sub_usize T num_proofs 2) (\<lambda>n. Inr (Inr ([], n, result_pq)))
             | BlockCountError _ _ _ \<Rightarrow> Inl (Panic ''Unexpected BlockCountError'')
             | NotSeekingProof _ _ \<Rightarrow> Inl (Panic ''Unexpected NotSeekingProof'')
             | DerivationProofError _ \<Rightarrow> Inl (Panic ''Unexpected DerivationProofError'')))"

text \<open>
  The state of the loop that waits for results: the tasks sent and not answered, the number of proofs
  required, the results so far. A step handles the result of any of the tasks.
\<close>

type_synonym ('x, 'rc) drain = "('x, 'rc) cached multiset \<times> nat \<times> (('x, 'rc) cached \<times> 'rc) list"

inductive drain_step ::
  "(('x, 'rc) cached \<Rightarrow> 'x proving_error + 'rc \<Rightarrow> bool) \<Rightarrow> build \<Rightarrow> (bytes \<Rightarrow> B256) \<Rightarrow> (bytes list \<Rightarrow> bytes) \<Rightarrow>
   rollup_config \<Rightarrow> 'x execution list \<Rightarrow> ('x, 'rc) drain \<Rightarrow> ('x, 'rc) drain \<Rightarrow> bool"
  for answers T sha rlp config execution_cache where
  drain_result:
    "length pq < num \<Longrightarrow> job \<in># pending \<Longrightarrow> answers job res \<Longrightarrow>
     handle_result T sha rlp config execution_cache num pq job res = Inr (Inr (new, num', pq')) \<Longrightarrow>
     drain_step answers T sha rlp config execution_cache (pending, num, pq)
       (pending - {#job#} + mset new, num', pq')"

text \<open>
  The whole computation of a proof, as the outcomes it may have given what workers may answer. The
  complete attempt either decides the outcome or yields the executions it collected.
\<close>

definition fpvm_task ::
  "prove_args \<Rightarrow> rollup_config \<Rightarrow> B256 \<Rightarrow> B256 \<Rightarrow> 'x execution list list \<Rightarrow> stitched_boot_info list \<Rightarrow> 'rc list \<Rightarrow>
   bool \<Rightarrow> bool \<Rightarrow> bool \<Rightarrow> ('x, 'rc) cached" where
  "fpvm_task args config precondition data_hash executions boots proofs prove_snark force_attempt seek_proof =
     \<lparr>ct_args = args, ct_rollup_config = config, ct_precondition_hash = precondition,
      ct_precondition_validation_data_hash = data_hash, ct_stitched_executions = executions,
      ct_stitched_boot_info = boots, ct_stitched_proofs = proofs, ct_prove_snark = prove_snark,
      ct_force_attempt = force_attempt, ct_seek_proof = seek_proof\<rparr>"

definition complete_task ::
  "prove_args \<Rightarrow> rollup_config \<Rightarrow> B256 \<Rightarrow> B256 \<Rightarrow> stitched_boot_info list \<Rightarrow> 'rc list \<Rightarrow> bool \<Rightarrow> ('x, 'rc) cached" where
  "complete_task args config precondition data_hash boots proofs prove_snark =
     fpvm_task args config precondition data_hash [] boots proofs prove_snark
       (ka_agreed_l2_output_root (pr_kona args) = ka_claimed_l2_output_root (pr_kona args))
       (\<not> pv_skip_derivation_proof (pr_proving args))"

fun executed_blocks_of :: "'x proving_error + 'rc \<Rightarrow> 'x execution list list option" where
  "executed_blocks_of (Inl (BlockCountError _ _ executed_blocks)) = Some executed_blocks"
| "executed_blocks_of (Inl (WitnessSizeError _ _ executed_blocks)) = Some executed_blocks"
| "executed_blocks_of (Inl (NotSeekingProof _ executed_blocks)) = Some executed_blocks"
| "executed_blocks_of _ = None"

definition first_jobs ::
  "build \<Rightarrow> (bytes \<Rightarrow> B256) \<Rightarrow> (bytes list \<Rightarrow> bytes) \<Rightarrow> prove_args \<Rightarrow> rollup_config \<Rightarrow> 'x execution list \<Rightarrow>
   ('x, 'rc) cached list result" where
  "first_jobs T sha rlp args config execution_cache =
     and_then (sub_usize T (min (pv_max_block_executions (pr_proving args)) (length execution_cache)) 1)
       (\<lambda>next_claim_index.
     dispatch_executions T sha rlp args config execution_cache next_claim_index
       (ka_agreed_l2_output_root (pr_kona args)) (ka_agreed_l2_head_hash (pr_kona args)))"

text \<open>\<open>BinaryHeap::into_sorted_vec\<close> sorts the results by the claimed block number of their tasks.\<close>

definition sorted_results :: "(('x, 'rc) cached \<times> 'rc) list \<Rightarrow> (('x, 'rc) cached \<times> 'rc) list" where
  "sorted_results pq = sort_key (\<lambda>r. claim_key (ct_args (fst r))) pq"

definition stitching_task ::
  "prove_args \<Rightarrow> rollup_config \<Rightarrow> B256 \<Rightarrow> B256 \<Rightarrow> stitched_boot_info list \<Rightarrow> 'rc list \<Rightarrow> bool \<Rightarrow>
   (('x, 'rc) cached \<times> 'rc) list \<Rightarrow> ('x, 'rc) cached" where
  "stitching_task args config precondition data_hash boots proofs prove_snark pq =
     (let results = sorted_results pq
      in fpvm_task args config precondition data_hash (map (\<lambda>r. last (ct_stitched_executions (fst r))) results)
           boots (proofs @ map snd results) prove_snark True True)"

text \<open>The derivation-only run, which is not to seek a proof, unless derivation is skipped.\<close>

definition derivation_provable ::
  "(('x, 'rc) cached \<Rightarrow> 'x proving_error + 'rc \<Rightarrow> bool) \<Rightarrow> prove_args \<Rightarrow> rollup_config \<Rightarrow> B256 \<Rightarrow> B256 \<Rightarrow>
   'x execution list list \<Rightarrow> stitched_boot_info list \<Rightarrow> 'rc list \<Rightarrow> bool" where
  "derivation_provable answers args config precondition data_hash executed_blocks boots proofs \<longleftrightarrow>
     pv_skip_derivation_proof (pr_proving args) \<or>
     (\<exists>n es. answers (fpvm_task args config precondition data_hash executed_blocks boots proofs False False False)
        (Inl (NotSeekingProof n es)))"

inductive compute_fpvm_proof ::
  "(('x, 'rc) cached \<Rightarrow> 'x proving_error + 'rc \<Rightarrow> bool) \<Rightarrow> build \<Rightarrow> (bytes \<Rightarrow> B256) \<Rightarrow> (bytes list \<Rightarrow> bytes) \<Rightarrow>
   prove_args \<Rightarrow> rollup_config \<Rightarrow> B256 \<Rightarrow> B256 \<Rightarrow> stitched_boot_info list \<Rightarrow> 'rc list \<Rightarrow> bool \<Rightarrow>
   'x proving_error + 'rc \<Rightarrow> bool"
  for answers T sha rlp args config precondition data_hash boots proofs prove_snark where
  fpvm_complete:
    "answers (complete_task args config precondition data_hash boots proofs prove_snark) res \<Longrightarrow>
     executed_blocks_of res = None \<Longrightarrow>
     compute_fpvm_proof answers T sha rlp args config precondition data_hash boots proofs prove_snark res"
| fpvm_disabled:
    "answers (complete_task args config precondition data_hash boots proofs prove_snark) res \<Longrightarrow>
     executed_blocks_of res = Some executed_blocks \<Longrightarrow>
     pv_max_block_executions (pr_proving args) = 0 \<Longrightarrow>
     compute_fpvm_proof answers T sha rlp args config precondition data_hash boots proofs prove_snark
       (Inl (OtherError [''Execution only proofs are disabled because max_block_executions=0.'']))"
| fpvm_derivation_only:
    "answers (complete_task args config precondition data_hash boots proofs prove_snark) res \<Longrightarrow>
     executed_blocks_of res = Some executed_blocks \<Longrightarrow>
     pv_max_block_executions (pr_proving args) \<noteq> 0 \<Longrightarrow> \<not> pv_skip_derivation_proof (pr_proving args) \<Longrightarrow>
     answers (fpvm_task args config precondition data_hash executed_blocks boots proofs False False False) res' \<Longrightarrow>
     (\<forall>n es. res' \<noteq> Inl (NotSeekingProof n es)) \<Longrightarrow>
     compute_fpvm_proof answers T sha rlp args config precondition data_hash boots proofs prove_snark res'"
| fpvm_execution_error:
    "answers (complete_task args config precondition data_hash boots proofs prove_snark) res \<Longrightarrow>
     executed_blocks_of res = Some executed_blocks \<Longrightarrow>
     pv_max_block_executions (pr_proving args) \<noteq> 0 \<Longrightarrow>
     derivation_provable answers args config precondition data_hash executed_blocks boots proofs \<Longrightarrow>
     first_jobs T sha rlp args config (concat executed_blocks) = Inr jobs \<Longrightarrow>
     (drain_step answers T sha rlp config (concat executed_blocks))\<^sup>*\<^sup>* (mset jobs, length jobs, []) (pending, num, pq) \<Longrightarrow>
     length pq < num \<Longrightarrow> job \<in># pending \<Longrightarrow> answers job res' \<Longrightarrow>
     handle_result T sha rlp config (concat executed_blocks) num pq job res' = Inr (Inl err) \<Longrightarrow>
     compute_fpvm_proof answers T sha rlp args config precondition data_hash boots proofs prove_snark (Inl err)"
| fpvm_executed:
    "answers (complete_task args config precondition data_hash boots proofs prove_snark) res \<Longrightarrow>
     executed_blocks_of res = Some executed_blocks \<Longrightarrow>
     pv_max_block_executions (pr_proving args) \<noteq> 0 \<Longrightarrow>
     derivation_provable answers args config precondition data_hash executed_blocks boots proofs \<Longrightarrow>
     first_jobs T sha rlp args config (concat executed_blocks) = Inr jobs \<Longrightarrow>
     (drain_step answers T sha rlp config (concat executed_blocks))\<^sup>*\<^sup>* (mset jobs, length jobs, []) (pending, num, pq) \<Longrightarrow>
     \<not> length pq < num \<Longrightarrow>
     (if pv_skip_await_proof (pr_proving args) then outcome = Inl NotAwaitingProof
      else if pv_skip_derivation_proof (pr_proving args) then outcome = Inl (DerivationProofError (length pq))
      else answers (stitching_task args config precondition data_hash boots proofs prove_snark pq) outcome) \<Longrightarrow>
     compute_fpvm_proof answers T sha rlp args config precondition data_hash boots proofs prove_snark outcome"

section \<open>Slices of a trace\<close>

definition slice :: "nat \<Rightarrow> nat \<Rightarrow> 'a list \<Rightarrow> 'a list" where
  "slice i j xs = take (Suc j - i) (drop i xs)"

lemma length_slice: "i \<le> j \<Longrightarrow> j < length xs \<Longrightarrow> length (slice i j xs) = Suc j - i"
  by (simp add: slice_def)

lemma nth_slice: "i \<le> j \<Longrightarrow> j < length xs \<Longrightarrow> k \<le> j - i \<Longrightarrow> slice i j xs ! k = xs ! (i + k)"
  by (simp add: slice_def)

lemma last_slice:
  assumes "i \<le> j" and "j < length xs"
  shows "last (slice i j xs) = xs ! j"
proof -
  have "slice i j xs \<noteq> []" using length_slice [OF assms] assms(1) by auto
  then show ?thesis using assms by (simp add: last_conv_nth length_slice nth_slice)
qed

lemma slice_append:
  assumes "i \<le> m" and "m < j" and "j < length xs"
  shows "slice i m xs @ slice (Suc m) j xs = slice i j xs"
proof -
  have "Suc j - i = (Suc m - i) + (j - m)" using assms by simp
  then have "slice i j xs = take (Suc m - i) (drop i xs) @ take (j - m) (drop (Suc m - i) (drop i xs))"
    unfolding slice_def by (simp only: take_add)
  moreover have "drop (Suc m - i) (drop i xs) = drop (Suc m) xs" using assms by simp
  ultimately show ?thesis unfolding slice_def by simp
qed

lemma slice_filter:
  fixes f :: "'a \<Rightarrow> nat"
  assumes "\<And>k. k < length xs \<Longrightarrow> f (xs ! k) = n + Suc k" and "i \<le> j" and "j < length xs"
  shows "filter (\<lambda>x. n + i < f x \<and> f x \<le> n + Suc j) xs = slice i j xs"
proof -
  have none: "filter P ys = []" if "\<And>k. k < length ys \<Longrightarrow> \<not> P (ys ! k)" for P and ys :: "'a list"
    using that by (auto simp: filter_empty_conv in_set_conv_nth)
  have all: "filter P ys = ys" if "\<And>k. k < length ys \<Longrightarrow> P (ys ! k)" for P and ys :: "'a list"
    using that by (auto simp: filter_id_conv in_set_conv_nth)
  let ?P = "\<lambda>x. n + i < f x \<and> f x \<le> n + Suc j"
  have "drop (Suc j - i) (drop i xs) = drop (Suc j) xs" using assms(2) by simp
  then have "drop i xs = slice i j xs @ drop (Suc j) xs" unfolding slice_def by (metis append_take_drop_id)
  then have "xs = take i xs @ slice i j xs @ drop (Suc j) xs" by (metis append_take_drop_id)
  then have "filter ?P xs = filter ?P (take i xs) @ filter ?P (slice i j xs) @ filter ?P (drop (Suc j) xs)"
    by (metis filter_append)
  moreover have "filter ?P (take i xs) = []" by (rule none) (use assms in auto)
  moreover have "filter ?P (slice i j xs) = slice i j xs"
    by (rule all) (use assms in \<open>auto simp: length_slice nth_slice\<close>)
  moreover have "filter ?P (drop (Suc j) xs) = []" by (rule none) (use assms in auto)
  ultimately show ?thesis by simp
qed

section \<open>Traces that were executed in order\<close>

text \<open>
  A trace as the core client collects it: consecutive blocks, each starting from the output of the
  one before, with different outputs and hashable attributes.
\<close>

definition ordered_trace ::
  "(bytes \<Rightarrow> B256) \<Rightarrow> (bytes list \<Rightarrow> bytes) \<Rightarrow> nat \<Rightarrow> 'x execution list \<Rightarrow> bool" where
  "ordered_trace sha rlp n es \<longleftrightarrow>
     es \<noteq> [] \<and> distinct (map ex_agreed_output es) \<and>
     (\<forall>i < length es. unat (block_number (es ! i)) = n + Suc i) \<and>
     (\<forall>i. Suc i < length es \<longrightarrow> ex_agreed_output (es ! Suc i) = ex_claimed_output (es ! i)) \<and>
     (\<forall>e \<in> set es. \<exists>b. execution_bytes sha rlp e = Inr b)"

text \<open>The tasks for a slice of the trace.\<close>

definition slice_task ::
  "(bytes \<Rightarrow> B256) \<Rightarrow> (bytes list \<Rightarrow> bytes) \<Rightarrow> 'x execution list \<Rightarrow> nat \<Rightarrow> nat \<Rightarrow> ('x, 'rc) cached \<Rightarrow> bool" where
  "slice_task sha rlp es i j job \<longleftrightarrow>
     i \<le> j \<and> j < length es \<and> ct_stitched_executions job = [slice i j es] \<and>
     exec_precondition_hash sha rlp (slice i j es) = Inr (ct_precondition_hash job) \<and>
     ka_agreed_l2_output_root (pr_kona (ct_args job)) = ex_agreed_output (es ! i) \<and>
     ka_claimed_l2_output_root (pr_kona (ct_args job)) = ex_claimed_output (es ! j) \<and>
     ka_claimed_l2_block_number (pr_kona (ct_args job)) = block_number (es ! j) \<and>
     ka_l1_head (pr_kona (ct_args job)) = 0 \<and>
     ct_stitched_boot_info job = [] \<and> ct_stitched_proofs job = [] \<and> ct_seek_proof job \<and>
     (ct_force_attempt job \<longleftrightarrow> i = j)"

lemma find_distinct:
  "distinct (map f xs) \<Longrightarrow> i < length xs \<Longrightarrow> find (\<lambda>x. f x = f (xs ! i)) xs = Some (xs ! i)"
proof (induction xs arbitrary: i)
  case Nil
  then show ?case by simp
next
  case (Cons x xs)
  then show ?case by (cases i) (auto simp: image_iff intro: nth_mem)
qed

lemma exec_precondition_hash_ok:
  assumes "\<forall>e \<in> set es. \<exists>b. execution_bytes sha rlp e = Inr b"
  shows "\<exists>h. exec_precondition_hash sha rlp es = Inr h"
proof -
  from assms obtain f where "\<forall>e \<in> set es. execution_bytes sha rlp e = Inr (f e)" by metis
  then have "try_map (execution_bytes sha rlp) es = Inr (map f es)" by (intro try_map_all_Inr) auto
  then show ?thesis by (simp add: exec_precondition_hash_def)
qed

lemma sub_u64_nat: "unat b \<le> unat a \<Longrightarrow> sub_u64 T a b = Inr (a - b) \<and> unat (a - b) = unat a - unat b"
  by (simp add: sub_u64_ok word_le_nat_alt unat_sub)

lemma create_cached_execution_task_slice:
  assumes es: "ordered_trace sha rlp n es" and ij: "i \<le> j" "j < length es"
    and args: "ka_agreed_l2_output_root (pr_kona args) = ex_agreed_output (es ! i)"
      "ka_claimed_l2_output_root (pr_kona args) = ex_claimed_output (es ! j)"
      "ka_claimed_l2_block_number (pr_kona args) = block_number (es ! j)" "ka_l1_head (pr_kona args) = 0"
  shows "\<exists>job :: ('x, 'rc) cached. create_cached_execution_task T sha rlp args config es = Inr job \<and>
    slice_task sha rlp es i j job \<and> ct_args job = args \<and> ct_rollup_config job = config"
proof -
  note num = es [unfolded ordered_trace_def, THEN conjunct2, THEN conjunct2, THEN conjunct1, rule_format]
  have numi: "unat (block_number (es ! i)) = n + Suc i" and numj: "unat (block_number (es ! j)) = n + Suc j"
    using num ij by auto
  define start where "start = block_number (es ! i) - 1"
  have start: "sub_u64 T (block_number (es ! i)) 1 = Inr start" "unat start = n + i"
    using sub_u64_nat [of 1 "block_number (es ! i)" T] numi by (simp_all add: start_def)
  define nb where "nb = block_number (es ! j) - start"
  have nb: "sub_u64 T (block_number (es ! j)) start = Inr nb" "unat nb = Suc j - i"
    using sub_u64_nat [of start "block_number (es ! j)" T] numj start(2) ij by (simp_all add: nb_def)
  have "nb = 1 \<longleftrightarrow> unat nb = 1" by (metis unsigned_1 unsigned_word_eqI)
  then have "nb = 1 \<longleftrightarrow> i = j" using nb(2) ij by auto
  moreover have "find (\<lambda>e. ex_agreed_output e = ex_agreed_output (es ! i)) es = Some (es ! i)"
    using es ij by (intro find_distinct) (auto simp: ordered_trace_def)
  moreover have "filter (\<lambda>e. start < block_number e \<and> block_number e \<le> block_number (es ! j)) es = slice i j es"
    using slice_filter [of es "unat \<circ> block_number" n i j] num ij
    by (simp add: word_less_nat_alt word_le_nat_alt start(2) numj)
  moreover have "set (slice i j es) \<subseteq> set es" unfolding slice_def by (meson set_drop_subset set_take_subset order_trans)
  then obtain h where "exec_precondition_hash sha rlp (slice i j es) = Inr h"
    using exec_precondition_hash_ok [of "slice i j es" sha rlp] es unfolding ordered_trace_def by blast
  ultimately show ?thesis
    using start(1) nb(1) ij args
    by (simp add: create_cached_execution_task_def slice_task_def)
qed

text \<open>Splitting a task for more than one block gives the tasks for its two halves.\<close>

lemma find_slice_number:
  assumes es: "ordered_trace sha rlp n es" and "i \<le> m" and "m \<le> j" and "j < length es"
    and mid: "unat mid = n + Suc m"
  shows "find (\<lambda>e. block_number e = mid) (slice i j es) = Some (es ! m)"
proof -
  note num = es [unfolded ordered_trace_def, THEN conjunct2, THEN conjunct2, THEN conjunct1, rule_format]
  have "mid = block_number (es ! m)" using num [of m] mid assms(3,4) by (metis le_less_trans unsigned_word_eqI)
  moreover have at: "slice i j es ! (m - i) = es ! m" "m - i < length (slice i j es)"
    using assms(2-4) by (simp_all add: nth_slice length_slice)
  moreover have "distinct (map block_number (slice i j es))"
  proof (rule distinct_map [THEN iffD2, OF conjI])
    have d: "distinct es" using es by (auto simp: ordered_trace_def distinct_map)
    then show "distinct (slice i j es)" by (simp add: slice_def)
    have "set (slice i j es) \<subseteq> set es" unfolding slice_def by (meson set_drop_subset set_take_subset order_trans)
    moreover have "inj_on block_number (set es)"
      using num by (intro inj_onI) (metis (mono_tags, lifting) Suc_inject add_left_cancel in_set_conv_nth)
    ultimately show "inj_on block_number (set (slice i j es))" by (rule inj_on_subset [rotated])
  qed
  ultimately show ?thesis using find_distinct [of block_number "slice i j es" "m - i"] by simp
qed

lemma split_task_slices:
  fixes job :: "('x, 'rc) cached"
  assumes es: "ordered_trace sha rlp n es" and job: "slice_task sha rlp es i j job" and "i < j"
    and agreed: "unat agreed_block = n + i" and blocks: "unat num_blocks = Suc j - i"
  shows "\<exists>m lower upper. i \<le> m \<and> m < j \<and>
    split_task T sha rlp config es job (slice i j es) agreed_block num_blocks = Inr (lower, upper) \<and>
    slice_task sha rlp es i m lower \<and> slice_task sha rlp es (Suc m) j upper"
proof -
  define m where "m = i + (Suc j - i) div 2 - 1"
  have m: "i \<le> m" "m < j" "n + i + (Suc j - i) div 2 = n + Suc m" using \<open>i < j\<close> by (auto simp: m_def)
  have j: "j < length es" "i \<le> j" using job by (auto simp: slice_task_def)
  note num = es [unfolded ordered_trace_def, THEN conjunct2, THEN conjunct2, THEN conjunct1, rule_format]
  have half: "unat (num_blocks div 2) = (Suc j - i) div 2" using blocks by (simp add: unat_div)
  have small: "n + Suc m < 2 ^ 64" using num [of m] m j unat_u64_bound [of "block_number (es ! m)"] by simp
  then have mid: "add_u64 T agreed_block (num_blocks div 2) = Inr (agreed_block + num_blocks div 2)"
      "unat (agreed_block + num_blocks div 2) = n + Suc m"
    using agreed half m(3) by (simp_all add: add_u64_ok unat_add_small)
  have mid_eq: "agreed_block + num_blocks div 2 = block_number (es ! m)"
    using num [of m] mid(2) m j by (metis less_trans unsigned_word_eqI)
  have found: "find (\<lambda>e. block_number e = agreed_block + num_blocks div 2) (slice i j es) = Some (es ! m)"
    using find_slice_number [OF es m(1) _ j(1) mid(2)] m(2) by simp
  have link: "ex_agreed_output (es ! Suc m) = ex_claimed_output (es ! m)"
    using es m j by (simp add: ordered_trace_def)
  have args: "ka_agreed_l2_output_root (pr_kona (ct_args job)) = ex_agreed_output (es ! i)"
      "ka_claimed_l2_output_root (pr_kona (ct_args job)) = ex_claimed_output (es ! j)"
      "ka_claimed_l2_block_number (pr_kona (ct_args job)) = block_number (es ! j)"
      "ka_l1_head (pr_kona (ct_args job)) = 0"
    using job by (simp_all add: slice_task_def)
  let ?lower = "(ct_args job)\<lparr>pr_kona := (pr_kona (ct_args job))\<lparr>ka_claimed_l2_output_root := ex_claimed_output (es ! m),
      ka_claimed_l2_block_number := block_number (es ! m)\<rparr>\<rparr>"
  let ?upper = "(ct_args job)\<lparr>pr_kona := (pr_kona (ct_args job))\<lparr>ka_agreed_l2_output_root := ex_claimed_output (es ! m),
      ka_agreed_l2_head_hash := sh_hash (bo_header (ex_artifacts (es ! m)))\<rparr>\<rparr>"
  obtain lower :: "('x, 'rc) cached" where l: "create_cached_execution_task T sha rlp ?lower config es = Inr lower"
      "slice_task sha rlp es i m lower"
    using create_cached_execution_task_slice [OF es m(1), of ?lower T config] m(2) j args by auto
  obtain upper :: "('x, 'rc) cached" where u: "create_cached_execution_task T sha rlp ?upper config es = Inr upper"
      "slice_task sha rlp es (Suc m) j upper"
    using create_cached_execution_task_slice [OF es Suc_leI [OF m(2)], of ?upper T config] j args link by auto
  have "split_task T sha rlp config es job (slice i j es) agreed_block num_blocks = Inr (lower, upper)"
    using found mid(1) l(1) u(1) by (simp add: split_task_def mid_eq)
  with m l(2) u(2) show ?thesis by blast
qed

section \<open>The pool of execution tasks\<close>

lemma task_range_slice:
  assumes es: "ordered_trace sha rlp n es" and job: "slice_task sha rlp es i j job"
  shows "\<exists>agreed_block num_blocks. task_range T job = Inr (slice i j es, agreed_block, num_blocks) \<and>
    unat agreed_block = n + i \<and> unat num_blocks = Suc j - i \<and> (num_blocks = 1 \<longleftrightarrow> i = j)"
proof -
  have ij: "i \<le> j" "j < length es" using job by (simp_all add: slice_task_def)
  note num = es [unfolded ordered_trace_def, THEN conjunct2, THEN conjunct2, THEN conjunct1, rule_format]
  have numi: "unat (block_number (es ! i)) = n + Suc i" and numj: "unat (block_number (es ! j)) = n + Suc j"
    using num ij by auto
  define start where "start = block_number (es ! i) - 1"
  have start: "sub_u64 T (block_number (es ! i)) 1 = Inr start" "unat start = n + i"
    using sub_u64_nat [of 1 "block_number (es ! i)" T] numi by (simp_all add: start_def)
  define nb where "nb = block_number (es ! j) - start"
  have nb: "sub_u64 T (block_number (es ! j)) start = Inr nb" "unat nb = Suc j - i"
    using sub_u64_nat [of start "block_number (es ! j)" T] numj start(2) ij by (simp_all add: nb_def)
  have "nb = 1 \<longleftrightarrow> unat nb = 1" by (metis unsigned_1 unsigned_word_eqI)
  then have "nb = 1 \<longleftrightarrow> i = j" using nb(2) ij by auto
  moreover have "index_vec (slice i j es) 0 = Inr (es ! i)"
    using ij by (simp add: index_vec_def nth_slice length_slice)
  ultimately show ?thesis
    using start nb job by (auto simp: task_range_def slice_task_def index_vec_def)
qed

definition task_splits ::
  "build \<Rightarrow> (bytes \<Rightarrow> B256) \<Rightarrow> (bytes list \<Rightarrow> bytes) \<Rightarrow> rollup_config \<Rightarrow> 'x execution list \<Rightarrow>
   ('x, 'rc) cached \<Rightarrow> ('x, 'rc) cached \<times> ('x, 'rc) cached \<Rightarrow> bool" where
  "task_splits T sha rlp config es job lu \<longleftrightarrow>
     (\<exists>executed agreed_block num_blocks. task_range T job = Inr (executed, agreed_block, num_blocks) \<and>
        num_blocks \<noteq> 1 \<and> split_task T sha rlp config es job executed agreed_block num_blocks = Inr lu)"

definition trace_task ::
  "(bytes \<Rightarrow> B256) \<Rightarrow> (bytes list \<Rightarrow> bytes) \<Rightarrow> 'x execution list \<Rightarrow> ('x, 'rc) cached \<Rightarrow> bool" where
  "trace_task sha rlp es job \<longleftrightarrow> (\<exists>n. ordered_trace sha rlp n es) \<and> (\<exists>i j. slice_task sha rlp es i j job)"

abbreviation task_trace :: "('x, 'rc) cached \<Rightarrow> 'x execution list" where
  "task_trace job \<equiv> hd (ct_stitched_executions job)"

interpretation execution_pool: splitting
  "trace_task sha rlp es :: ('x, 'rc) cached \<Rightarrow> bool" task_trace "task_splits T sha rlp config es"
  for sha rlp and es :: "'x execution list" and T config
proof
  fix job :: "('x, 'rc) cached"
  assume "trace_task sha rlp es job"
  then obtain i j where "slice_task sha rlp es i j job" by (auto simp: trace_task_def)
  then show "task_trace job \<noteq> []"
    using length_slice [of i j es] by (auto simp: slice_task_def)
next
  fix job l u :: "('x, 'rc) cached"
  assume "trace_task sha rlp es job" and split: "task_splits T sha rlp config es job (l, u)"
  then obtain n i j where es: "ordered_trace sha rlp n es" and job: "slice_task sha rlp es i j job"
    by (auto simp: trace_task_def)
  from task_range_slice [OF es job, of T] obtain ab nb where r: "task_range T job = Inr (slice i j es, ab, nb)"
      "unat ab = n + i" "unat nb = Suc j - i" "nb = 1 \<longleftrightarrow> i = j" by blast
  with split have "i \<noteq> j" and s: "split_task T sha rlp config es job (slice i j es) ab nb = Inr (l, u)"
    by (auto simp: task_splits_def)
  then have ij: "i < j" "j < length es" using job by (auto simp: slice_task_def)
  from split_task_slices [OF es job ij(1) r(2,3), of T config] s obtain m where
      m: "i \<le> m" "m < j" "slice_task sha rlp es i m l" "slice_task sha rlp es (Suc m) j u" by auto
  have "task_trace job = task_trace l @ task_trace u"
    using slice_append [OF m(1,2) ij(2)] job m(3,4) by (simp add: slice_task_def)
  with es m show "trace_task sha rlp es l \<and> trace_task sha rlp es u \<and> task_trace job = task_trace l @ task_trace u"
    by (auto simp: trace_task_def)
qed

lemma handle_result_cases:
  assumes "handle_result T sha rlp config es num pq job res = Inr (Inr (new, num', pq'))"
  obtains (proven) receipt where "res = Inr receipt" "new = []" "num' = num" "pq' = (job, receipt) # pq"
  | (halved) l u where "task_splits T sha rlp config es job (l, u)" "new = [l, u]" "num' = num + 1" "pq' = pq"
  | (unawaited) "res = Inl NotAwaitingProof" "new = []" "pq' = pq"
proof (cases res)
  case (Inr receipt)
  with assms proven show ?thesis by (simp add: handle_result_def)
next
  case (Inl err)
  with assms obtain executed ab nb where r: "task_range T job = Inr (executed, ab, nb)"
    by (auto simp: handle_result_def res_simps)
  show ?thesis
  proof (cases err)
    case NotAwaitingProof
    with assms Inl r unawaited show ?thesis by (auto simp: handle_result_def res_simps)
  next
    case (WitnessSizeError f t e)
    with assms Inl r show ?thesis
      by (auto simp: handle_result_def task_splits_def res_simps split: if_splits intro: halved)
  next
    case (ExecutionError e)
    with assms Inl r show ?thesis
      by (auto simp: handle_result_def task_splits_def res_simps split: if_splits intro: halved)
  qed (use assms Inl r in \<open>auto simp: handle_result_def\<close>)
qed

text \<open>Without unawaited proofs, the loop over results is a run of the pool.\<close>

definition drained_ok ::
  "(('x, 'rc) cached \<Rightarrow> 'x proving_error + 'rc \<Rightarrow> bool) \<Rightarrow> ('x, 'rc) drain \<Rightarrow> bool" where
  "drained_ok answers st \<longleftrightarrow> (case st of (pending, num, pq) \<Rightarrow>
     num = size pending + length pq \<and> (\<forall>(job, receipt) \<in> set pq. answers job (Inr receipt)))"

abbreviation drain_pool :: "('x, 'rc) drain \<Rightarrow> ('x, 'rc) cached pool" where
  "drain_pool st \<equiv> (fst st, map fst (snd (snd st)))"

lemma drain_step_pool:
  assumes "drain_step answers T sha rlp config es st st'" and "\<And>job. \<not> answers job (Inl NotAwaitingProof)"
    and "drained_ok answers st"
  shows "pool_step (task_splits T sha rlp config es) (drain_pool st) (drain_pool st') \<and> drained_ok answers st'"
  using assms(1)
proof (cases rule: drain_step.cases)
  case (drain_result pq num job pending res new num' pq')
  obtain rest where rest: "pending = add_mset job rest" using drain_result(4) by (metis multi_member_split)
  from drain_result(6) show ?thesis
  proof (cases rule: handle_result_cases)
    case (proven receipt)
    have "pool_step (task_splits T sha rlp config es) (pending, map fst pq) (pending - {#job#}, job # map fst pq)"
      by (rule pool_finish [OF drain_result(4)])
    with proven drain_result assms(3) rest show ?thesis by (auto simp: drained_ok_def)
  next
    case (halved l u)
    have "pool_step (task_splits T sha rlp config es) (pending, map fst pq) (pending - {#job#} + {#l, u#}, map fst pq)"
      using drain_result(4) halved(1) by (rule pool_divide)
    with halved drain_result assms(3) rest show ?thesis by (auto simp: drained_ok_def)
  next
    case unawaited
    with drain_result assms(2) show ?thesis by blast
  qed
qed

lemma drain_steps_pool:
  assumes "(drain_step answers T sha rlp config es ^^ k) st st'" and "\<And>job. \<not> answers job (Inl NotAwaitingProof)"
    and "drained_ok answers st"
  shows "(pool_step (task_splits T sha rlp config es) ^^ k) (drain_pool st) (drain_pool st') \<and> drained_ok answers st'"
  using assms(1)
proof (induction k arbitrary: st')
  case 0
  then show ?case using assms(3) by simp
next
  case (Suc k)
  then obtain t where "(drain_step answers T sha rlp config es ^^ k) st t" "drain_step answers T sha rlp config es t st'"
    by auto
  moreover have "pool_step (task_splits T sha rlp config es) (drain_pool t) (drain_pool st') \<and> drained_ok answers st'"
    if "drained_ok answers t" using calculation(2) assms(2) that by (rule drain_step_pool)
  ultimately show ?case using Suc.IH [of t] by (metis relpowp_Suc_I)
qed

text \<open>The executed blocks lead from the agreed root of the arguments to their claim.\<close>

definition executes ::
  "(bytes \<Rightarrow> B256) \<Rightarrow> (bytes list \<Rightarrow> bytes) \<Rightarrow> prove_args \<Rightarrow> 'x execution list \<Rightarrow> bool" where
  "executes sha rlp args es \<longleftrightarrow>
     (\<exists>n. ordered_trace sha rlp n es) \<and>
     ex_agreed_output (hd es) = ka_agreed_l2_output_root (pr_kona args) \<and>
     ex_claimed_output (last es) = ka_claimed_l2_output_root (pr_kona args) \<and>
     ka_claimed_l2_output_root (pr_kona args) \<notin> set (map ex_agreed_output es)"

lemma drop_slice: "i < length xs \<Longrightarrow> drop i xs = slice i (length xs - 1) xs"
  by (simp add: slice_def)

lemma dispatch_executions_slices:
  fixes es :: "'x execution list"
  assumes ex: "executes sha rlp args es" and pos: "0 < pv_max_block_executions (pr_proving args)"
    and "i \<le> k" and "k < length es" and "k - i < pv_max_block_executions (pr_proving args)"
    and "agreed_root = ex_agreed_output (es ! i)"
  shows "\<exists>jobs :: ('x, 'rc) cached list.
    dispatch_executions T sha rlp args config es k agreed_root agreed_head = Inr jobs \<and>
    (\<forall>job \<in> set jobs. trace_task sha rlp es job \<and>
       length (task_trace job) \<le> pv_max_block_executions (pr_proving args)) \<and>
    concat (map task_trace jobs) = drop i es"
  using assms(3-)
proof (induction "length es - k" arbitrary: i k agreed_root agreed_head rule: less_induct)
  case less
  let ?max = "pv_max_block_executions (pr_proving args)"
  from ex obtain n where es: "ordered_trace sha rlp n es" by (auto simp: executes_def)
  note ik = less.prems(1,2)
  let ?e = "es ! k"
  let ?args = "args\<lparr>pr_kona := (pr_kona args)\<lparr>ka_l1_head := 0, ka_agreed_l2_output_root := agreed_root,
      ka_agreed_l2_head_hash := agreed_head, ka_claimed_l2_output_root := ex_claimed_output ?e,
      ka_claimed_l2_block_number := block_number ?e\<rparr>\<rparr>"
  obtain job :: "('x, 'rc) cached" where job: "create_cached_execution_task T sha rlp ?args config es = Inr job"
      "slice_task sha rlp es i k job"
    using create_cached_execution_task_slice [OF es ik, of ?args T config] less.prems(4) by auto
  have trace: "task_trace job = slice i k es" using job(2) by (simp add: slice_task_def)
  have ok: "trace_task sha rlp es job \<and> length (task_trace job) \<le> ?max"
    using es job(2) trace less.prems(3) ik by (auto simp: trace_task_def length_slice)
  have neq: "agreed_root \<noteq> ka_claimed_l2_output_root (pr_kona args)"
  proof -
    have "agreed_root \<in> ex_agreed_output ` set es" using less.prems(4) le_less_trans [OF ik] by simp
    then show ?thesis using ex unfolding executes_def by (metis list.set_map)
  qed
  have unfold: "dispatch_executions T sha rlp args config es k agreed_root agreed_head =
      (if k = length es - 1 then Inr [job]
       else and_then (dispatch_executions T sha rlp args config es (min (k + ?max) (length es - 1))
         (ex_claimed_output ?e) (sh_hash (bo_header (ex_artifacts ?e)))) (\<lambda>jobs. Inr (job # jobs)))"
    using neq pos job(1) ik by (subst dispatch_executions.simps) (simp add: index_vec_def Let_def)
  show ?case
  proof (cases "k = length es - 1")
    case True
    then have "slice i k es = drop i es" using ik by (simp add: drop_slice)
    with True unfold ok trace show ?thesis by simp
  next
    case False
    let ?k = "min (k + ?max) (length es - 1)"
    have k': "Suc k \<le> ?k" "?k < length es" "?k - Suc k < ?max" "length es - ?k < length es - k"
      using False ik pos by auto
    have "ex_claimed_output ?e = ex_agreed_output (es ! Suc k)"
      using es False ik by (simp add: ordered_trace_def)
    from less.hyps [OF k'(4) k'(1-3) this] obtain jobs :: "('x, 'rc) cached list" where jobs:
      "dispatch_executions T sha rlp args config es ?k (ex_claimed_output ?e) (sh_hash (bo_header (ex_artifacts ?e))) =
         Inr jobs"
      "\<forall>job \<in> set jobs. trace_task sha rlp es job \<and> length (task_trace job) \<le> ?max"
      "concat (map task_trace jobs) = drop (Suc k) es" by blast
    have "slice i k es @ drop (Suc k) es = drop i es"
      using slice_append [of i k "length es - 1" es] ik False
      by (simp add: drop_slice)
    with unfold False jobs ok trace show ?thesis by simp
  qed
qed

lemma first_jobs_partition:
  fixes es :: "'x execution list"
  assumes ex: "executes sha rlp args es" and pos: "0 < pv_max_block_executions (pr_proving args)"
  shows "\<exists>jobs :: ('x, 'rc) cached list. first_jobs T sha rlp args config es = Inr jobs \<and>
    (\<forall>job \<in> set jobs. trace_task sha rlp es job \<and>
       length (task_trace job) \<le> pv_max_block_executions (pr_proving args)) \<and>
    concat (map task_trace jobs) = es"
proof -
  have ne: "es \<noteq> []" using ex by (auto simp: executes_def ordered_trace_def)
  let ?k = "min (pv_max_block_executions (pr_proving args)) (length es) - 1"
  have k: "sub_usize T (min (pv_max_block_executions (pr_proving args)) (length es)) 1 = Inr ?k"
    using pos ne by (simp add: sub_usize_def Suc_le_eq)
  have "?k < length es" "?k - 0 < pv_max_block_executions (pr_proving args)"
      "ka_agreed_l2_output_root (pr_kona args) = ex_agreed_output (es ! 0)"
    using pos ne ex by (auto simp: executes_def hd_conv_nth min_def Suc_le_eq)
  from dispatch_executions_slices [OF ex pos le0 this] k show ?thesis by (simp add: first_jobs_def)
qed

lemma first_jobs_pool:
  fixes es :: "'x execution list" and jobs :: "('x, 'rc) cached list"
  assumes "executes sha rlp args es" and "pv_max_block_executions (pr_proving args) \<noteq> 0"
    and "first_jobs T sha rlp args config es = Inr jobs"
  shows "execution_pool.partitioned sha rlp es es (mset jobs, [])" "drained_ok answers (mset jobs, length jobs, [])"
  using first_jobs_partition [where 'rc = 'rc, OF assms(1), of T config] assms(2,3)
  by (auto simp: execution_pool.partitioned_def drained_ok_def)

text \<open>The claimed block of a task for a slice is that of the last execution of the slice.\<close>

lemma trace_task_key:
  assumes "trace_task sha rlp es job"
  shows "claim_key (ct_args job) = block_number (last (task_trace job))" "ct_stitched_executions job = [task_trace job]"
  using assms by (auto simp: trace_task_def slice_task_def claim_key_def last_slice)

lemma ordered_trace_increasing:
  assumes "ordered_trace sha rlp n es"
  shows "sorted_wrt (\<lambda>a b. block_number a < block_number b) es"
  using assms by (auto simp: ordered_trace_def sorted_wrt_iff_nth_less word_less_nat_alt)

lemma drained_trace:
  fixes es :: "'x execution list" and jobs :: "('x, 'rc) cached list"
  assumes ex: "executes sha rlp args es" and pos: "pv_max_block_executions (pr_proving args) \<noteq> 0"
    and jobs: "first_jobs T sha rlp args config es = Inr jobs"
    and awaited: "\<And>job. \<not> answers job (Inl NotAwaitingProof)"
    and steps: "(drain_step answers T sha rlp config es ^^ k) (mset jobs, length jobs, []) (pending, num, pq)"
  shows "k \<le> 2 * length es" "num = size pending + length pq"
    "\<forall>(job, receipt) \<in> set pq. answers job (Inr receipt) \<and> trace_task sha rlp es job"
    "\<not> length pq < num \<Longrightarrow> concat (map (task_trace \<circ> fst) (sorted_results pq)) = es"
proof -
  note init = first_jobs_pool [OF ex pos jobs]
  from drain_steps_pool [OF steps awaited init(2)]
  have run: "(pool_step (task_splits T sha rlp config es) ^^ k) (mset jobs, []) (pending, map fst pq)"
    and ok: "drained_ok answers (pending, num, pq)" by simp_all
  from execution_pool.partitioned_steps [OF run init(1)] execution_pool.weight_bound [OF init(1)]
  have part: "execution_pool.partitioned sha rlp es es (pending, map fst pq)" and "k \<le> 2 * length es" by auto
  show "k \<le> 2 * length es" by fact
  show num: "num = size pending + length pq" using ok by (simp add: drained_ok_def)
  show all: "\<forall>(job, receipt) \<in> set pq. answers job (Inr receipt) \<and> trace_task sha rlp es job"
    using ok execution_pool.partitioned_good [OF part] by (force simp: drained_ok_def)
  assume "\<not> length pq < num"
  then have empty: "execution_pool.partitioned sha rlp es es ({#}, map fst pq)" using num part by simp
  obtain n where "ordered_trace sha rlp n es" using ex by (auto simp: executes_def)
  then have "sorted_wrt (\<lambda>a b. block_number a < block_number b) es" by (rule ordered_trace_increasing)
  from execution_pool.finished_sorted [OF empty this, of "\<lambda>job. claim_key (ct_args job)"] all
  have "concat (map task_trace (sort_key (\<lambda>job. claim_key (ct_args job)) (map fst pq))) = es"
    by (fastforce dest: trace_task_key(1))
  moreover have "map fst (sorted_results pq) = sort_key (\<lambda>job. claim_key (ct_args job)) (map fst pq)"
    unfolding sorted_results_def by (rule map_sort_key)
  ultimately show "concat (map (task_trace \<circ> fst) (sorted_results pq)) = es" by (metis map_map)
qed

section \<open>Properties\<close>

text \<open>A concrete proof: two blocks are too much for one proof with derivation, but not for one execution proof.\<close>

definition two_blocks :: "bool execution list" where
  "two_blocks = [toy_execution 5 True, toy_execution 6 True]"

definition two_args :: prove_args where
  "two_args = \<lparr>pr_kona = \<lparr>ka_l1_head = 1, ka_agreed_l2_head_hash = 5, ka_agreed_l2_output_root = 5,
     ka_claimed_l2_output_root = 7, ka_claimed_l2_block_number = 7\<rparr>,
     pr_proving = \<lparr>pv_payout_recipient_address = None, pv_max_block_derivations = 9,
       pv_max_block_executions = 2, pv_max_witness_size = 8, pv_skip_derivation_proof = False,
       pv_skip_await_proof = False\<rparr>\<rparr>"

definition two_answers :: "(bool, nat) cached \<Rightarrow> bool proving_error + nat \<Rightarrow> bool" where
  "two_answers job res \<longleftrightarrow>
     res = (if ct_stitched_executions job = [] then Inl (WitnessSizeError 9 8 [two_blocks])
            else if \<not> ct_seek_proof job then Inl (NotSeekingProof 3 [])
            else Inr (length (ct_stitched_proofs job)))"

lemma two_blocks_ordered: "ordered_trace count_hash toy_rlp 5 two_blocks"
proof -
  obtain bs where "attributes_bytes count_hash toy_rlp sample_attributes = Inr bs"
    using sample_attributes_bytes by blast
  then show ?thesis
    by (auto simp: ordered_trace_def two_blocks_def toy_execution_def toy_header_def seal_def block_number_def
        execution_bytes_def attributes_hash_def less_Suc_eq)
qed

lemma two_blocks_executes: "executes count_hash toy_rlp two_args two_blocks"
  using two_blocks_ordered
  by (auto simp: executes_def two_args_def) (auto simp: two_blocks_def toy_execution_def)

lemma two_answers_awaited: "\<not> two_answers job (Inl NotAwaitingProof)"
  by (simp add: two_answers_def)

lemma two_jobs:
  "\<exists>job :: (bool, nat) cached. first_jobs T count_hash toy_rlp two_args config two_blocks = Inr [job] \<and>
     slice_task count_hash toy_rlp two_blocks 0 1 job"
proof -
  have len: "length two_blocks = 2" by (simp add: two_blocks_def)
  from first_jobs_partition [OF two_blocks_executes, of T config] obtain jobs :: "(bool, nat) cached list" where
      jobs: "first_jobs T count_hash toy_rlp two_args config two_blocks = Inr jobs"
        "concat (map task_trace jobs) = two_blocks" "\<forall>job \<in> set jobs. trace_task count_hash toy_rlp two_blocks job"
    by (auto simp: two_args_def)
  have "length jobs = 1"
    using jobs(1) len
    by (simp add: first_jobs_def sub_usize_def two_args_def dispatch_executions.simps [of _ _ _ _ _ _ "Suc 0"]
        index_vec_def) (auto simp: res_simps)
  then obtain job where job: "jobs = [job]" by (cases jobs) auto
  from jobs(3) job obtain i j where ij: "slice_task count_hash toy_rlp two_blocks i j job"
    by (auto simp: trace_task_def)
  have "length (task_trace job) = 2" using jobs(2) job len by simp
  then have "Suc j - i = 2" "i \<le> j" "j < 2" using ij len by (auto simp: slice_task_def length_slice)
  then have "i = 0" "j = 1" by auto
  with ij job jobs(1) show ?thesis by auto
qed

text \<open>
  C21. A proof is computed from one attempt or from all of its parts: when workers only leave proofs
  unawaited on request, and the executions they hand back lead block by block from the agreed to the
  claimed root, a receipt that \<open>compute_fpvm_proof\<close> returns answers the complete task, or the
  derivation-only task, or the task that stitches execution proofs under a derivation; and then
  these are answers for consecutive parts of the executed blocks, which together are all the blocks
  in order, each an execution-only task with the precondition hash of its part.
\<close>

theorem compute_fpvm_proof_covers:
  fixes args :: prove_args and receipt :: 'rc
    and answers :: "('x, 'rc) cached \<Rightarrow> 'x proving_error + 'rc \<Rightarrow> bool"
  assumes run: "compute_fpvm_proof answers T sha rlp args config pre data_hash boots proofs snark (Inr receipt)"
    and awaited: "\<And>job. \<not> answers job (Inl NotAwaitingProof)"
    and collected: "\<And>res executed. answers (complete_task args config pre data_hash boots proofs snark) res \<Longrightarrow>
      executed_blocks_of res = Some executed \<Longrightarrow> executes sha rlp args (concat executed)"
  shows "answers (complete_task args config pre data_hash boots proofs snark) (Inr receipt) \<or>
    (\<exists>executed. answers (fpvm_task args config pre data_hash executed boots proofs False False False) (Inr receipt)) \<or>
    (\<exists>res executed results.
       answers (complete_task args config pre data_hash boots proofs snark) res \<and>
       executed_blocks_of res = Some executed \<and>
       concat (map (task_trace \<circ> fst) results) = concat executed \<and>
       (\<forall>(job, r) \<in> set results. answers job (Inr r) \<and> trace_task sha rlp (concat executed) job) \<and>
       answers (fpvm_task args config pre data_hash (map (task_trace \<circ> fst) results) boots
         (proofs @ map snd results) snark True True) (Inr receipt))"
  using run
proof (cases rule: compute_fpvm_proof.cases)
  case (fpvm_executed res executed jobs pending num pq)
  let ?es = "concat executed"
  have ex: "executes sha rlp args ?es" using collected fpvm_executed(1,2) .
  from fpvm_executed(6) obtain k where
    "(drain_step answers T sha rlp config ?es ^^ k) (mset jobs, length jobs, []) (pending, num, pq)"
    by (auto simp: rtranclp_power)
  note d = drained_trace [OF ex fpvm_executed(3,5) awaited this]
  have set: "set (sorted_results pq) = set pq" by (simp add: sorted_results_def)
  have "last (ct_stitched_executions (fst r)) = (task_trace \<circ> fst) r" if "r \<in> set (sorted_results pq)" for r
  proof -
    have "trace_task sha rlp ?es (fst r)" using d(3) that unfolding set by (cases r) auto
    then obtain t where "ct_stitched_executions (fst r) = [t]" using trace_task_key(2) by blast
    then show ?thesis by simp
  qed
  then have eq: "map (\<lambda>r. last (ct_stitched_executions (fst r))) (sorted_results pq) =
      map (task_trace \<circ> fst) (sorted_results pq)" by (rule map_cong [OF refl])
  have "answers (fpvm_task args config pre data_hash (map (task_trace \<circ> fst) (sorted_results pq)) boots
      (proofs @ map snd (sorted_results pq)) snark True True) (Inr receipt)"
    using fpvm_executed(8) by (simp add: stitching_task_def Let_def eq split: if_splits)
  with d(3) d(4) [OF fpvm_executed(7)] fpvm_executed(1,2) show ?thesis unfolding set [symmetric] by blast
qed (auto)

theorem compute_fpvm_proof_covers_witness:
  "compute_fpvm_proof two_answers host count_hash toy_rlp two_args (sample_config 250) 0 0 [] [] True (Inr 1) \<and>
   (\<exists>results. concat (map (task_trace \<circ> fst) results) = two_blocks \<and>
      (\<forall>(job, r) \<in> set results. two_answers job (Inr r)))"
proof -
  let ?c = "complete_task two_args (sample_config 250) 0 0 [] [] True :: (bool, nat) cached"
  obtain job :: "(bool, nat) cached" where
      job: "first_jobs host count_hash toy_rlp two_args (sample_config 250) two_blocks = Inr [job]"
      "slice_task count_hash toy_rlp two_blocks 0 1 job" using two_jobs by blast
  have whole: "two_answers ?c (Inl (WitnessSizeError 9 8 [two_blocks]))"
    by (simp add: two_answers_def complete_task_def fpvm_task_def)
  have answer: "two_answers job (Inr 0)" using job(2) by (simp add: two_answers_def slice_task_def)
  have "drain_step two_answers host count_hash toy_rlp (sample_config 250) two_blocks
      (mset [job], 1, []) (mset [job] - {#job#} + mset [], 1, [(job, 0)])"
    by (rule drain_result [where res = "Inr 0"]) (simp_all add: handle_result_def answer)
  then have drained: "(drain_step two_answers host count_hash toy_rlp (sample_config 250) (concat [two_blocks]))\<^sup>*\<^sup>*
      (mset [job], length [job], []) ({#}, 1, [(job, 0)])" by auto
  have derivable: "derivation_provable two_answers two_args (sample_config 250) 0 0 [two_blocks] [] []"
    by (auto simp: derivation_provable_def two_answers_def fpvm_task_def)
  have final: "two_answers (stitching_task two_args (sample_config 250) 0 0 [] [] True [(job, 0)]) (Inr 1)"
    by (simp add: stitching_task_def sorted_results_def two_answers_def fpvm_task_def)
  have run: "compute_fpvm_proof two_answers host count_hash toy_rlp two_args (sample_config 250) 0 0 [] [] True (Inr 1)"
    by (rule fpvm_executed [OF whole _ _ derivable _ drained])
      (use job final in \<open>simp_all add: two_args_def\<close>)
  have collected: "executes count_hash toy_rlp two_args (concat executed)"
    if "two_answers ?c res" "executed_blocks_of res = Some executed" for res executed
    using that two_blocks_executes by (auto simp: two_answers_def complete_task_def fpvm_task_def)
  have covers: "two_answers ?c (Inr 1) \<or>
    (\<exists>executed. two_answers (fpvm_task two_args (sample_config 250) 0 0 executed [] [] False False False) (Inr 1)) \<or>
    (\<exists>res executed results. two_answers ?c res \<and> executed_blocks_of res = Some executed \<and>
       concat (map (task_trace \<circ> fst) results) = concat executed \<and>
       (\<forall>(job, r) \<in> set results. two_answers job (Inr r) \<and> trace_task count_hash toy_rlp (concat executed) job) \<and>
       two_answers (fpvm_task two_args (sample_config 250) 0 0 (map (task_trace \<circ> fst) results) []
         ([] @ map snd results) True True True) (Inr 1))"
    using run two_answers_awaited collected by (rule compute_fpvm_proof_covers)
  have "\<not> two_answers ?c (Inr 1)" by (simp add: two_answers_def complete_task_def fpvm_task_def)
  moreover have "\<not> two_answers (fpvm_task two_args (sample_config 250) 0 0 executed [] [] False False False) (Inr 1)"
    for executed by (simp add: two_answers_def fpvm_task_def)
  ultimately obtain res executed results where r: "two_answers ?c res" "executed_blocks_of res = Some executed"
      "concat (map (task_trace \<circ> fst) results) = concat executed"
      "\<forall>(job, r) \<in> set results. two_answers job (Inr r) \<and> trace_task count_hash toy_rlp (concat executed) job"
    using covers by blast
  then have "executed = [two_blocks]" by (auto simp: two_answers_def complete_task_def fpvm_task_def)
  with r run show ?thesis by auto
qed

text \<open>
  C25. The loop over execution proofs ends: after at most twice as many results as there are blocks
  every required proof is there, and as long as one is missing there is a task whose result is still
  to come.
\<close>

theorem execution_proofs_terminate:
  fixes jobs :: "('x, 'rc) cached list"
  assumes "executes sha rlp args es" and "pv_max_block_executions (pr_proving args) \<noteq> 0"
    and "first_jobs T sha rlp args config es = Inr jobs"
    and "\<And>job. \<not> answers job (Inl NotAwaitingProof)"
    and "(drain_step answers T sha rlp config es ^^ k) (mset jobs, length jobs, []) (pending, num, pq)"
  shows "k \<le> 2 * length es \<and> (length pq < num \<longleftrightarrow> pending \<noteq> {#})"
  using drained_trace(1,2) [OF assms] by (auto simp: nonempty_has_size)

theorem execution_proofs_terminate_witness:
  "\<exists>jobs :: (bool, nat) cached list. first_jobs host count_hash toy_rlp two_args (sample_config 250) two_blocks = Inr jobs \<and>
     (\<forall>k pending num pq.
        (drain_step two_answers host count_hash toy_rlp (sample_config 250) two_blocks ^^ k)
          (mset jobs, length jobs, []) (pending, num, pq) \<longrightarrow> k \<le> 4)"
proof -
  obtain job :: "(bool, nat) cached" where
      job: "first_jobs host count_hash toy_rlp two_args (sample_config 250) two_blocks = Inr [job]" using two_jobs by blast
  have "pv_max_block_executions (pr_proving two_args) \<noteq> 0" "length two_blocks = 2"
    by (simp_all add: two_args_def two_blocks_def)
  then have "k \<le> 4" if "(drain_step two_answers host count_hash toy_rlp (sample_config 250) two_blocks ^^ k)
      (mset [job], length [job], []) (pending, num, pq)" for k pending num pq
    using execution_proofs_terminate [where answers = two_answers, OF two_blocks_executes _ job _ that]
      two_answers_awaited by simp
  with job show ?thesis by blast
qed

text \<open>
  The first execution tasks partition the executed blocks: each covers at most
  \<open>max_block_executions\<close> consecutive blocks, starts at the output root where the one before ends and
  claims the output root and number of its last block; together they cover all the blocks in order.
\<close>

theorem first_tasks_partition:
  fixes es :: "'x execution list"
  assumes "executes sha rlp args es" and "0 < pv_max_block_executions (pr_proving args)"
  shows "\<exists>jobs :: ('x, 'rc) cached list. first_jobs T sha rlp args config es = Inr jobs \<and>
    (\<forall>job \<in> set jobs. length (task_trace job) \<le> pv_max_block_executions (pr_proving args) \<and>
       (\<exists>i j. slice_task sha rlp es i j job)) \<and>
    concat (map task_trace jobs) = es"
  using first_jobs_partition [where 'rc = 'rc, OF assms, of T config] by (auto simp: trace_task_def)

theorem first_tasks_partition_witness:
  "\<exists>jobs :: (bool, nat) cached list. first_jobs host count_hash toy_rlp two_args (sample_config 250) two_blocks = Inr jobs \<and>
     concat (map task_trace jobs) = two_blocks"
  using first_tasks_partition [OF two_blocks_executes, of host "sample_config 250"] by (auto simp: two_args_def)

end
