(* ===== verification/Prove.thy ===== *)
theory Prove
  imports Tasks "HOL-Library.Sublist"
begin

text \<open>
  The prover's driver (\<open>src/crates/prover/src/prove.rs\<close>): the blocks to prove are divided into ranges
  for derivation, ranges whose proof fails for its size are halved, and the proofs are composed by
  one last proof that derives nothing and stitches them backwards. The end of theory \<open>Tasks\<close>' work,
  a cached proof, is here too (\<open>compute_cached_proof\<close> of \<open>src/crates/prover/src/tasks.rs\<close> and
  \<open>proof_id\<close> of \<open>src/crates/prover/src/proof.rs\<close>).

  The nodes the prover asks are parameters, functions of the block number or hash: requests are
  retried until they succeed. The native client, the preflight and the proof files are operations on
  an abstract state of the file system.
\<close>

section \<open>Cached proofs\<close>

definition proof_id :: "(bytes \<Rightarrow> B256) \<Rightarrow> B256 \<Rightarrow> bytes \<Rightarrow> B256" where
  "proof_id kec image_id journal = kec (to_be_bytes image_id @ journal)"

record ('f, 'x, 'rc) proof_files =
  pf_exists :: "'f \<Rightarrow> B256 \<Rightarrow> bool"
  pf_preflight :: "'f \<Rightarrow> boot_info \<Rightarrow> 'f \<times> unit result"
  pf_native_client :: "'f \<Rightarrow> ('x, 'rc) cached \<Rightarrow> 'f \<times> ('x proving_error + unit) result"
  pf_read :: "'f \<Rightarrow> B256 \<Rightarrow> 'rc result"

definition job_boot :: "('x, 'rc) cached \<Rightarrow> boot_info" where
  "job_boot job =
     (let k = pr_kona (ct_args job)
      in \<lparr>bi_l1_head = ka_l1_head k, bi_agreed_l2_output_root = ka_agreed_l2_output_root k,
          bi_claimed_l2_output_root = ka_claimed_l2_output_root k,
          bi_claimed_l2_block_number = ka_claimed_l2_block_number k,
          bi_chain_id = rc_l2_chain_id (ct_rollup_config job), bi_rollup_config = ct_rollup_config job\<rparr>)"

text \<open>The journal the proof of a task is expected to have; the host verifies no journal here.\<close>

definition expected_journal ::
  "(bytes \<Rightarrow> B256) \<Rightarrow> B256 \<Rightarrow> ('x, 'rc) cached \<Rightarrow> (boot_info \<times> proof_journal) result" where
  "expected_journal sha image_id job =
     stitch_boot_info sha (verify_stitching_journal (None :: (unit, unit) zkvm option) image_id {}) (job_boot job)
       image_id (case pv_payout_recipient_address (pr_proving (ct_args job)) of Some a \<Rightarrow> a | None \<Rightarrow> 0)
       (ct_precondition_hash job) (ct_stitched_boot_info job)"

definition compute_cached_proof ::
  "('f, 'x, 'rc) proof_files \<Rightarrow> (bytes \<Rightarrow> B256) \<Rightarrow> (bytes \<Rightarrow> B256) \<Rightarrow> B256 \<Rightarrow> 'f \<Rightarrow> ('x, 'rc) cached \<Rightarrow>
   'f \<times> ('x proving_error + 'rc) result" where
  "compute_cached_proof F kec sha image_id files job =
     (case expected_journal sha image_id job of
        Inl e \<Rightarrow> (files, Inl e)
      | Inr (boot, journal) \<Rightarrow>
          let file_name = proof_id kec image_id (encode_packed journal);
              finish = (\<lambda>files. (files,
                if pv_skip_await_proof (pr_proving (ct_args job)) then Inr (Inl NotAwaitingProof)
                else other_error (err_context (pf_read F files file_name) ''Failed to read proof file contents.'')))
          in if pf_exists F files file_name \<and> ct_seek_proof job then finish files
             else case pf_preflight F files boot of
                 (files, Inl (Panic m)) \<Rightarrow> (files, Inl (Panic m))
               | (files, Inl (Bail ms)) \<Rightarrow> (files, Inr (Inl (OtherError ms)))
               | (files, Inr _) \<Rightarrow>
                   (case pf_native_client F files job of
                      (files, Inl e) \<Rightarrow> (files, Inl e)
                    | (files, Inr (Inl err)) \<Rightarrow> (files, Inr (Inl err))
                    | (files, Inr (Inr _)) \<Rightarrow> finish files))"

section \<open>Dividing the derivation\<close>

record l2_view =
  lv_block_hash :: "u64 \<Rightarrow> B256"
  lv_block_number :: "B256 \<Rightarrow> u64"

definition with_claim :: "prove_args \<Rightarrow> B256 \<Rightarrow> u64 \<Rightarrow> prove_args" where
  "with_claim args root number = args\<lparr>pr_kona := (pr_kona args)\<lparr>ka_claimed_l2_output_root := root,
     ka_claimed_l2_block_number := number\<rparr>\<rparr>"

definition with_agreed :: "prove_args \<Rightarrow> B256 \<Rightarrow> B256 \<Rightarrow> prove_args" where
  "with_agreed args root head = args\<lparr>pr_kona := (pr_kona args)\<lparr>ka_agreed_l2_output_root := root,
     ka_agreed_l2_head_hash := head\<rparr>\<rparr>"

text \<open>The loop runs until the agreed root is the claimed one.\<close>

partial_function (option) derivation_jobs ::
  "l2_view \<Rightarrow> (u64 \<Rightarrow> B256) \<Rightarrow> prove_args \<Rightarrow> u64 \<Rightarrow> B256 \<Rightarrow> B256 \<Rightarrow> prove_args list option" where
  "derivation_jobs l2 output_at_block args agreed_number agreed_root agreed_head =
     (if agreed_root = ka_claimed_l2_output_root (pr_kona args) then Some []
      else let number = min (saturating_add_u64 agreed_number (of_nat (pv_max_block_derivations (pr_proving args))))
                 (ka_claimed_l2_block_number (pr_kona args));
               root = output_at_block number;
               job = with_claim (with_agreed args agreed_root agreed_head) root number
           in Option.bind (derivation_jobs l2 output_at_block args number root (lv_block_hash l2 number)) (\<lambda>jobs.
              Some (job # jobs)))"

definition initial_jobs ::
  "l2_view option \<Rightarrow> (u64 \<Rightarrow> B256) option \<Rightarrow> prove_args \<Rightarrow> prove_args list option" where
  "initial_jobs l2 op_node args =
     (case (l2, op_node) of
        (Some l2, Some output_at_block) \<Rightarrow>
          derivation_jobs l2 output_at_block args (lv_block_number l2 (ka_agreed_l2_head_hash (pr_kona args)))
            (ka_agreed_l2_output_root (pr_kona args)) (ka_agreed_l2_head_hash (pr_kona args))
      | _ \<Rightarrow> Some [args])"

definition starting_block_of :: "l2_view option \<Rightarrow> prove_args \<Rightarrow> u64" where
  "starting_block_of l2 args =
     (case l2 of Some v \<Rightarrow> lv_block_number v (ka_agreed_l2_head_hash (pr_kona args)) | None \<Rightarrow> 0)"

section \<open>Results\<close>

datatype prove_exit = Bailed string | ExitCode nat

definition split_derivation ::
  "build \<Rightarrow> l2_view option \<Rightarrow> (u64 \<Rightarrow> B256) option \<Rightarrow> prove_args \<Rightarrow> u64 \<Rightarrow> u64 \<Rightarrow> (prove_args \<times> prove_args) result" where
  "split_derivation T l2 op_node job_args starting_block num_blocks =
     and_then (add_u64 T starting_block (num_blocks div 2)) (\<lambda>mid_point.
     and_then (unwrap_opt op_node ''Missing op_node_provider'') (\<lambda>output_at_block.
     and_then (unwrap_opt l2 ''Missing l2_provider'') (\<lambda>l2.
     Inr (with_claim job_args (output_at_block mid_point) mid_point,
          with_agreed job_args (output_at_block mid_point) (lv_block_hash l2 mid_point)))))"

text \<open>
  A result with its job: the jobs to dispatch next, the number of proofs required and the results so
  far, or the way the program ends. \<open>force_attempt\<close> was decided when the job was dispatched.
\<close>

definition forced :: "build \<Rightarrow> l2_view option \<Rightarrow> prove_args \<Rightarrow> bool result" where
  "forced T l2 job_args =
     and_then (sub_u64 T (claim_key job_args) (starting_block_of l2 job_args)) (\<lambda>num_blocks.
     Inr (num_blocks = 1 \<or> l2 = None))"

definition handle_proof ::
  "build \<Rightarrow> l2_view option \<Rightarrow> (u64 \<Rightarrow> B256) option \<Rightarrow> nat \<Rightarrow> (prove_args \<times> ('x proving_error + 'rc)) list \<Rightarrow>
   prove_args \<Rightarrow> bool \<Rightarrow> 'x proving_error + 'rc option \<Rightarrow>
   (prove_exit + prove_args list \<times> nat \<times> (prove_args \<times> ('x proving_error + 'rc)) list) result" where
  "handle_proof T l2 op_node num_proofs result_pq job_args force_attempt res =
     (let starting_block = starting_block_of l2 job_args
      in and_then (sub_u64 T (claim_key job_args) starting_block) (\<lambda>num_blocks.
         let split = and_then (split_derivation T l2 op_node job_args starting_block num_blocks)
               (\<lambda>(lower, upper). Inr (Inr ([lower, upper], num_proofs + 1, result_pq)));
             dropped = and_then (sub_usize T num_proofs 1) (\<lambda>n. Inr (Inr ([], n, result_pq)))
         in case res of
              Inr proof \<Rightarrow>
                Inr (Inr ([], num_proofs, (job_args,
                  case proof of Some receipt \<Rightarrow> Inr receipt
                  | None \<Rightarrow> Inl (OtherError [''Missing complete proof.''])) # result_pq))
            | Inl (WitnessSizeError f t e) \<Rightarrow> if force_attempt then Inr (Inl (Bailed ''WitnessSizeError'')) else split
            | Inl (ExecutionError e) \<Rightarrow> if force_attempt then Inr (Inl (Bailed ''ExecutionError'')) else split
            | Inl (OtherError ms) \<Rightarrow>
                if ms \<noteq> [] \<and> sublist L1_HEAD_INSUFFICIENT (last ms) then Inr (Inl (ExitCode 111))
                else Inr (Inl (Bailed ''Irrecoverable proving error''))
            | Inl (BlockCountError _ _ _) \<Rightarrow> Inl (Panic ''BlockCountError bubbled up'')
            | Inl (NotSeekingProof _ _) \<Rightarrow> Inl (Panic ''NotSeekingProof bubbled up'')
            | Inl (DerivationProofError _) \<Rightarrow> dropped
            | Inl NotAwaitingProof \<Rightarrow> dropped))"

text \<open>The loop that waits for the required proofs; jobs are in flight in any number and order.\<close>

inductive prove_step ::
  "(prove_args \<Rightarrow> 'x proving_error + 'rc option \<Rightarrow> bool) \<Rightarrow> build \<Rightarrow> l2_view option \<Rightarrow> (u64 \<Rightarrow> B256) option \<Rightarrow>
   prove_args multiset \<times> nat \<times> (prove_args \<times> ('x proving_error + 'rc)) list \<Rightarrow>
   prove_args multiset \<times> nat \<times> (prove_args \<times> ('x proving_error + 'rc)) list \<Rightarrow> bool"
  for answers T l2 op_node where
  prove_result:
    "length pq < num \<Longrightarrow> job \<in># pending \<Longrightarrow> forced T l2 job = Inr force \<Longrightarrow> answers job res \<Longrightarrow>
     handle_proof T l2 op_node num pq job force res = Inr (Inr (new, num', pq')) \<Longrightarrow>
     prove_step answers T l2 op_node (pending, num, pq) (pending - {#job#} + mset new, num', pq')"

text \<open>The composition: the results from the last to the first, under a proof of no blocks.\<close>

definition composed_proofs ::
  "(prove_args \<times> ('x proving_error + 'rc)) list \<Rightarrow> 'rc list result" where
  "composed_proofs pq =
     try_map (\<lambda>r. case snd r of Inr receipt \<Rightarrow> Inr receipt | Inl _ \<Rightarrow> Inl (Panic ''Failed to get result''))
       (rev (sort_key (\<lambda>r. claim_key (fst r)) pq))"

definition base_args :: "l2_view \<Rightarrow> prove_args \<Rightarrow> prove_args" where
  "base_args l2 args = with_agreed args (ka_claimed_l2_output_root (pr_kona args))
     (lv_block_hash l2 (ka_claimed_l2_block_number (pr_kona args)))"

definition composition_task ::
  "('rc \<Rightarrow> bytes) \<Rightarrow> l2_view \<Rightarrow> prove_args \<Rightarrow> rollup_config \<Rightarrow> B256 \<Rightarrow> B256 \<Rightarrow> 'rc list \<Rightarrow> ('x, 'rc) cached result" where
  "composition_task receipt_journal l2 args config precondition data_hash proofs =
     and_then (try_map (\<lambda>r. boot_from_receipt (receipt_journal r)) proofs) (\<lambda>boots.
     Inr (complete_task (base_args l2 args) config precondition data_hash boots proofs True))"

section \<open>Ranges of blocks\<close>

text \<open>
  The jobs for the blocks after \<open>s\<close> up to \<open>c\<close>: the arguments of the program with the outputs of the
  node at \<open>s\<close> and \<open>c\<close>, and a head at height \<open>s\<close>.
\<close>

definition range_job ::
  "l2_view \<Rightarrow> (u64 \<Rightarrow> B256) \<Rightarrow> prove_args \<Rightarrow> u64 \<Rightarrow> u64 \<Rightarrow> prove_args \<Rightarrow> bool" where
  "range_job l2 output_at_block args s c job \<longleftrightarrow>
     s < c \<and> (\<exists>head. lv_block_number l2 head = s \<and>
       job = with_claim (with_agreed args (output_at_block s) head) (output_at_block c) c)"

lemma with_sel [simp]:
  "claim_key (with_claim args r n) = n" "claim_key (with_agreed args r h) = claim_key args"
  "ka_agreed_l2_head_hash (pr_kona (with_claim args r n)) = ka_agreed_l2_head_hash (pr_kona args)"
  "ka_agreed_l2_head_hash (pr_kona (with_agreed args r h)) = h"
  "ka_agreed_l2_output_root (pr_kona (with_claim args r n)) = ka_agreed_l2_output_root (pr_kona args)"
  "ka_agreed_l2_output_root (pr_kona (with_agreed args r h)) = r"
  "ka_claimed_l2_output_root (pr_kona (with_claim args r n)) = r"
  "ka_claimed_l2_output_root (pr_kona (with_agreed args r h)) = ka_claimed_l2_output_root (pr_kona args)"
  "ka_claimed_l2_block_number (pr_kona (with_claim args r n)) = n"
  "ka_claimed_l2_block_number (pr_kona (with_agreed args r h)) = ka_claimed_l2_block_number (pr_kona args)"
  "ka_l1_head (pr_kona (with_claim args r n)) = ka_l1_head (pr_kona args)"
  "ka_l1_head (pr_kona (with_agreed args r h)) = ka_l1_head (pr_kona args)"
  "pr_proving (with_claim args r n) = pr_proving args" "pr_proving (with_agreed args r h) = pr_proving args"
  by (simp_all add: with_claim_def with_agreed_def claim_key_def)

lemma with_again:
  "with_claim (with_claim args r n) r' n' = with_claim args r' n'"
  "with_agreed (with_claim (with_agreed args r h) r' n') r'' h'' = with_claim (with_agreed args r'' h'') r' n'"
  by (simp_all add: with_claim_def with_agreed_def)

lemma range_job_sel:
  assumes "range_job l2 out args s c job"
  shows "starting_block_of (Some l2) job = s" "claim_key job = c" "s < c"
    "ka_agreed_l2_output_root (pr_kona job) = out s" "ka_claimed_l2_output_root (pr_kona job) = out c"
    "ka_claimed_l2_block_number (pr_kona job) = c" "ka_l1_head (pr_kona job) = ka_l1_head (pr_kona args)"
  using assms by (auto simp: range_job_def starting_block_of_def)

definition job_blocks :: "l2_view \<Rightarrow> prove_args \<Rightarrow> nat list" where
  "job_blocks l2 job = [Suc (unat (starting_block_of (Some l2) job))..<Suc (unat (claim_key job))]"

definition derivation_splits ::
  "build \<Rightarrow> l2_view \<Rightarrow> (u64 \<Rightarrow> B256) \<Rightarrow> prove_args \<Rightarrow> prove_args \<times> prove_args \<Rightarrow> bool" where
  "derivation_splits T l2 out job lu \<longleftrightarrow>
     (\<exists>num_blocks. sub_u64 T (claim_key job) (starting_block_of (Some l2) job) = Inr num_blocks \<and> num_blocks \<noteq> 1 \<and>
        split_derivation T (Some l2) (Some out) job (starting_block_of (Some l2) job) num_blocks = Inr lu)"

lemma upt_append: "i \<le> j \<Longrightarrow> j \<le> k \<Longrightarrow> [i..<j] @ [j..<k] = [i..<k]"
  by (metis le_add_diff_inverse upt_add_eq_append)

text \<open>A node that knows the blocks it serves by hash.\<close>

definition consistent_view :: "l2_view \<Rightarrow> bool" where
  "consistent_view l2 \<longleftrightarrow> (\<forall>n. lv_block_number l2 (lv_block_hash l2 n) = n)"

lemma split_range:
  assumes view: "consistent_view l2" and job: "range_job l2 out args s c job"
    and split: "derivation_splits T l2 out job (lower, upper)"
  shows "\<exists>mid. s < mid \<and> mid < c \<and> range_job l2 out args s mid lower \<and> range_job l2 out args mid c upper"
proof -
  note sel = range_job_sel [OF job]
  have "unat s < unat c" using sel(3) by (simp add: word_less_nat_alt)
  then have nb: "sub_u64 T c s = Inr (c - s)" "unat (c - s) = unat c - unat s" using sub_u64_nat by simp_all
  define mid where "mid = s + (c - s) div 2"
  have "c - s \<noteq> 1" and lu: "split_derivation T (Some l2) (Some out) job s (c - s) = Inr (lower, upper)"
    using split nb(1) by (auto simp: derivation_splits_def sel)
  then have "unat (c - s) \<noteq> 1" by (metis unsigned_1 unsigned_word_eqI)
  with nb(2) \<open>unat s < unat c\<close> have two: "2 \<le> unat c - unat s" by simp
  have half: "unat ((c - s) div 2) = (unat c - unat s) div 2" by (simp add: unat_div nb(2))
  have "unat s + (unat c - unat s) div 2 < unat c" using two by linarith
  then have "unat s + unat ((c - s) div 2) < 2 ^ 64" using half less_trans [OF _ unat_u64_bound] by simp
  then have mid: "add_u64 T s ((c - s) div 2) = Inr mid" "unat mid = unat s + (unat c - unat s) div 2"
    by (simp_all add: add_u64_ok unat_add_small mid_def half)
  then have "s < mid" "mid < c" using two by (simp_all add: word_less_nat_alt)
  moreover have "lower = with_claim job (out mid) mid" "upper = with_agreed job (out mid) (lv_block_hash l2 mid)"
    using lu mid(1) by (simp_all add: split_derivation_def)
  ultimately show ?thesis
    using job view by (auto simp: range_job_def with_again consistent_view_def intro!: exI [of _ mid])
qed

definition range_task :: "l2_view \<Rightarrow> (u64 \<Rightarrow> B256) \<Rightarrow> prove_args \<Rightarrow> prove_args \<Rightarrow> bool" where
  "range_task l2 out args job \<longleftrightarrow> consistent_view l2 \<and> (\<exists>s c. range_job l2 out args s c job)"

interpretation derivation_pool: splitting "range_task l2 out args" "job_blocks l2" "derivation_splits T l2 out"
  for l2 out args T
proof
  fix job
  assume "range_task l2 out args job"
  then obtain s c where "range_job l2 out args s c job" by (auto simp: range_task_def)
  from range_job_sel(1-3) [OF this] show "job_blocks l2 job \<noteq> []"
    by (simp add: job_blocks_def word_less_nat_alt)
next
  fix job lower upper
  assume "range_task l2 out args job" and split: "derivation_splits T l2 out job (lower, upper)"
  then obtain s c where view: "consistent_view l2" and job: "range_job l2 out args s c job"
    by (auto simp: range_task_def)
  from split_range [OF view job split] obtain mid where mid: "s < mid" "mid < c"
    "range_job l2 out args s mid lower" "range_job l2 out args mid c upper" by blast
  have "job_blocks l2 job = job_blocks l2 lower @ job_blocks l2 upper"
    using range_job_sel(1,2) [OF job] range_job_sel(1,2) [OF mid(3)] range_job_sel(1,2) [OF mid(4)] mid(1,2)
    by (simp add: job_blocks_def word_less_nat_alt upt_append del: upt_Suc)
  with view mid show "range_task l2 out args lower \<and> range_task l2 out args upper \<and>
      job_blocks l2 job = job_blocks l2 lower @ job_blocks l2 upper" unfolding range_task_def by blast
qed

text \<open>The first jobs, for a claim that the node agrees with.\<close>

definition honest_claim :: "(u64 \<Rightarrow> B256) \<Rightarrow> prove_args \<Rightarrow> u64 \<Rightarrow> bool" where
  "honest_claim out args s \<longleftrightarrow>
     s \<le> ka_claimed_l2_block_number (pr_kona args) \<and>
     out (ka_claimed_l2_block_number (pr_kona args)) = ka_claimed_l2_output_root (pr_kona args) \<and>
     inj_on out {s..ka_claimed_l2_block_number (pr_kona args)}"

lemma derivation_jobs_ranges:
  assumes view: "consistent_view l2" and pos: "0 < pv_max_block_derivations (pr_proving args)"
    "pv_max_block_derivations (pr_proving args) < 2 ^ 64"
    and "honest_claim out args s" and "root = out s" and "lv_block_number l2 head = s"
  shows "\<exists>jobs. derivation_jobs l2 out args s root head = Some jobs \<and>
    (\<forall>job \<in> set jobs. (\<exists>s c. range_job l2 out args s c job) \<and>
       length (job_blocks l2 job) \<le> pv_max_block_derivations (pr_proving args)) \<and>
    concat (map (job_blocks l2) jobs) = [Suc (unat s)..<Suc (unat (ka_claimed_l2_block_number (pr_kona args)))]"
  using assms(4-)
proof (induction "unat (ka_claimed_l2_block_number (pr_kona args)) - unat s" arbitrary: s root head rule: less_induct)
  case less
  let ?c = "ka_claimed_l2_block_number (pr_kona args)" and ?max = "pv_max_block_derivations (pr_proving args)"
  have sc: "unat s \<le> unat ?c" and claim: "out ?c = ka_claimed_l2_output_root (pr_kona args)"
    and inj: "inj_on out {s..?c}" using less.prems(1) by (auto simp: honest_claim_def word_le_nat_alt)
  show ?case
  proof (cases "s = ?c")
    case True
    then show ?thesis using less.prems claim by (subst derivation_jobs.simps) simp
  next
    case False
    with sc have lt: "unat s < unat ?c" by (metis le_neq_implies_less unsigned_word_eqI)
    have neq: "out s \<noteq> ka_claimed_l2_output_root (pr_kona args)"
      using inj_onD [OF inj, of s ?c] False sc claim by (auto simp: word_le_nat_alt)
    define n where "n = min (saturating_add_u64 s (of_nat ?max)) ?c"
    have "unat (of_nat ?max :: u64) = ?max" using pos(2) by (simp add: unat_of_nat take_bit_eq_mod)
    then have sat: "unat (saturating_add_u64 s (of_nat ?max)) = min (unat s + ?max) 18446744073709551615"
      by (auto simp: saturating_add_u64_def unat_add_small min_def) (simp add: unsigned_minus_1_eq_mask mask_eq_exp_minus_1)
    have "unat (min a b) = min (unat a) (unat b)" for a b :: u64 by (simp add: min_def word_le_nat_alt)
    moreover have "unat ?c \<le> 18446744073709551615" using unat_u64_bound [of ?c] by linarith
    ultimately have n: "unat n = min (unat s + ?max) (unat ?c)" using sat unfolding n_def by (simp add: min.assoc min_absorb2)
    then have sn: "s < n" "n \<le> ?c" and small: "unat n - unat s \<le> ?max"
      using lt pos(1) by (auto simp: word_less_nat_alt word_le_nat_alt)
    have "{n..?c} \<subseteq> {s..?c}" using sn by auto
    then have rest: "honest_claim out args n"
      using sn claim inj_on_subset [OF inj] by (simp add: honest_claim_def)
    have "unat ?c - unat n < unat ?c - unat s" using sn lt by (simp add: word_less_nat_alt)
    moreover have "lv_block_number l2 (lv_block_hash l2 n) = n" using view by (simp add: consistent_view_def)
    ultimately obtain jobs where
      jobs: "derivation_jobs l2 out args n (out n) (lv_block_hash l2 n) = Some jobs"
        "\<forall>job \<in> set jobs. (\<exists>s c. range_job l2 out args s c job) \<and> length (job_blocks l2 job) \<le> ?max"
        "concat (map (job_blocks l2) jobs) = [Suc (unat n)..<Suc (unat ?c)]"
      using less.hyps [OF _ rest refl] by blast
    let ?job = "with_claim (with_agreed args root head) (out n) n"
    have job: "range_job l2 out args s n ?job" using sn less.prems by (auto simp: range_job_def)
    have unfold: "derivation_jobs l2 out args s root head = Some (?job # jobs)"
      using neq less.prems(2) jobs(1) by (subst derivation_jobs.simps) (simp add: n_def [symmetric])
    have "job_blocks l2 ?job = [Suc (unat s)..<Suc (unat n)]"
      using range_job_sel [OF job] by (simp add: job_blocks_def)
    moreover have "[Suc (unat s)..<Suc (unat n)] @ [Suc (unat n)..<Suc (unat ?c)] = [Suc (unat s)..<Suc (unat ?c)]"
      using sn by (intro upt_append) (simp_all add: word_less_nat_alt word_le_nat_alt)
    ultimately show ?thesis using unfold jobs job small by (auto simp del: upt_Suc)
  qed
qed

section \<open>The loop over results\<close>

lemma handle_proof_cases:
  assumes "handle_proof T (Some l2) (Some out) num pq job force res = Inr (Inr (new, num', pq'))"
    and "forced T (Some l2) job = Inr force"
  obtains (proven) receipt where "res = Inr (Some receipt)" "new = []" "num' = num" "pq' = (job, Inr receipt) # pq"
  | (missing) "res = Inr None"
  | (halved) l u where "derivation_splits T l2 out job (l, u)" "new = [l, u]" "num' = num + 1" "pq' = pq"
  | (dropped) "res = Inl NotAwaitingProof \<or> (\<exists>n. res = Inl (DerivationProofError n))"
proof (cases res)
  case (Inr p)
  with assms(1) show ?thesis
    by (cases p) (auto simp: handle_proof_def Let_def res_simps intro: proven missing)
next
  case (Inl err)
  from assms(2) obtain nb where nb: "sub_u64 T (claim_key job) (starting_block_of (Some l2) job) = Inr nb"
      "force = (nb = 1)" by (auto simp: forced_def res_simps)
  show ?thesis
  proof (cases err)
    case NotAwaitingProof
    with Inl dropped show ?thesis by blast
  next
    case (DerivationProofError n)
    with Inl dropped show ?thesis by blast
  next
    case (WitnessSizeError f t e)
    with assms(1) Inl nb show ?thesis
      by (auto simp: handle_proof_def Let_def derivation_splits_def res_simps split: if_splits intro: halved)
  next
    case (ExecutionError e)
    with assms(1) Inl nb show ?thesis
      by (auto simp: handle_proof_def Let_def derivation_splits_def res_simps split: if_splits intro: halved)
  next
    case (OtherError ms)
    with assms(1) Inl nb show ?thesis by (auto simp: handle_proof_def Let_def res_simps split: if_splits)
  qed (use assms(1) Inl nb in \<open>auto simp: handle_proof_def Let_def res_simps\<close>)
qed

text \<open>Answers with which every job is proven in the end, whole or in halves.\<close>

definition awaited_answers :: "(prove_args \<Rightarrow> 'x proving_error + 'rc option \<Rightarrow> bool) \<Rightarrow> bool" where
  "awaited_answers answers \<longleftrightarrow> (\<forall>job res. answers job res \<longrightarrow>
     res \<noteq> Inr None \<and> res \<noteq> Inl NotAwaitingProof \<and> (\<forall>n. res \<noteq> Inl (DerivationProofError n)))"

definition proofs_ok ::
  "(prove_args \<Rightarrow> 'x proving_error + 'rc option \<Rightarrow> bool) \<Rightarrow>
   prove_args multiset \<times> nat \<times> (prove_args \<times> ('x proving_error + 'rc)) list \<Rightarrow> bool" where
  "proofs_ok answers st \<longleftrightarrow> (case st of (pending, num, pq) \<Rightarrow>
     num = size pending + length pq \<and>
     (\<forall>(job, r) \<in> set pq. \<exists>receipt. r = Inr receipt \<and> answers job (Inr (Some receipt))))"

lemma prove_step_pool:
  assumes "prove_step answers T (Some l2) (Some out) st st'" and "awaited_answers answers" and "proofs_ok answers st"
  shows "pool_step (derivation_splits T l2 out) (fst st, map fst (snd (snd st))) (fst st', map fst (snd (snd st'))) \<and>
    proofs_ok answers st'"
  using assms(1)
proof (cases rule: prove_step.cases)
  case (prove_result pq num job pending force res new num' pq')
  obtain rest where rest: "pending = add_mset job rest" using prove_result(4) by (metis multi_member_split)
  note no = assms(2) [unfolded awaited_answers_def, rule_format, OF prove_result(6)]
  from prove_result(7,5) show ?thesis
  proof (cases rule: handle_proof_cases)
    case (proven receipt)
    have "pool_step (derivation_splits T l2 out) (pending, map fst pq) (pending - {#job#}, job # map fst pq)"
      by (rule pool_finish [OF prove_result(4)])
    with proven prove_result assms(3) rest show ?thesis by (auto simp: proofs_ok_def)
  next
    case (halved l u)
    have "pool_step (derivation_splits T l2 out) (pending, map fst pq) (pending - {#job#} + {#l, u#}, map fst pq)"
      using prove_result(4) halved(1) by (rule pool_divide)
    with halved prove_result assms(3) rest show ?thesis by (auto simp: proofs_ok_def)
  qed (use no in auto)
qed

lemma prove_steps_pool:
  assumes "(prove_step answers T (Some l2) (Some out) ^^ k) st st'" and "awaited_answers answers"
    and "proofs_ok answers st"
  shows "(pool_step (derivation_splits T l2 out) ^^ k) (fst st, map fst (snd (snd st)))
      (fst st', map fst (snd (snd st'))) \<and> proofs_ok answers st'"
  using assms(1)
proof (induction k arbitrary: st')
  case 0
  then show ?case using assms(3) by simp
next
  case (Suc k)
  then obtain t where t: "(prove_step answers T (Some l2) (Some out) ^^ k) st t"
    "prove_step answers T (Some l2) (Some out) t st'" by auto
  from Suc.IH [OF t(1)] prove_step_pool [OF t(2) assms(2)] show ?case by (metis relpowp_Suc_I)
qed

text \<open>The blocks to prove, and the jobs that prove them.\<close>

definition blocks_to_prove :: "l2_view \<Rightarrow> prove_args \<Rightarrow> nat list" where
  "blocks_to_prove l2 args =
     [Suc (unat (starting_block_of (Some l2) args))..<Suc (unat (ka_claimed_l2_block_number (pr_kona args)))]"

definition provable_args :: "l2_view \<Rightarrow> (u64 \<Rightarrow> B256) \<Rightarrow> prove_args \<Rightarrow> bool" where
  "provable_args l2 out args \<longleftrightarrow>
     consistent_view l2 \<and> honest_claim out args (starting_block_of (Some l2) args) \<and>
     ka_agreed_l2_output_root (pr_kona args) = out (starting_block_of (Some l2) args) \<and>
     0 < pv_max_block_derivations (pr_proving args) \<and> pv_max_block_derivations (pr_proving args) < 2 ^ 64"

lemma initial_jobs_cover:
  assumes "provable_args l2 out args"
  shows "\<exists>jobs. initial_jobs (Some l2) (Some out) args = Some jobs \<and>
    (\<forall>job \<in> set jobs. (\<exists>s c. range_job l2 out args s c job) \<and>
       length (job_blocks l2 job) \<le> pv_max_block_derivations (pr_proving args)) \<and>
    concat (map (job_blocks l2) jobs) = blocks_to_prove l2 args"
proof -
  have eq: "starting_block_of (Some l2) args = lv_block_number l2 (ka_agreed_l2_head_hash (pr_kona args))"
    by (simp add: starting_block_of_def)
  have p: "consistent_view l2" "0 < pv_max_block_derivations (pr_proving args)"
      "pv_max_block_derivations (pr_proving args) < 2 ^ 64" "honest_claim out args (starting_block_of (Some l2) args)"
      "ka_agreed_l2_output_root (pr_kona args) = out (starting_block_of (Some l2) args)"
    using assms unfolding provable_args_def by blast+
  have "initial_jobs (Some l2) (Some out) args = derivation_jobs l2 out args (starting_block_of (Some l2) args)
      (ka_agreed_l2_output_root (pr_kona args)) (ka_agreed_l2_head_hash (pr_kona args))"
    by (simp add: initial_jobs_def eq)
  with derivation_jobs_ranges [OF p eq [symmetric]] show ?thesis unfolding blocks_to_prove_def by simp
qed

lemma prove_loop:
  assumes args: "provable_args l2 out args" and jobs: "initial_jobs (Some l2) (Some out) args = Some jobs"
    and answers: "awaited_answers answers"
    and steps: "(prove_step answers T (Some l2) (Some out) ^^ k) (mset jobs, length jobs, []) (pending, num, pq)"
  shows "k \<le> 2 * length (blocks_to_prove l2 args)" "num = size pending + length pq"
    "\<forall>(job, r) \<in> set pq. (\<exists>s c. range_job l2 out args s c job) \<and>
       (\<exists>receipt. r = Inr receipt \<and> answers job (Inr (Some receipt)))"
    "\<not> length pq < num \<Longrightarrow>
       concat (map (job_blocks l2 \<circ> fst) (sort_key (\<lambda>r. claim_key (fst r)) pq)) = blocks_to_prove l2 args"
proof -
  have view: "consistent_view l2" using args by (simp add: provable_args_def)
  have init: "derivation_pool.partitioned l2 out args (blocks_to_prove l2 args) (mset jobs, [])"
    "proofs_ok answers (mset jobs, length jobs, [])"
    using initial_jobs_cover [OF args] jobs view
    by (auto simp: derivation_pool.partitioned_def proofs_ok_def range_task_def)
  from prove_steps_pool [OF steps answers init(2)]
  have run: "(pool_step (derivation_splits T l2 out) ^^ k) (mset jobs, []) (pending, map fst pq)"
    and ok: "proofs_ok answers (pending, num, pq)" by simp_all
  from derivation_pool.partitioned_steps [OF run init(1)] derivation_pool.weight_bound [OF init(1)]
  have part: "derivation_pool.partitioned l2 out args (blocks_to_prove l2 args) (pending, map fst pq)"
    and "k \<le> 2 * length (blocks_to_prove l2 args)" by auto
  show "k \<le> 2 * length (blocks_to_prove l2 args)" by fact
  show num: "num = size pending + length pq" using ok by (simp add: proofs_ok_def)
  show all: "\<forall>(job, r) \<in> set pq. (\<exists>s c. range_job l2 out args s c job) \<and>
      (\<exists>receipt. r = Inr receipt \<and> answers job (Inr (Some receipt)))"
    using ok derivation_pool.partitioned_good [OF part] by (force simp: proofs_ok_def range_task_def)
  assume "\<not> length pq < num"
  then have empty: "derivation_pool.partitioned l2 out args (blocks_to_prove l2 args) ({#}, map fst pq)"
    using num part by simp
  have key: "unat (claim_key job) = last (job_blocks l2 job)" if "job \<in> set (map fst pq)" for job
    using that all range_job_sel(1-3) by (fastforce simp: job_blocks_def word_less_nat_alt)
  have "sorted_wrt (<) (blocks_to_prove l2 args)" by (simp add: blocks_to_prove_def del: upt_Suc)
  from derivation_pool.finished_sorted [OF empty, of id "\<lambda>job. unat (claim_key job)"] this key
  have "concat (map (job_blocks l2) (sort_key (\<lambda>job. unat (claim_key job)) (map fst pq))) = blocks_to_prove l2 args"
    by simp
  moreover have "sort_key (\<lambda>job. unat (claim_key job)) js = sort_key claim_key js" for js
    by (intro sort_key_eq_mono) (simp add: word_le_nat_alt)
  moreover have "map fst (sort_key (\<lambda>r. claim_key (fst r)) pq) = sort_key claim_key (map fst pq)" by (rule map_sort_key)
  ultimately show "concat (map (job_blocks l2 \<circ> fst) (sort_key (\<lambda>r. claim_key (fst r)) pq)) = blocks_to_prove l2 args"
    by (metis map_map)
qed

section \<open>Composition\<close>

lemma stitch_backward:
  assumes "\<And>j. verify j = Inr ()"
  shows "boot_chain a segments c \<Longrightarrow>
    \<forall>b \<in> set segments. sb_l1_head b = pj_l1_head J \<and> sb_agreed_l2_output_root b \<noteq> sb_claimed_l2_output_root b \<Longrightarrow>
    pj_agreed_l2_output_root J = c \<Longrightarrow>
    try_fold (stitch_boot verify image_id payout pre) J (rev segments) = Inr (J\<lparr>pj_agreed_l2_output_root := a\<rparr>)"
proof (induction segments arbitrary: c J rule: rev_induct)
  case Nil
  then show ?case by simp
next
  case (snoc b segments)
  let ?J = "J\<lparr>pj_agreed_l2_output_root := sb_agreed_l2_output_root b\<rparr>"
  from snoc.prems have chain: "boot_chain a segments (sb_agreed_l2_output_root b)"
    "sb_claimed_l2_output_root b = pj_agreed_l2_output_root J" by (auto simp: boot_chain_append)
  then have "stitch_boot verify image_id payout pre J b = Inr ?J"
    using snoc.prems assms by (simp add: stitch_boot_def)
  moreover have "try_fold (stitch_boot verify image_id payout pre) ?J (rev segments) =
      Inr (?J\<lparr>pj_agreed_l2_output_root := a\<rparr>)"
    using snoc.prems by (intro snoc.IH [OF chain(1)]) auto
  ultimately show ?case by simp
qed

definition job_segment :: "prove_args \<Rightarrow> stitched_boot_info" where
  "job_segment job = \<lparr>sb_l1_head = ka_l1_head (pr_kona job),
     sb_agreed_l2_output_root = ka_agreed_l2_output_root (pr_kona job),
     sb_claimed_l2_output_root = ka_claimed_l2_output_root (pr_kona job),
     sb_claimed_l2_block_number = ka_claimed_l2_block_number (pr_kona job)\<rparr>"

lemma range_jobs_chain:
  assumes "\<forall>job \<in> set jobs. \<exists>s c. range_job l2 out args s c job"
    and "concat (map (job_blocks l2) jobs) = [Suc (unat s)..<Suc (unat c)]" and "s \<le> c"
  shows "boot_chain (out s) (map job_segment jobs) (out c)"
  using assms
proof (induction jobs arbitrary: s)
  case Nil
  then have "length [Suc (unat s)..<Suc (unat c)] = 0" by (metis concat.simps(1) list.map(1) list.size(3))
  then have "unat c \<le> unat s" by (simp del: upt_Suc)
  then have "s = c" using Nil.prems(3) by (simp add: word_le_nat_alt unsigned_word_eqI)
  then show ?case by simp
next
  case (Cons job jobs)
  then obtain s' c' where job: "range_job l2 out args s' c' job" by auto
  note sel = range_job_sel [OF job]
  have blocks: "job_blocks l2 job = [Suc (unat s')..<Suc (unat c')]" by (simp add: job_blocks_def sel)
  have lt: "unat s' < unat c'" using sel(3) by (simp add: word_less_nat_alt)
  have all: "[Suc (unat s')..<Suc (unat c')] @ concat (map (job_blocks l2) jobs) = [Suc (unat s)..<Suc (unat c)]"
    using Cons.prems(2) blocks by simp
  have len: "length ([Suc (unat s')..<Suc (unat c')] @ concat (map (job_blocks l2) jobs)) = unat c - unat s"
    using arg_cong [OF all, of length] by (simp del: upt_Suc)
  then have "unat c' - unat s' \<le> unat c - unat s" by (simp del: upt_Suc)
  with lt have lt2: "unat s < unat c" by linarith
  have "hd ([Suc (unat s')..<Suc (unat c')] @ concat (map (job_blocks l2) jobs)) = Suc (unat s')"
    using lt by (simp del: upt_Suc)
  then have "unat s' = unat s" using arg_cong [OF all, of hd] lt2 by (simp del: upt_Suc)
  then have s: "s' = s" by (metis unsigned_word_eqI)
  have le: "unat c' \<le> unat c" using \<open>unat c' - unat s' \<le> unat c - unat s\<close> lt lt2 unfolding s by linarith
  have "[Suc (unat s)..<Suc (unat c')] @ [Suc (unat c')..<Suc (unat c)] = [Suc (unat s)..<Suc (unat c)]"
    using lt le s by (intro upt_append) auto
  with all s have "concat (map (job_blocks l2) jobs) = [Suc (unat c')..<Suc (unat c)]" by (metis same_append_eq)
  with Cons.IH [of c'] Cons.prems(1) le have "boot_chain (out c') (map job_segment jobs) (out c)"
    by (simp add: word_le_nat_alt del: upt_Suc)
  moreover have "sb_agreed_l2_output_root (job_segment job) = out s" "sb_claimed_l2_output_root (job_segment job) = out c'"
    using sel s by (simp_all add: job_segment_def)
  ultimately show ?case by simp
qed

section \<open>Properties\<close>

text \<open>A node whose block hashes and output roots are the block numbers, and a prover that proves every job.\<close>

definition count_view :: l2_view where
  "count_view = \<lparr>lv_block_hash = ucast, lv_block_number = ucast\<rparr>"

definition count_output :: "u64 \<Rightarrow> B256" where
  "count_output n = ucast n"

lemma ucast_ucast_u64: "ucast (ucast (n :: u64) :: B256) = n"
  by (simp add: ucast_down_ucast_id is_down)

lemma count_provable: "provable_args count_view count_output two_args"
proof -
  have "inj_on count_output A" for A
    by (rule inj_on_inverseI [where g = ucast]) (simp add: count_output_def ucast_ucast_u64)
  then show ?thesis
    by (simp add: provable_args_def consistent_view_def honest_claim_def count_view_def ucast_ucast_u64
        starting_block_of_def two_args_def count_output_def)
qed

definition range_receipt :: "prove_args \<Rightarrow> bytes" where
  "range_receipt job = encode_packed (journal_new_stitched 3 0 0 9 (job_segment job))"

definition count_answers :: "prove_args \<Rightarrow> bool proving_error + bytes option \<Rightarrow> bool" where
  "count_answers job res \<longleftrightarrow> res = Inr (Some (range_receipt job))"

lemma count_awaited: "awaited_answers count_answers"
  by (simp add: awaited_answers_def count_answers_def)

definition count_job :: prove_args where
  "count_job = with_claim (with_agreed two_args 5 5) 7 7"

lemma count_jobs: "initial_jobs (Some count_view) (Some count_output) two_args = Some [count_job]"
proof -
  have "derivation_jobs count_view count_output two_args 7 7 7 = Some []"
    by (subst derivation_jobs.simps) (simp add: two_args_def)
  moreover have "min (saturating_add_u64 5 9) 7 = (7 :: u64)" by (simp add: saturating_add_u64_def min_def)
  ultimately have "derivation_jobs count_view count_output two_args 5 5 5 = Some [count_job]"
    by (subst derivation_jobs.simps) (simp add: two_args_def count_output_def count_view_def count_job_def)
  then show ?thesis
    by (simp add: initial_jobs_def) (simp add: two_args_def count_view_def)
qed

lemma count_drained:
  "(prove_step count_answers host (Some count_view) (Some count_output) ^^ 1) (mset [count_job], length [count_job], [])
     ({#}, 1, [(count_job, Inr (range_receipt count_job))])"
proof -
  have start: "starting_block_of (Some count_view) count_job = 5" "claim_key count_job = 7"
    by (simp_all add: starting_block_of_def count_view_def count_job_def)
  have "prove_step count_answers host (Some count_view) (Some count_output) ({#count_job#}, 1, [])
      ({#count_job#} - {#count_job#} + mset [], 1, [(count_job, Inr (range_receipt count_job))])"
    by (rule prove_result [where res = "Inr (Some (range_receipt count_job))" and force = False])
      (simp_all add: count_answers_def forced_def handle_proof_def start sub_u64_def)
  then show ?thesis by (simp only: relpowp_1) simp
qed

text \<open>
  C20. The proofs compose: once the loop of \<open>prove\<close> has every required proof, each with the journal of
  its range, the results taken from the last to the first are receipts for contiguous ranges, and
  the last task, which derives no block, has an expected journal; it leads from the agreed output
  root of the program's arguments to the claimed one at the claimed block, under the same L1 head,
  so the host neither panics nor proves anything else when it stitches.
\<close>

theorem composition_proves_arguments:
  fixes pq :: "(prove_args \<times> ('x proving_error + 'rc)) list"
  assumes args: "provable_args l2 out args" and jobs: "initial_jobs (Some l2) (Some out) args = Some jobs"
    and answers: "awaited_answers answers"
    and steps: "(prove_step answers T (Some l2) (Some out) ^^ k) (mset jobs, length jobs, []) (pending, num, pq)"
    and finished: "\<not> length pq < num"
    and receipts: "\<And>job receipt. answers job (Inr (Some receipt)) \<Longrightarrow>
      boot_from_receipt (receipt_journal receipt) = Inr (job_segment job)"
    and config: "config_hash sha config = Inr config_digest"
  shows "\<exists>proofs (task :: ('x, 'rc) cached) J. composed_proofs pq = Inr proofs \<and>
    composition_task receipt_journal l2 args config pre data_hash proofs = Inr task \<and>
    expected_journal sha image_id task = Inr (job_boot task, J) \<and>
    pj_agreed_l2_output_root J = ka_agreed_l2_output_root (pr_kona args) \<and>
    pj_claimed_l2_output_root J = ka_claimed_l2_output_root (pr_kona args) \<and>
    pj_claimed_l2_block_number J = ka_claimed_l2_block_number (pr_kona args) \<and>
    pj_l1_head J = ka_l1_head (pr_kona args) \<and> pj_precondition_hash J = pre"
proof -
  let ?c = "ka_claimed_l2_block_number (pr_kona args)" and ?s = "starting_block_of (Some l2) args"
  let ?sorted = "sort_key (\<lambda>r. claim_key (fst r)) pq"
  note loop = prove_loop [OF args jobs answers steps]
  have in_pq: "set ?sorted = set pq" by simp
  define receipt_of where "receipt_of = (\<lambda>r :: prove_args \<times> ('x proving_error + 'rc). projr (snd r))"
  have r: "snd r = Inr (receipt_of r) \<and> answers (fst r) (Inr (Some (receipt_of r))) \<and>
      (\<exists>s c. range_job l2 out args s c (fst r))" if "r \<in> set ?sorted" for r
    using loop(3) that unfolding in_pq receipt_of_def by (cases r) fastforce
  then have proofs: "composed_proofs pq = Inr (map receipt_of (rev ?sorted))"
    unfolding composed_proofs_def by (intro try_map_all_Inr) simp
  have "try_map (\<lambda>x. boot_from_receipt (receipt_journal x)) (map receipt_of (rev ?sorted)) =
      Inr (map (job_segment \<circ> fst) (rev ?sorted))"
    using r receipts by (intro try_map_map_Inr) simp
  moreover define task where "task = (complete_task (base_args l2 args) config pre data_hash
      (map (job_segment \<circ> fst) (rev ?sorted)) (map receipt_of (rev ?sorted)) True :: ('x, 'rc) cached)"
  ultimately have task: "composition_task receipt_journal l2 args config pre data_hash (map receipt_of (rev ?sorted)) = Inr task"
    by (simp add: composition_task_def)
  have honest: "?s \<le> ?c" "out ?c = ka_claimed_l2_output_root (pr_kona args)" "inj_on out {?s..?c}"
      "out ?s = ka_agreed_l2_output_root (pr_kona args)"
    using args by (auto simp: provable_args_def honest_claim_def)
  have blocks: "concat (map (job_blocks l2) (map fst ?sorted)) = [Suc (unat ?s)..<Suc (unat ?c)]"
    using loop(4) [OF finished] by (simp add: blocks_to_prove_def del: upt_Suc)
  have ranges: "\<forall>job \<in> set (map fst ?sorted). \<exists>s c. range_job l2 out args s c job" using r by auto
  have chain: "boot_chain (out ?s) (map job_segment (map fst ?sorted)) (out ?c)"
    by (rule range_jobs_chain [OF ranges blocks honest(1)])
  have progress: "\<forall>b \<in> set (map job_segment (map fst ?sorted)). sb_l1_head b = ka_l1_head (pr_kona args) \<and>
      sb_agreed_l2_output_root b \<noteq> sb_claimed_l2_output_root b"
  proof
    fix b assume "b \<in> set (map job_segment (map fst ?sorted))"
    then obtain job where b: "b = job_segment job" and job: "job \<in> set (map fst ?sorted)" by auto
    then obtain s c where rj: "range_job l2 out args s c job" using ranges by blast
    have "set (job_blocks l2 job) \<subseteq> set (concat (map (job_blocks l2) (map fst ?sorted)))" using job by auto
    then have "{Suc (unat s)..unat c} \<subseteq> {Suc (unat ?s)..unat ?c}"
      unfolding blocks by (auto simp: job_blocks_def range_job_sel [OF rj] simp del: upt_Suc)
    then have "s \<in> {?s..?c}" "c \<in> {?s..?c}" using range_job_sel(3) [OF rj]
      by (auto simp: word_le_nat_alt word_less_nat_alt Suc_le_eq)
    then have "out s \<noteq> out c" using inj_onD [OF honest(3), of s c] range_job_sel(3) [OF rj] by auto
    then show "sb_l1_head b = ka_l1_head (pr_kona args) \<and> sb_agreed_l2_output_root b \<noteq> sb_claimed_l2_output_root b"
      using range_job_sel [OF rj] by (simp add: b job_segment_def)
  qed
  let ?payout = "case pv_payout_recipient_address (pr_proving args) of Some a \<Rightarrow> a | None \<Rightarrow> 0"
  let ?J0 = "journal_new_stitched image_id ?payout pre config_digest \<lparr>sb_l1_head = ka_l1_head (pr_kona args),
    sb_agreed_l2_output_root = out ?c, sb_claimed_l2_output_root = out ?c, sb_claimed_l2_block_number = ?c\<rparr>"
  have verify: "verify_stitching_journal (None :: (unit, unit) zkvm option) image_id {} j = Inr ()" for j
    by (simp add: verify_stitching_journal_def)
  have J0: "journal_new sha image_id ?payout pre (job_boot task) = Inr ?J0"
    by (simp add: journal_new_def journal_new_stitched_def config job_boot_def task_def complete_task_def
        fpvm_task_def base_args_def honest(2) Let_def)
  have boots: "ct_stitched_boot_info task = rev (map job_segment (map fst ?sorted))"
    by (simp add: task_def complete_task_def fpvm_task_def rev_map)
  have fold: "try_fold (stitch_boot (verify_stitching_journal (None :: (unit, unit) zkvm option) image_id {})
      image_id ?payout pre) ?J0 (ct_stitched_boot_info task) = Inr (?J0\<lparr>pj_agreed_l2_output_root := out ?s\<rparr>)"
    unfolding boots
    by (rule stitch_backward [OF verify chain]) (use progress in \<open>simp_all add: journal_new_stitched_def\<close>)
  have "ct_precondition_hash task = pre" "pr_proving (ct_args task) = pr_proving args"
    by (simp_all add: task_def complete_task_def fpvm_task_def base_args_def)
  then have "expected_journal sha image_id task = Inr (job_boot task, ?J0\<lparr>pj_agreed_l2_output_root := out ?s\<rparr>)"
    unfolding expected_journal_def stitch_boot_info_def by (simp only: J0 fold and_then_simps)
  with proofs task show ?thesis using honest(2,4) by (auto simp: journal_new_stitched_def)
qed

theorem composition_proves_arguments_witness:
  "\<exists>proofs task J. composed_proofs [(count_job, Inr (range_receipt count_job) :: bool proving_error + bytes)] = Inr proofs \<and>
     composition_task (\<lambda>r. r) count_view two_args (sample_config 250) 0 0 proofs = Inr (task :: (bool, bytes) cached) \<and>
     expected_journal count_hash 3 task = Inr (job_boot task, J) \<and>
     pj_agreed_l2_output_root J = 5 \<and> pj_claimed_l2_output_root J = 7"
proof -
  obtain config where config: "config_hash count_hash (sample_config 250) = Inr config"
    using sample_config_ok [of count_hash 250] by (auto simp: config_hash_def)
  have receipts: "boot_from_receipt receipt = Inr (job_segment job)" if "count_answers job (Inr (Some receipt))"
    for job receipt
    using that by (simp add: count_answers_def range_receipt_def boot_from_receipt_def journal_from_receipt_def
        journal_codec.dec_enc)
  from composition_proves_arguments [where receipt_journal = "\<lambda>r. r" and pre = 0 and data_hash = 0 and image_id = 3,
      OF count_provable count_jobs count_awaited count_drained _ receipts config]
  show ?thesis by (auto simp: two_args_def)
qed

text \<open>
  C24. Dividing the work ends and covers it: when the node agrees with the claim and knows no output
  root twice, the loop that creates the first jobs returns, its jobs cover the blocks after the
  agreed one up to the claimed one in order, each at most \<open>max_block_derivations\<close> of them; and the loop
  over results handles at most twice as many results as there are blocks, with a job in flight as
  long as a proof is missing.
\<close>

theorem prove_loops_terminate:
  assumes args: "provable_args l2 out args" and answers: "awaited_answers answers"
  shows "\<exists>jobs. initial_jobs (Some l2) (Some out) args = Some jobs \<and>
    concat (map (job_blocks l2) jobs) = blocks_to_prove l2 args \<and>
    (\<forall>job \<in> set jobs. length (job_blocks l2 job) \<le> pv_max_block_derivations (pr_proving args)) \<and>
    (\<forall>k pending num pq. (prove_step answers T (Some l2) (Some out) ^^ k) (mset jobs, length jobs, []) (pending, num, pq) \<longrightarrow>
       k \<le> 2 * length (blocks_to_prove l2 args) \<and> (length pq < num \<longleftrightarrow> pending \<noteq> {#}))"
proof -
  from initial_jobs_cover [OF args] obtain jobs where jobs: "initial_jobs (Some l2) (Some out) args = Some jobs"
    "concat (map (job_blocks l2) jobs) = blocks_to_prove l2 args"
    "\<forall>job \<in> set jobs. length (job_blocks l2 job) \<le> pv_max_block_derivations (pr_proving args)" by blast
  have "k \<le> 2 * length (blocks_to_prove l2 args) \<and> (length pq < num \<longleftrightarrow> pending \<noteq> {#})"
    if "(prove_step answers T (Some l2) (Some out) ^^ k) (mset jobs, length jobs, []) (pending, num, pq)"
    for k pending num and pq :: "(prove_args \<times> ('a proving_error + 'b)) list"
    using prove_loop(1,2) [OF args jobs(1) answers that] by (auto simp: nonempty_has_size)
  with jobs show ?thesis by blast
qed

theorem prove_loops_terminate_witness:
  "\<exists>jobs. initial_jobs (Some count_view) (Some count_output) two_args = Some jobs \<and>
     concat (map (job_blocks count_view) jobs) = [6, 7]"
proof -
  have "blocks_to_prove count_view two_args = [6, 7]"
    by (simp add: blocks_to_prove_def starting_block_of_def count_view_def two_args_def upt_conv_Cons)
  then show ?thesis
    using prove_loops_terminate [OF count_provable count_awaited, of host] by auto
qed

text \<open>
  C26. A claim that the node does not share is never divided: when none of the node's output roots up
  to the claimed block is the claimed root, the loop that creates the first jobs does not return.
\<close>

theorem disputed_claim_diverges:
  assumes "\<forall>n \<le> ka_claimed_l2_block_number (pr_kona args). out n \<noteq> ka_claimed_l2_output_root (pr_kona args)"
    and "ka_agreed_l2_output_root (pr_kona args) \<noteq> ka_claimed_l2_output_root (pr_kona args)"
  shows "initial_jobs (Some l2) (Some out) args = None"
proof -
  let ?P = "\<lambda>l2 out args n root head jobs. root \<noteq> ka_claimed_l2_output_root (pr_kona args) \<longrightarrow>
    \<not> (\<forall>n \<le> ka_claimed_l2_block_number (pr_kona args). out n \<noteq> ka_claimed_l2_output_root (pr_kona args))"
  have "?P l2' out' args' n root head jobs" if "derivation_jobs l2' out' args' n root head = Some jobs"
    for l2' out' args' n root head jobs
  proof (rule derivation_jobs.raw_induct [where P = ?P, OF _ that], goal_cases)
    case (1 loop l2 out args n root head jobs)
    show ?case
    proof (intro impI notI)
      assume neq: "root \<noteq> ka_claimed_l2_output_root (pr_kona args)"
        and all: "\<forall>n \<le> ka_claimed_l2_block_number (pr_kona args). out n \<noteq> ka_claimed_l2_output_root (pr_kona args)"
      let ?m = "min (saturating_add_u64 n (of_nat (pv_max_block_derivations (pr_proving args))))
        (ka_claimed_l2_block_number (pr_kona args))"
      from "1"(2) neq obtain jobs' where "loop l2 out args ?m (out ?m) (lv_block_hash l2 ?m) = Some jobs'"
        by (auto simp: Let_def bind_eq_Some_conv)
      moreover have "?m \<le> ka_claimed_l2_block_number (pr_kona args)" by simp
      ultimately show False using "1"(1) all by blast
    qed
  qed
  note never = this
  show ?thesis
  proof (cases "initial_jobs (Some l2) (Some out) args")
    case (Some jobs)
    then have "derivation_jobs l2 out args (lv_block_number l2 (ka_agreed_l2_head_hash (pr_kona args)))
        (ka_agreed_l2_output_root (pr_kona args)) (ka_agreed_l2_head_hash (pr_kona args)) = Some jobs"
      by (simp add: initial_jobs_def)
    from never [OF this] assms show ?thesis by blast
  qed
qed

theorem disputed_claim_diverges_witness:
  "initial_jobs (Some count_view) (Some count_output) (with_claim two_args 9 7) = None"
proof (rule disputed_claim_diverges)
  have "count_output n \<noteq> 9" if "n \<le> 7" for n
  proof
    assume "count_output n = 9"
    then have "n = ucast (9 :: B256)" using ucast_ucast_u64 [of n] by (simp add: count_output_def)
    with that show False by simp
  qed
  then show "\<forall>n \<le> ka_claimed_l2_block_number (pr_kona (with_claim two_args 9 7)).
      count_output n \<noteq> ka_claimed_l2_output_root (pr_kona (with_claim two_args 9 7))" by simp
  show "ka_agreed_l2_output_root (pr_kona (with_claim two_args 9 7)) \<noteq>
      ka_claimed_l2_output_root (pr_kona (with_claim two_args 9 7))" by (simp add: two_args_def)
qed

end
