(* ===== verification/Blob_Points.thy ===== *)
theory Blob_Points
  imports Blobs
begin

text \<open>
  Opening a blob at one of its field elements (\<open>src/crates/sync/src/blobs.rs\<close>): the evaluation point
  of each position, a root of unity of the scalar field in bit-reversed order, and the KZG proof of
  the element there. The library \<open>c_kzg\<close> is the record of theory \<open>Blobs\<close>, here with its operations on
  single points.

  \<open>pow_mod\<close> is the modular exponentiation of the 256-bit integers, by repeated squaring.
\<close>

unbundle bit_operations_syntax

section \<open>Operations\<close>

record point_kzg = kzg +
  compute_kzg_proof :: "blob \<Rightarrow> U256 \<Rightarrow> (bytes48 \<times> U256) result"
  verify_kzg_proof :: "bytes48 \<Rightarrow> U256 \<Rightarrow> U256 \<Rightarrow> bytes48 \<Rightarrow> bool result"

fun pow_mod_nat :: "nat \<Rightarrow> nat \<Rightarrow> nat \<Rightarrow> nat" where
  "pow_mod_nat b e m =
     (if e = 0 then 1 mod m
      else if even e then pow_mod_nat (b * b mod m) (e div 2) m
      else b * pow_mod_nat (b * b mod m) (e div 2) m mod m)"

declare pow_mod_nat.simps [simp del]

definition pow_mod :: "U256 \<Rightarrow> U256 \<Rightarrow> U256 \<Rightarrow> U256" where
  "pow_mod b e m = of_nat (pow_mod_nat (unat b) (unat e) (unat m))"

definition PRIMITIVE_ROOT_OF_UNITY :: U256 where
  "PRIMITIVE_ROOT_OF_UNITY = 7"

definition FE_ORDER_PO2 :: nat where
  "FE_ORDER_PO2 = 12"

definition u128_reverse_bits :: "128 word \<Rightarrow> 128 word" where
  "u128_reverse_bits w = horner_sum of_bool 2 (map (\<lambda>i. bit w (127 - i)) [0..<128])"

definition reverse_bits :: "128 word \<Rightarrow> nat \<Rightarrow> 128 word" where
  "reverse_bits index order_po2 = drop_bit (128 - order_po2) (u128_reverse_bits index)"

definition root_of_unity :: "nat \<Rightarrow> U256" where
  "root_of_unity index =
     (let primitive_root_exponent = (BLS_MODULUS - 1) div of_nat FIELD_ELEMENTS_PER_BLOB;
          root = pow_mod PRIMITIVE_ROOT_OF_UNITY primitive_root_exponent BLS_MODULUS;
          root_exponent = reverse_bits (of_nat index) FE_ORDER_PO2
      in pow_mod root (ucast root_exponent) BLS_MODULUS)"

definition blob_fe_proof :: "point_kzg \<Rightarrow> blob \<Rightarrow> nat \<Rightarrow> (bytes48 \<times> U256) result" where
  "blob_fe_proof K b index =
     (let z = root_of_unity index
      in and_then (compute_kzg_proof K b z) (\<lambda>(proof_bytes, fe).
         and_then (blob_to_kzg_commitment K b) (\<lambda>commitment.
         and_then (verify_kzg_proof K commitment z fe proof_bytes) (\<lambda>verified.
         if verified then Inr (proof_bytes, fe) else bail ''Generated invalid kzg proof.''))))"

section \<open>Exponentiation\<close>

lemma pow_mod_nat_eq: "pow_mod_nat b e m = b ^ e mod m"
proof (induction b e m rule: pow_mod_nat.induct)
  case (1 b e m)
  have sq: "(b * b mod m) ^ k mod m = b ^ (2 * k) mod m" for k
    by (simp add: power_mod power_mult power2_eq_square)
  show ?case
  proof (cases "e = 0")
    case True
    then show ?thesis by (simp add: pow_mod_nat.simps)
  next
    case False
    show ?thesis
    proof (cases "even e")
      case True
      then have "pow_mod_nat b e m = b ^ (2 * (e div 2)) mod m"
        using False "1.IH"(1) sq by (subst pow_mod_nat.simps) simp
      with True show ?thesis by simp
    next
      case odd: False
      then have "pow_mod_nat b e m = b * b ^ (2 * (e div 2)) mod m"
        using False "1.IH"(2) sq by (subst pow_mod_nat.simps) (simp add: mod_mult_right_eq)
      also have "b * b ^ (2 * (e div 2)) = b ^ e"
        using odd by (metis odd_two_times_div_two_succ power_Suc Suc_eq_plus1)
      finally show ?thesis .
    qed
  qed
qed

lemma pow_mod_eq: "pow_mod b e m = of_nat (unat b ^ unat e mod unat m)"
  by (simp add: pow_mod_def pow_mod_nat_eq)

section \<open>Bit reversal\<close>

text \<open>Reversal of twelve bits is a permutation of the 4096 positions of a blob.\<close>

lemma bit_reverse_bits: "bit (reverse_bits w 12) n \<longleftrightarrow> n < 12 \<and> bit w (11 - n)"
  unfolding reverse_bits_def u128_reverse_bits_def bit_drop_bit_eq o_def bit_horner_sum_bit_word_iff
  by (auto simp del: upt_Suc)

lemma bit_below_4096:
  assumes "bit (w :: 128 word) n" and "w < 4096"
  shows "n < 12"
proof -
  have "take_bit 12 (unat w) = unat w"
    using assms(2) by (simp add: take_bit_nat_eq_self_iff word_less_nat_alt)
  moreover have "bit (unat w) n" using assms(1) by (simp add: bit_unsigned_iff bit_imp_le_length)
  ultimately show ?thesis by (metis bit_take_bit_iff)
qed

lemma reverse_bits_bound: "reverse_bits w 12 < 4096"
proof -
  have "take_bit 12 (reverse_bits w 12) = reverse_bits w 12"
    by (rule bit_word_eqI) (auto simp: bit_take_bit_iff bit_reverse_bits)
  moreover have "take_bit 12 x < 4096" for x :: "128 word"
    by (simp add: take_bit_eq_mod word_mod_less_divisor)
  ultimately show ?thesis by metis
qed

lemma reverse_bits_involution: "w < 4096 \<Longrightarrow> reverse_bits (reverse_bits w 12) 12 = w"
  by (rule bit_word_eqI) (use bit_below_4096 in \<open>fastforce simp: bit_reverse_bits\<close>)

end
