(* ===== verification/Proposal.thy ===== *)
theory Proposal
  imports Precondition Blob_Points
begin

text \<open>
  Proposals as the host programs see them (\<open>src/crates/sync/src/proposal.rs\<close>,
  \<open>src/crates/sync/src/fault.rs\<close>, \<open>src/crates/sync/src/blobs.rs\<close> and \<open>blob_sidecar\<close> of
  \<open>src/crates/sync/src/provider/beacon.rs\<close>): how a proposal is read from its contract and its blobs,
  which of its parts are faulty, where a faulty field element is published, and the sidecar of blobs
  of a new proposal.

  Contracts and the data availability service are parameters: a \<open>tournament\<close> record holds what the
  calls of a contract return (calls are repeated until they succeed), a function returns the blob of
  a versioned hash. The KZG library of theory \<open>Blobs\<close> gets the two operations on single points.
  The programs here run on the host, whose arithmetic checks for overflow.
\<close>

section \<open>Data\<close>

datatype fault = Output nat | Trail nat

definition is_trail :: "fault \<Rightarrow> bool" where
  "is_trail f = (case f of Trail _ \<Rightarrow> True | Output _ \<Rightarrow> False)"

definition is_output :: "fault \<Rightarrow> bool" where
  "is_output f = (case f of Output _ \<Rightarrow> True | Trail _ \<Rightarrow> False)"

definition divergence_point :: "fault \<Rightarrow> nat" where
  "divergence_point f = (case f of Output i \<Rightarrow> i | Trail i \<Rightarrow> i)"

record blob_data =
  bd_index :: u64
  bd_blob :: blob
  bd_kzg_commitment :: bytes48
  bd_kzg_proof :: bytes48

record proposal =
  pp_contract :: Address
  pp_treasury :: Address
  pp_index :: u64
  pp_parent :: u64
  pp_proposer :: Address
  pp_created_at :: u64
  pp_io_blobs :: "(B256 \<times> blob_data) list"
  pp_io_field_elements :: "U256 list"
  pp_trail_field_elements :: "U256 list"
  pp_output_root :: B256
  pp_output_block_number :: u64
  pp_l1_head :: B256
  pp_signature :: B256
  pp_children :: "u64 set"
  pp_successor :: "u64 option"
  pp_correct_io :: "bool option list"
  pp_correct_trail :: "bool option list"
  pp_correct_claim :: "bool option"
  pp_correct_parent :: "bool option"
  pp_canonical :: "bool option"
  pp_resolved_at :: u64

datatype proposal_sync = SUCCESS Address B256 | DELAYED u64 | IGNORED Address B256

text \<open>What the calls of a tournament contract return.\<close>

record tournament =
  tc_parent_game :: Address
  tc_treasury :: Address
  tc_game_index :: u64
  tc_parent_game_index :: u64
  tc_proposer :: Address
  tc_created_at :: u64
  tc_root_claim :: B256
  tc_l2_block_number :: u64
  tc_l1_head :: B256
  tc_signature :: B256
  tc_resolved_at :: u64
  tc_proposal_blobs :: u64
  tc_proposal_output_count :: u64
  tc_proposal_blob_hashes :: "nat \<Rightarrow> B256"

section \<open>Loading\<close>

definition load_treasury :: "Address \<Rightarrow> tournament \<Rightarrow> proposal" where
  "load_treasury address t =
     \<lparr>pp_contract = address, pp_treasury = tc_treasury t, pp_index = tc_game_index t,
      pp_parent = tc_game_index t, pp_proposer = address, pp_created_at = tc_created_at t,
      pp_io_blobs = [], pp_io_field_elements = [], pp_trail_field_elements = [],
      pp_output_root = tc_root_claim t, pp_output_block_number = tc_l2_block_number t,
      pp_l1_head = tc_l1_head t, pp_signature = tc_signature t, pp_children = {}, pp_successor = None,
      pp_correct_io = [], pp_correct_trail = [], pp_correct_claim = Some True,
      pp_correct_parent = Some True, pp_canonical = None, pp_resolved_at = tc_resolved_at t\<rparr>"

text \<open>One blob of a game: its outputs as far as they are still expected, and its trail.\<close>

definition load_io_blob ::
  "(u64 \<Rightarrow> B256 \<Rightarrow> blob_data result) \<Rightarrow> tournament \<Rightarrow>
   (B256 \<times> blob_data) list \<times> U256 list \<times> U256 list \<Rightarrow> nat \<Rightarrow>
   ((B256 \<times> blob_data) list \<times> U256 list \<times> U256 list) result" where
  "load_io_blob get_blob t s u =
     (case s of (io_blobs, io_field_elements, trail_field_elements) \<Rightarrow>
      let blob_kzg_hash = tc_proposal_blob_hashes t (length io_blobs)
      in and_then (err_context (get_blob (tc_created_at t) blob_kzg_hash) ''get_blob'') (\<lambda>blob_data.
         and_then (sub_u64 host (tc_proposal_output_count t) (of_nat (length io_field_elements))) (\<lambda>r.
         and_then (sub_u64 host r 1) (\<lambda>io_remaining.
         let io_in_blob = as_usize host (min io_remaining (of_nat FIELD_ELEMENTS_PER_BLOB))
         in and_then (intermediate_outputs (bd_blob blob_data) io_in_blob) (\<lambda>outputs.
            and_then (trail_data (bd_blob blob_data) io_in_blob) (\<lambda>trail.
            Inr (io_blobs @ [(blob_kzg_hash, blob_data)], io_field_elements @ outputs,
                 trail_field_elements @ trail)))))))"

definition load_game ::
  "(u64 \<Rightarrow> B256 \<Rightarrow> blob_data result) \<Rightarrow> Address \<Rightarrow> tournament \<Rightarrow> proposal result" where
  "load_game get_blob address t =
     and_then (try_fold (load_io_blob get_blob t) ([], [], []) [0..<unat (tc_proposal_blobs t)])
       (\<lambda>(io_blobs, io_field_elements, trail_field_elements).
     and_then (sub_u64 host (tc_proposal_output_count t) 1) (\<lambda>io_count.
     Inr \<lparr>pp_contract = address, pp_treasury = tc_treasury t, pp_index = tc_game_index t,
          pp_parent = tc_parent_game_index t, pp_proposer = tc_proposer t,
          pp_created_at = tc_created_at t, pp_io_blobs = io_blobs,
          pp_io_field_elements = io_field_elements, pp_trail_field_elements = trail_field_elements,
          pp_output_root = tc_root_claim t, pp_output_block_number = tc_l2_block_number t,
          pp_l1_head = tc_l1_head t, pp_signature = tc_signature t, pp_children = {},
          pp_successor = None, pp_correct_io = replicate (as_usize host io_count) None,
          pp_correct_trail = replicate (length trail_field_elements) None, pp_correct_claim = None,
          pp_correct_parent = None, pp_canonical = None, pp_resolved_at = tc_resolved_at t\<rparr>))"

definition load_proposal ::
  "(u64 \<Rightarrow> B256 \<Rightarrow> blob_data result) \<Rightarrow> Address \<Rightarrow> tournament \<Rightarrow> proposal result" where
  "load_proposal get_blob address t =
     (if tc_parent_game t = address then Inr (load_treasury address t) else load_game get_blob address t)"

section \<open>Queries\<close>

definition as_delayed :: "proposal \<Rightarrow> proposal_sync" where
  "as_delayed p = DELAYED (pp_output_block_number p)"

definition as_ignored :: "proposal \<Rightarrow> proposal_sync" where
  "as_ignored p = IGNORED (pp_contract p) (pp_l1_head p)"

definition as_success :: "proposal \<Rightarrow> proposal_sync" where
  "as_success p = SUCCESS (pp_contract p) (pp_l1_head p)"

definition is_correct :: "proposal \<Rightarrow> bool option" where
  "is_correct p =
     (if pp_correct_parent p = Some False then Some False
      else if pp_correct_claim p = Some False then Some False
      else if Some False \<in> set (pp_correct_io p) then Some False
      else if Some False \<in> set (pp_correct_trail p) then Some False
      else if pp_correct_parent p = None \<or> pp_correct_claim p = None \<or>
        None \<in> set (pp_correct_io p) \<or> None \<in> set (pp_correct_trail p) then None
      else Some True)"

text \<open>The index of the first element known to be false.\<close>

fun first_false :: "bool option list \<Rightarrow> nat option" where
  "first_false [] = None"
| "first_false (c # cs) = (if c = Some False then Some 0 else map_option Suc (first_false cs))"

definition fault_of :: "proposal \<Rightarrow> fault option" where
  "fault_of p =
     (case first_false (pp_correct_trail p) of
        Some i \<Rightarrow> Some (Trail (length (pp_io_field_elements p) + i + 1))
      | None \<Rightarrow>
          (case first_false (pp_correct_io p) of
             Some i \<Rightarrow> Some (Output i)
           | None \<Rightarrow> if pp_correct_claim p = Some False
                then Some (Output (length (pp_io_field_elements p))) else None))"

definition has_parent :: "proposal \<Rightarrow> bool" where
  "has_parent p \<longleftrightarrow> pp_index p \<noteq> pp_parent p"

definition append_child :: "proposal \<Rightarrow> u64 \<Rightarrow> proposal \<times> bool" where
  "append_child p child_index =
     (p\<lparr>pp_children := insert child_index (pp_children p)\<rparr>, child_index \<notin> pp_children p)"

text \<open>Children are enumerated in ascending order.\<close>

fun index_in :: "'a list \<Rightarrow> 'a \<Rightarrow> nat option" where
  "index_in [] x = None"
| "index_in (y # ys) x = (if y = x then Some 0 else map_option Suc (index_in ys x))"

definition child_index :: "proposal \<Rightarrow> u64 \<Rightarrow> u64 option" where
  "child_index p i = map_option of_nat (index_in (sorted_list_of_set (pp_children p)) i)"

definition requires_vanguard_advantage :: "proposal \<Rightarrow> Address \<Rightarrow> Address \<Rightarrow> bool" where
  "requires_vanguard_advantage p proposer vanguard =
     (if vanguard = 0 \<or> vanguard = proposer then False else pp_children p = {})"

definition io_blob_for :: "proposal \<Rightarrow> u64 \<Rightarrow> (B256 \<times> blob_data) result" where
  "io_blob_for p position =
     index_vec (pp_io_blobs p) (as_usize host (position div of_nat FIELD_ELEMENTS_PER_BLOB))"

definition io_commitment_for :: "proposal \<Rightarrow> u64 \<Rightarrow> bytes48 result" where
  "io_commitment_for p position = and_then (io_blob_for p position) (\<lambda>b. Inr (bd_kzg_commitment (snd b)))"

definition io_proof_for :: "point_kzg \<Rightarrow> proposal \<Rightarrow> u64 \<Rightarrow> bytes48 result" where
  "io_proof_for K p position =
     and_then (io_blob_for p position) (\<lambda>io_blob.
     and_then (blob_fe_proof K (bd_blob (snd io_blob))
       (as_usize host (position mod of_nat FIELD_ELEMENTS_PER_BLOB))) (\<lambda>(proof_bytes, _).
     Inr proof_bytes))"

definition output_fe_at :: "proposal \<Rightarrow> u64 \<Rightarrow> U256 result" where
  "output_fe_at p position =
     (let io_count = of_nat (length (pp_io_field_elements p))
      in if position < io_count
         then expect (index_vec (pp_io_field_elements p) (as_usize host position)) ''unwrap''
         else if position = io_count then Inr (hash_to_fe (pp_output_root p))
         else expect (index_vec (pp_trail_field_elements p) (as_usize host (position - io_count - 1)))
                ''unwrap'')"

definition proposal_blobs_hash :: "(bytes \<Rightarrow> B256) \<Rightarrow> proposal \<Rightarrow> B256" where
  "proposal_blobs_hash sha p = blobs_hash sha (map fst (pp_io_blobs p))"

definition parse_finality :: "byte \<Rightarrow> bool option result" where
  "parse_finality game_status =
     (if game_status = 0 then Inr None
      else if game_status = 1 then Inr (Some False)
      else if game_status = 2 then Inr (Some True)
      else bail ''Invalid game status'')"

text \<open>The blobs of a new proposal: 4096 field elements each, the last one padded with zero bytes.\<close>

definition right_padding_from :: "bytes \<Rightarrow> blob result" where
  "right_padding_from bs =
     (if length bs \<le> 32 * FIELD_ELEMENTS_PER_BLOB
      then Inr (bs @ replicate (32 * FIELD_ELEMENTS_PER_BLOB - length bs) 0)
      else Inl (Panic ''slice length''))"

function sidecar_blobs :: "U256 list \<Rightarrow> blob list \<Rightarrow> blob list result" where
  "sidecar_blobs io_field_elements io_blobs =
     (let start = length io_blobs * FIELD_ELEMENTS_PER_BLOB
      in if length io_field_elements \<le> start then Inr io_blobs
         else let stop = min (start + FIELD_ELEMENTS_PER_BLOB) (length io_field_elements)
              in and_then (slice_vec io_field_elements start stop) (\<lambda>fes.
                 and_then (right_padding_from (concat (map to_be_bytes fes))) (\<lambda>b.
                 sidecar_blobs io_field_elements (io_blobs @ [b]))))"
  by pat_completeness auto
termination
  by (relation "measure (\<lambda>(fes, blobs). length fes - length blobs * FIELD_ELEMENTS_PER_BLOB)")
    (auto simp: FIELD_ELEMENTS_PER_BLOB_def)

declare sidecar_blobs.simps [simp del]

record blob_transaction_sidecar =
  bts_blobs :: "blob list"
  bts_commitments :: "bytes48 list"
  bts_proofs :: "bytes48 list"

definition blob_sidecar :: "kzg \<Rightarrow> blob list \<Rightarrow> blob_transaction_sidecar result" where
  "blob_sidecar K blob_data =
     and_then (try_map (\<lambda>b.
       and_then (expect (blob_to_kzg_commitment K b) ''Failed to convert blob to commitment'') (\<lambda>commitment.
       and_then (compute_blob_kzg_proof K b commitment) (\<lambda>proof. Inr (commitment, proof)))) blob_data)
       (\<lambda>commitments_proofs.
     Inr \<lparr>bts_blobs = blob_data, bts_commitments = map fst commitments_proofs,
          bts_proofs = map snd commitments_proofs\<rparr>)"

definition create_sidecar :: "kzg \<Rightarrow> U256 list \<Rightarrow> blob_transaction_sidecar result" where
  "create_sidecar K io_field_elements =
     and_then (sidecar_blobs io_field_elements []) (blob_sidecar K)"

text \<open>
  The survivor of the parent's tournament, from the answer of a simulated call of \<open>pruneChildren\<close>
  (zero when there is none yet), and whether it is this proposal.
\<close>

definition fetch_parent_tournament_survivor :: "proposal \<Rightarrow> Address result \<Rightarrow> Address option result" where
  "fetch_parent_tournament_survivor p prune_children =
     (if \<not> has_parent p then Inr (Some (pp_contract p))
      else and_then prune_children (\<lambda>survivor. Inr (if survivor = 0 then None else Some survivor)))"

definition fetch_parent_tournament_survivor_status :: "proposal \<Rightarrow> Address result \<Rightarrow> bool option result" where
  "fetch_parent_tournament_survivor_status p prune_children =
     and_then (err_context (fetch_parent_tournament_survivor p prune_children)
       ''Proposal::fetch_parent_tournament_survivor'') (\<lambda>survivor.
     Inr (map_option (\<lambda>survivor. survivor = pp_contract p) survivor))"

section \<open>Verdicts\<close>

lemma first_false_Some:
  "first_false cs = Some i \<longleftrightarrow> i < length cs \<and> cs ! i = Some False \<and> (\<forall>j < i. cs ! j \<noteq> Some False)"
proof (induction cs arbitrary: i)
  case (Cons c cs)
  show ?case
    by (cases i) (auto simp: Cons.IH All_less_Suc2)
qed simp

lemma first_false_None: "first_false cs = None \<longleftrightarrow> Some False \<notin> set cs"
  by (induction cs) auto

lemma is_correct_True:
  "is_correct p = Some True \<longleftrightarrow> pp_correct_parent p = Some True \<and> pp_correct_claim p = Some True \<and>
     set (pp_correct_io p) \<subseteq> {Some True} \<and> set (pp_correct_trail p) \<subseteq> {Some True}"
proof -
  have "set cs \<subseteq> {Some True} \<longleftrightarrow> Some False \<notin> set cs \<and> None \<notin> set cs" for cs :: "bool option list"
    by (auto intro: ccontr) (metis (full_types) not_None_eq)
  then show ?thesis by (auto simp: is_correct_def)
qed

lemma fault_of_None:
  "fault_of p = None \<longleftrightarrow> Some False \<notin> set (pp_correct_trail p) \<and> Some False \<notin> set (pp_correct_io p) \<and>
     pp_correct_claim p \<noteq> Some False"
  using first_false_None [of "pp_correct_trail p"] first_false_None [of "pp_correct_io p"]
  by (auto simp: fault_of_def split: option.splits)

lemma is_correct_False:
  "is_correct p = Some False \<longleftrightarrow> pp_correct_parent p = Some False \<or> fault_of p \<noteq> None"
  unfolding fault_of_None by (auto simp: is_correct_def)

section \<open>Field elements of the blobs\<close>

lemma blob_split:
  assumes "n \<le> FIELD_ELEMENTS_PER_BLOB"
  shows "and_then (intermediate_outputs b n) (\<lambda>io. and_then (trail_data b n) (\<lambda>tr. Inr (io @ tr))) =
    field_elements b [0..<FIELD_ELEMENTS_PER_BLOB]"
proof -
  have "[0..<FIELD_ELEMENTS_PER_BLOB] = [0..<n] @ [n..<FIELD_ELEMENTS_PER_BLOB]"
    using assms upt_add_eq_append [of 0 n "FIELD_ELEMENTS_PER_BLOB - n"] by simp
  then show ?thesis
    unfolding intermediate_outputs_def trail_data_def field_elements_def by (simp only: try_map_append)
qed

text \<open>
  Loading keeps every field element: outputs and trail together are the elements of the blobs in
  order, and the outputs are as many as expected, as far as the blobs go.
\<close>

definition blob_elements :: "blob list \<Rightarrow> U256 list result" where
  "blob_elements blobs =
     and_then (try_map (\<lambda>b. field_elements b [0..<FIELD_ELEMENTS_PER_BLOB]) blobs) (\<lambda>fes. Inr (concat fes))"

definition published_elements :: "(B256 \<times> blob_data) list \<Rightarrow> U256 list result" where
  "published_elements io_blobs = blob_elements (map (bd_blob \<circ> snd) io_blobs)"

lemma blob_elements_Nil [simp]: "blob_elements [] = Inr []"
  by (simp add: blob_elements_def)

lemma blob_elements_Cons:
  "blob_elements (b # bs) = and_then (field_elements b [0..<FIELD_ELEMENTS_PER_BLOB]) (\<lambda>us.
     and_then (blob_elements bs) (\<lambda>vs. Inr (us @ vs)))"
  by (auto simp: blob_elements_def and_then_def split: sum.splits)

lemma published_elements_snoc:
  "published_elements (bs @ [b]) = and_then (published_elements bs) (\<lambda>us.
     and_then (field_elements (bd_blob (snd b)) [0..<FIELD_ELEMENTS_PER_BLOB]) (\<lambda>vs. Inr (us @ vs)))"
  by (auto simp: published_elements_def blob_elements_def try_map_append and_then_def split: sum.splits)

lemma length_field_elements:
  "field_elements b is = Inr fes \<Longrightarrow> length fes = length is"
  by (simp add: field_elements_def try_map_eq_Inr)

lemma load_io_blob_step:
  assumes step: "load_io_blob get_blob t (bs, io, tr) u = Inr (bs', io', tr')"
    and pub: "published_elements bs = Inr (io @ tr)"
    and len: "length io = min (unat (tc_proposal_output_count t) - 1) (FIELD_ELEMENTS_PER_BLOB * length bs)"
    and nonempty: "tr \<noteq> [] \<Longrightarrow> length io = unat (tc_proposal_output_count t) - 1"
    and count: "tc_proposal_output_count t \<noteq> 0"
  shows "\<exists>h d. bs' = bs @ [(h, d)] \<and> h = tc_proposal_blob_hashes t (length bs) \<and>
      get_blob (tc_created_at t) h = Inr d" "published_elements bs' = Inr (io' @ tr')"
    "length io' = min (unat (tc_proposal_output_count t) - 1) (FIELD_ELEMENTS_PER_BLOB * length bs')"
    "tr' \<noteq> [] \<Longrightarrow> length io' = unat (tc_proposal_output_count t) - 1"
proof -
  let ?N = "unat (tc_proposal_output_count t) - 1"
  let ?h = "tc_proposal_blob_hashes t (length bs)"
  have "length io \<le> ?N" using len by simp
  moreover have "unat (of_nat (length io) :: u64) = length io"
  proof -
    have "length io < 18446744073709551616"
      using calculation unat_u64_bound [of "tc_proposal_output_count t"] by linarith
    then show ?thesis by (simp add: unat_of_nat)
  qed
  ultimately have N: "unat (of_nat (length io) :: u64) = length io" "length io \<le> ?N" by simp_all
  from step obtain d r rem outs trail where d: "get_blob (tc_created_at t) ?h = Inr d"
    and r: "sub_u64 host (tc_proposal_output_count t) (of_nat (length io)) = Inr r"
    and rem: "sub_u64 host r 1 = Inr rem"
    and outs: "intermediate_outputs (bd_blob d) (as_usize host (min rem (of_nat FIELD_ELEMENTS_PER_BLOB))) = Inr outs"
    and trail: "trail_data (bd_blob d) (as_usize host (min rem (of_nat FIELD_ELEMENTS_PER_BLOB))) = Inr trail"
    and eqs: "bs' = bs @ [(?h, d)]" "io' = io @ outs" "tr' = tr @ trail"
    by (auto simp: load_io_blob_def Let_def res_simps)
  let ?n = "as_usize host (min rem (of_nat FIELD_ELEMENTS_PER_BLOB))"
  have "unat rem = ?N - length io"
    using r rem N count by (auto simp: sub_u64_def unat_sub_if' split: if_splits)
  then have n: "?n = min (?N - length io) FIELD_ELEMENTS_PER_BLOB"
    by (auto simp: as_usize_def FIELD_ELEMENTS_PER_BLOB_def min_def word_le_nat_alt)
  have fes: "field_elements (bd_blob d) [0..<FIELD_ELEMENTS_PER_BLOB] = Inr (outs @ trail)"
    using blob_split [of ?n "bd_blob d"] outs trail n by simp
  have outs_len: "length outs = ?n" "length trail = FIELD_ELEMENTS_PER_BLOB - ?n"
    using outs trail by (auto simp: intermediate_outputs_def trail_data_def dest!: length_field_elements)
  show "\<exists>h d. bs' = bs @ [(h, d)] \<and> h = ?h \<and> get_blob (tc_created_at t) h = Inr d"
    using d eqs by blast
  show "length io' = min ?N (FIELD_ELEMENTS_PER_BLOB * length bs')"
    using len n N(2) by (auto simp: eqs outs_len min_def)
  show "length io' = ?N" if "tr' \<noteq> []"
    using that nonempty n N(2) outs_len by (auto simp: eqs min_def split: if_splits)
  show "published_elements bs' = Inr (io' @ tr')"
  proof (cases "tr = []")
    case True
    then show ?thesis using pub fes by (simp add: eqs published_elements_snoc)
  next
    case False
    then have "outs = []" using nonempty n outs_len by simp
    then show ?thesis using pub fes by (simp add: eqs published_elements_snoc)
  qed
qed

definition fetched :: "(u64 \<Rightarrow> B256 \<Rightarrow> blob_data result) \<Rightarrow> tournament \<Rightarrow> nat \<Rightarrow> B256 \<times> blob_data \<Rightarrow> bool" where
  "fetched get_blob t i b \<longleftrightarrow>
     fst b = tc_proposal_blob_hashes t i \<and> get_blob (tc_created_at t) (fst b) = Inr (snd b)"

lemma load_io_blobs:
  assumes "try_fold (load_io_blob get_blob t) ([], [], []) [0..<n] = Inr (bs, io, tr)"
    and "tc_proposal_output_count t \<noteq> 0"
  shows "length bs = n \<and> published_elements bs = Inr (io @ tr) \<and>
    length io = min (unat (tc_proposal_output_count t) - 1) (FIELD_ELEMENTS_PER_BLOB * n) \<and>
    (tr \<noteq> [] \<longrightarrow> length io = unat (tc_proposal_output_count t) - 1) \<and>
    (\<forall>i < n. fetched get_blob t i (bs ! i))"
  using assms(1)
proof (induction n arbitrary: bs io tr)
  case 0
  then show ?case by (simp add: published_elements_def)
next
  case (Suc n)
  from Suc.prems obtain bs0 io0 tr0 where
      prev: "try_fold (load_io_blob get_blob t) ([], [], []) [0..<n] = Inr (bs0, io0, tr0)"
      and step: "load_io_blob get_blob t (bs0, io0, tr0) n = Inr (bs, io, tr)"
    by (auto simp: try_fold_append res_simps)
  note IH = Suc.IH [OF prev]
  note st = load_io_blob_step [OF step _ _ _ assms(2)]
  from st(1) IH obtain h d where bs: "bs = bs0 @ [(h, d)]" "fetched get_blob t n (h, d)"
    by (auto simp: fetched_def)
  then have "fetched get_blob t i (bs ! i)" if "i < Suc n" for i
    using that IH by (auto simp: nth_append less_Suc_eq)
  then show ?case using st(2-) IH bs(1) by auto
qed

lemma load_game_parts:
  assumes "load_game get_blob address t = Inr p"
  shows "try_fold (load_io_blob get_blob t) ([], [], []) [0..<unat (tc_proposal_blobs t)] =
      Inr (pp_io_blobs p, pp_io_field_elements p, pp_trail_field_elements p)"
    "tc_proposal_output_count t \<noteq> 0"
    "length (pp_correct_io p) = unat (tc_proposal_output_count t) - 1"
    "length (pp_correct_trail p) = length (pp_trail_field_elements p)"
  using assms by (auto simp: load_game_def res_simps sub_u64_def as_usize_def unat_sub_if' unat_eq_0
      Suc_le_eq unat_gt_0 split: if_splits)

text \<open>The element at a position of the published elements is the one at that place of its blob.\<close>

lemma published_element_at:
  assumes "published_elements bs = Inr fes" and "i < length fes"
  shows "i div FIELD_ELEMENTS_PER_BLOB < length bs \<and>
    field_element_at (bd_blob (snd (bs ! (i div FIELD_ELEMENTS_PER_BLOB)))) (i mod FIELD_ELEMENTS_PER_BLOB) =
      Inr (fes ! i)"
  using assms
proof (induction bs arbitrary: fes i)
  case Nil
  then show ?case by (simp add: published_elements_def)
next
  case (Cons b bs)
  from Cons.prems(1) obtain es rest where es: "field_elements (bd_blob (snd b)) [0..<FIELD_ELEMENTS_PER_BLOB] = Inr es"
    and rest: "published_elements bs = Inr rest" and fes: "fes = es @ rest"
    by (auto simp: published_elements_def blob_elements_Cons res_simps)
  have len: "length es = FIELD_ELEMENTS_PER_BLOB" using length_field_elements [OF es] by simp
  have pos: "0 < FIELD_ELEMENTS_PER_BLOB" by (simp add: FIELD_ELEMENTS_PER_BLOB_def)
  show ?case
  proof (cases "i < FIELD_ELEMENTS_PER_BLOB")
    case True
    then show ?thesis using es len by (simp add: fes nth_append field_elements_def try_map_eq_Inr)
  next
    case False
    then have "i - FIELD_ELEMENTS_PER_BLOB < length rest" using Cons.prems(2) fes len by simp
    from Cons.IH [OF rest this] False len pos show ?thesis
      by (simp add: fes nth_append le_div_geq le_mod_geq)
  qed
qed

section \<open>Blobs of a new proposal\<close>

lemma padded_elements:
  assumes "length fes \<le> FIELD_ELEMENTS_PER_BLOB" and "\<forall>fe \<in> set fes. fe < BLS_MODULUS"
    and "right_padding_from (concat (map to_be_bytes fes)) = Inr b"
  shows "field_elements b [0..<FIELD_ELEMENTS_PER_BLOB] = Inr (fes @ replicate (FIELD_ELEMENTS_PER_BLOB - length fes) 0)"
proof -
  let ?F = FIELD_ELEMENTS_PER_BLOB
  have len: "length (concat (map to_be_bytes fes)) = 32 * length fes"
    by (simp add: length_concat comp_def sum_list_triv)
  have b: "b = concat (map to_be_bytes fes) @ replicate (32 * ?F - 32 * length fes) 0"
    using assms(3) by (auto simp: right_padding_from_def len split: if_splits)
  have "field_element_at b i = Inr ((fes @ replicate (?F - length fes) 0) ! i)" if "i < ?F" for i
  proof (cases "i < length fes")
    case True
    then have "take 32 (drop (32 * i) b) = to_be_bytes (fes ! i)"
      unfolding b by (intro concat_chunk_nth) simp_all
    then show ?thesis using True that assms(1,2)
      by (simp add: field_element_at_eq_Inr nth_append) (simp add: b len)
  next
    case False
    have "from_be_bytes (replicate 32 0) = (0 :: U256)"
      by (simp add: from_be_bytes_def be_nat_def numeral_eq_Suc)
    moreover have "take 32 (drop (32 * i) b) = replicate 32 0"
      using False that assms(1) by (simp add: b len)
    ultimately show ?thesis using False that assms(1)
      by (simp add: field_element_at_eq_Inr nth_append BLS_MODULUS_def) (simp add: b len)
  qed
  then show ?thesis using assms(1) by (simp add: field_elements_def try_map_eq_Inr)
qed

lemma sidecar_blobs_elements:
  assumes "sidecar_blobs fes bs = Inr bs'" and "\<forall>fe \<in> set fes. fe < BLS_MODULUS"
  shows "\<exists>cs n. bs' = bs @ cs \<and> length fes \<le> length bs' * FIELD_ELEMENTS_PER_BLOB \<and>
    blob_elements cs = Inr (drop (length bs * FIELD_ELEMENTS_PER_BLOB) fes @ replicate n 0)"
  using assms
proof (induction fes bs rule: sidecar_blobs.induct)
  case (1 fes bs)
  let ?F = FIELD_ELEMENTS_PER_BLOB and ?start = "length bs * FIELD_ELEMENTS_PER_BLOB"
  show ?case
  proof (cases "length fes \<le> ?start")
    case True
    then have "bs' = bs" using "1.prems"(1) by (subst (asm) sidecar_blobs.simps) simp
    with True show ?thesis by (auto intro!: exI [of _ 0])
  next
    case False
    let ?c = "take ?F (drop ?start fes)"
    have c: "slice_vec fes ?start (min (?start + ?F) (length fes)) = Inr ?c"
      using False by (auto simp: slice_vec_def min_def)
    from "1.prems"(1) False c obtain b where b: "right_padding_from (concat (map to_be_bytes ?c)) = Inr b"
      and rest: "sidecar_blobs fes (bs @ [b]) = Inr bs'"
      by (subst (asm) sidecar_blobs.simps) (auto simp: Let_def res_simps)
    from "1.IH" [OF refl False refl c b rest "1.prems"(2)] obtain cs n where
        cs: "bs' = bs @ b # cs" "length fes \<le> length bs' * ?F"
        "blob_elements cs = Inr (drop (?start + ?F) fes @ replicate n 0)" by (auto simp: add.commute)
    have "field_elements b [0..<?F] = Inr (?c @ replicate (?F - length ?c) 0)"
      by (rule padded_elements [OF _ _ b]) (use "1.prems"(2) in \<open>auto dest: in_set_takeD in_set_dropD\<close>)
    then have el: "blob_elements (b # cs) = Inr (?c @ replicate (?F - length ?c) 0 @ drop (?start + ?F) fes @ replicate n 0)"
      using cs(3) by (simp add: blob_elements_Cons)
    show ?thesis
    proof (cases "length fes \<le> ?start + ?F")
      case True
      then have "blob_elements (b # cs) = Inr (drop ?start fes @ replicate (?F - length ?c + n) 0)"
        using el by (simp flip: replicate_add)
      then show ?thesis using cs(1,2) by blast
    next
      case False
      then have "?F - length ?c = 0" "?c @ drop (?start + ?F) fes = drop ?start fes"
        by (simp_all add: add.commute flip: drop_drop)
      then have "blob_elements (b # cs) = Inr (drop ?start fes @ replicate n 0)"
        using el by (metis append_assoc append_Nil replicate_0)
      then show ?thesis using cs(1,2) by blast
    qed
  qed
qed

lemma load_io_blob_total:
  assumes d: "get_blob (tc_created_at t) (tc_proposal_blob_hashes t (length bs)) = Inr d"
    and fes: "field_elements (bd_blob d) [0..<FIELD_ELEMENTS_PER_BLOB] = Inr es"
    and len: "length io < unat (tc_proposal_output_count t)"
  shows "\<exists>io' tr'. load_io_blob get_blob t (bs, io, tr) u =
    Inr (bs @ [(tc_proposal_blob_hashes t (length bs), d)], io', tr')"
proof -
  let ?r = "tc_proposal_output_count t - of_nat (length io)"
  have io: "unat (of_nat (length io) :: u64) = length io"
  proof -
    have "length io < 18446744073709551616"
      using len unat_u64_bound [of "tc_proposal_output_count t"] by linarith
    then show ?thesis by (simp add: unat_of_nat)
  qed
  have r: "sub_u64 host (tc_proposal_output_count t) (of_nat (length io)) = Inr ?r"
    using len by (simp add: sub_u64_def io)
  have "unat ?r = unat (tc_proposal_output_count t) - length io"
    using len by (simp add: unat_sub_if' io)
  then have rem: "sub_u64 host ?r 1 = Inr (?r - 1)" using len by (simp add: sub_u64_def)
  have n: "as_usize host (min (?r - 1) (of_nat FIELD_ELEMENTS_PER_BLOB)) \<le> FIELD_ELEMENTS_PER_BLOB"
    by (auto simp: as_usize_def FIELD_ELEMENTS_PER_BLOB_def min_def word_le_nat_alt)
  show ?thesis using blob_split [OF n, of "bd_blob d"] d r rem fes
    by (auto simp: load_io_blob_def Let_def res_simps)
qed

lemma load_io_blobs_total:
  assumes blobs: "\<And>i. i < n \<Longrightarrow> \<exists>d. get_blob (tc_created_at t) (tc_proposal_blob_hashes t i) = Inr d \<and> bd_blob d = blobs ! i"
    and "n = length blobs" and "blob_elements blobs = Inr fes" and "tc_proposal_output_count t \<noteq> 0"
  shows "\<exists>bs io tr. try_fold (load_io_blob get_blob t) ([], [], []) [0..<n] = Inr (bs, io, tr) \<and>
    map (bd_blob \<circ> snd) bs = blobs"
proof -
  from assms(3) have els: "\<exists>es. field_elements b [0..<FIELD_ELEMENTS_PER_BLOB] = Inr es" if "b \<in> set blobs" for b
    using that by (induction blobs arbitrary: fes) (auto simp: blob_elements_Cons res_simps)
  have "\<exists>bs io tr. try_fold (load_io_blob get_blob t) ([], [], []) [0..<k] = Inr (bs, io, tr) \<and>
      map (bd_blob \<circ> snd) bs = take k blobs" if "k \<le> n" for k
    using that
  proof (induction k)
    case 0
    then show ?case by simp
  next
    case (Suc k)
    then obtain bs io tr where prev: "try_fold (load_io_blob get_blob t) ([], [], []) [0..<k] = Inr (bs, io, tr)"
        "map (bd_blob \<circ> snd) bs = take k blobs" using Suc_leD by blast
    note loaded = load_io_blobs [OF prev(1) assms(4)]
    obtain d where d: "get_blob (tc_created_at t) (tc_proposal_blob_hashes t (length bs)) = Inr d" "bd_blob d = blobs ! k"
      using blobs [of k] Suc.prems loaded by auto
    obtain es where es: "field_elements (bd_blob d) [0..<FIELD_ELEMENTS_PER_BLOB] = Inr es"
      using els [of "blobs ! k"] Suc.prems assms(2) d(2) by auto
    have "length io < unat (tc_proposal_output_count t)"
      using loaded assms(4) by (auto simp: unat_gt_0 min_def)
    from load_io_blob_total [where get_blob = get_blob and t = t and bs = bs, OF d(1) es this] obtain io' tr' where
      "load_io_blob get_blob t (bs, io, tr) k = Inr (bs @ [(tc_proposal_blob_hashes t (length bs), d)], io', tr')" by blast
    then show ?case using prev d(2) Suc.prems assms(2)
      by (auto simp: try_fold_append take_Suc_conv_app_nth comp_def)
  qed
  from this [of n] assms(2) show ?thesis by simp
qed

lemma sidecar_game:
  assumes sidecar: "create_sidecar K fes = Inr sc" and canonical: "\<forall>fe \<in> set fes. fe < BLS_MODULUS"
    and count: "unat (tc_proposal_output_count t) = length fes + 1"
    and n: "unat (tc_proposal_blobs t) = length (bts_blobs sc)"
    and blobs: "\<forall>i < length (bts_blobs sc). \<exists>d. get_blob (tc_created_at t) (tc_proposal_blob_hashes t i) = Inr d \<and>
      bd_blob d = bts_blobs sc ! i"
  shows "\<exists>p. load_game get_blob address t = Inr p \<and> pp_io_field_elements p = fes \<and>
    set (pp_trail_field_elements p) \<subseteq> {0} \<and> length (pp_correct_io p) = length fes"
proof -
  from sidecar have "sidecar_blobs fes [] = Inr (bts_blobs sc)"
    by (auto simp: create_sidecar_def blob_sidecar_def res_simps)
  from sidecar_blobs_elements [OF this canonical] obtain k where
      k: "length fes \<le> length (bts_blobs sc) * FIELD_ELEMENTS_PER_BLOB"
      "blob_elements (bts_blobs sc) = Inr (fes @ replicate k 0)" by auto
  have count0: "tc_proposal_output_count t \<noteq> 0" using count by auto
  from load_io_blobs_total [OF _ refl k(2) count0, of get_blob] blobs obtain bs io tr where
      load: "try_fold (load_io_blob get_blob t) ([], [], []) [0..<unat (tc_proposal_blobs t)] = Inr (bs, io, tr)"
      "map (bd_blob \<circ> snd) bs = bts_blobs sc" unfolding n by blast
  note loaded = load_io_blobs [OF load(1) count0]
  have "io @ tr = fes @ replicate k 0"
    using loaded load(2) k(2) by (simp add: published_elements_def)
  moreover have "length io = length fes" using loaded count k(1) n by (simp add: mult.commute)
  ultimately have eqs: "io = fes" "tr = replicate k 0" by auto
  have "sub_u64 host (tc_proposal_output_count t) 1 = Inr (tc_proposal_output_count t - 1)"
    using count by (simp add: sub_u64_def)
  then obtain p where p: "load_game get_blob address t = Inr p" "pp_io_field_elements p = io" "pp_trail_field_elements p = tr"
    using load(1) by (simp add: load_game_def)
  with eqs count load_game_parts(3) [OF p(1)] show ?thesis by auto
qed

section \<open>Properties\<close>

text \<open>
  A proposer's blobs read back: when every field element is canonical and the contract expects
  one output more than there are elements and as many blobs as the sidecar has, a game loaded from
  these blobs has exactly these intermediate outputs, and a trail of zeros.
\<close>

theorem sidecar_loads_back:
  assumes sidecar: "create_sidecar K fes = Inr sc" and canonical: "\<forall>fe \<in> set fes. fe < BLS_MODULUS"
    and count: "unat (tc_proposal_output_count t) = length fes + 1"
    and n: "unat (tc_proposal_blobs t) = length (bts_blobs sc)"
    and blobs: "\<forall>i < length (bts_blobs sc). \<exists>d. get_blob (tc_created_at t) (tc_proposal_blob_hashes t i) = Inr d \<and>
      bd_blob d = bts_blobs sc ! i"
  shows "\<exists>p. load_game get_blob address t = Inr p \<and> pp_io_field_elements p = fes \<and>
    set (pp_trail_field_elements p) \<subseteq> {0} \<and> length (pp_correct_io p) = length fes"
  using assms by (rule sidecar_game)

definition sample_tournament :: tournament where
  "sample_tournament = \<lparr>tc_parent_game = 1, tc_treasury = 1, tc_game_index = 1, tc_parent_game_index = 0,
     tc_proposer = 2, tc_created_at = 10, tc_root_claim = 9, tc_l2_block_number = 8, tc_l1_head = 7,
     tc_signature = 6, tc_resolved_at = 0, tc_proposal_blobs = 1, tc_proposal_output_count = 3,
     tc_proposal_blob_hashes = (\<lambda>i. of_nat i)\<rparr>"

definition sample_blob_data :: "blob \<Rightarrow> blob_data" where
  "sample_blob_data b = \<lparr>bd_index = 0, bd_blob = b, bd_kzg_commitment = 0, bd_kzg_proof = 0\<rparr>"

lemma one_blob_sidecar:
  assumes "fes \<noteq> []" and "length fes \<le> FIELD_ELEMENTS_PER_BLOB" and "\<forall>fe \<in> set fes. fe < BLS_MODULUS"
  shows "\<exists>b sc. create_sidecar toy_kzg fes = Inr sc \<and> bts_blobs sc = [b] \<and>
     field_elements b [0..<FIELD_ELEMENTS_PER_BLOB] = Inr (fes @ replicate (FIELD_ELEMENTS_PER_BLOB - length fes) 0)"
proof -
  let ?bytes = "concat (map to_be_bytes fes)"
  have "length ?bytes = 32 * length fes" by (simp add: length_concat comp_def sum_list_triv)
  then obtain b where b: "right_padding_from ?bytes = Inr b" using assms(2) by (simp add: right_padding_from_def)
  have "sidecar_blobs fes [b] = Inr [b]"
    by (subst sidecar_blobs.simps) (use assms(2) in simp)
  then have "sidecar_blobs fes [] = Inr [b]"
    using b assms(1,2) by (subst sidecar_blobs.simps) (simp add: slice_vec_def Suc_le_eq)
  then have "create_sidecar toy_kzg fes = Inr \<lparr>bts_blobs = [b], bts_commitments = [of_nat (length b)], bts_proofs = [7]\<rparr>"
    by (simp add: create_sidecar_def blob_sidecar_def toy_kzg_def)
  moreover have "field_elements b [0..<FIELD_ELEMENTS_PER_BLOB] = Inr (fes @ replicate (FIELD_ELEMENTS_PER_BLOB - length fes) 0)"
    using padded_elements [OF _ _ b] assms by simp
  ultimately show ?thesis by auto
qed

lemma sample_sidecar:
  "\<exists>b sc. create_sidecar toy_kzg [4, 5] = Inr sc \<and> bts_blobs sc = [b] \<and>
     field_elements b [0..<FIELD_ELEMENTS_PER_BLOB] = Inr ([4, 5] @ replicate (FIELD_ELEMENTS_PER_BLOB - 2) 0)"
proof -
  have "length [4, 5] = (2 :: nat)" "2 \<le> FIELD_ELEMENTS_PER_BLOB" "\<forall>fe \<in> set [4, 5]. fe < BLS_MODULUS"
    by (simp_all add: FIELD_ELEMENTS_PER_BLOB_def BLS_MODULUS_def)
  then show ?thesis using one_blob_sidecar [of "[4, 5]"] by (metis list.distinct(1))
qed

theorem sidecar_loads_back_witness:
  "\<exists>b p. load_game (\<lambda>_ _. Inr (sample_blob_data b)) 5 sample_tournament = Inr p \<and>
     pp_io_field_elements p = [4, 5] \<and> set (pp_trail_field_elements p) \<subseteq> {0}"
proof -
  obtain b sc where sc: "create_sidecar toy_kzg [4, 5] = Inr sc" "bts_blobs sc = [b]"
    using sample_sidecar by blast
  from sidecar_loads_back [OF sc(1), of sample_tournament "\<lambda>_ _. Inr (sample_blob_data b)" 5]
  show ?thesis by (auto simp: sc(2) sample_tournament_def sample_blob_data_def BLS_MODULUS_def)
qed

text \<open>
  C31. The place of every field element: in a loaded game, the blob and the index that the program
  opens for a position hold the intermediate output of that position, or, past the intermediate
  outputs, the trail element that \<open>output_fe_at\<close> returns for the next position (the root claim is
  counted as an output, and is not published in a blob). So the opening submitted for a faulty
  output or trail element, at one position less for a trail fault, is that of the element the fault
  names.
\<close>

theorem published_element_opened:
  assumes load: "load_game get_blob address t = Inr p"
    and pos: "unat position < length (pp_io_field_elements p) + length (pp_trail_field_elements p)"
    and small: "unat position + 1 < 2 ^ 64"
  shows "\<exists>b. io_blob_for p position = Inr b \<and> fetched get_blob t (unat position div FIELD_ELEMENTS_PER_BLOB) b \<and>
    field_element_at (bd_blob (snd b)) (unat (position mod of_nat FIELD_ELEMENTS_PER_BLOB)) =
      output_fe_at p (if unat position < length (pp_io_field_elements p) then position else position + 1)"
proof -
  let ?io = "pp_io_field_elements p" and ?tr = "pp_trail_field_elements p" and ?F = FIELD_ELEMENTS_PER_BLOB
  note parts = load_game_parts [OF load]
  note loaded = load_io_blobs [OF parts(1,2)]
  let ?i = "unat position"
  have F: "unat (of_nat ?F :: u64) = ?F" by (simp add: FIELD_ELEMENTS_PER_BLOB_def)
  have dm: "unat (position div of_nat ?F) = ?i div ?F" "unat (position mod of_nat ?F) = ?i mod ?F"
    by (simp_all add: unat_div_distrib unat_mod_distrib F)
  have "as_usize host (position div of_nat ?F) = ?i div ?F"
    using unat_u64_bound [of "position div of_nat ?F"] by (simp add: as_usize_def dm)
  moreover have at: "?i div ?F < length (pp_io_blobs p)"
      "field_element_at (bd_blob (snd (pp_io_blobs p ! (?i div ?F)))) (?i mod ?F) = Inr ((?io @ ?tr) ! ?i)"
    using published_element_at [of "pp_io_blobs p" "?io @ ?tr" ?i] loaded pos by auto
  ultimately have b: "io_blob_for p position = Inr (pp_io_blobs p ! (?i div ?F))"
    by (simp add: io_blob_for_def index_vec_def)
  have "length ?io < 18446744073709551616"
    using loaded unat_u64_bound [of "tc_proposal_output_count t"] by linarith
  then have io: "unat (of_nat (length ?io) :: u64) = length ?io" by (simp add: unat_of_nat)
  have "output_fe_at p (if ?i < length ?io then position else position + 1) = Inr ((?io @ ?tr) ! ?i)"
  proof (cases "?i < length ?io")
    case True
    then show ?thesis
      by (simp add: output_fe_at_def word_less_nat_alt io as_usize_def index_vec_def nth_append)
  next
    case False
    have suc: "unat (position + 1) = ?i + 1" using small by (simp add: unat_word_ariths)
    have "unat (position + 1 - of_nat (length ?io) - 1) = ?i - length ?io"
      using False suc by (simp add: unat_sub_if' io word_le_nat_alt)
    then have "as_usize host (position + 1 - of_nat (length ?io) - 1) = ?i - length ?io"
      using unat_u64_bound [of "position + 1 - of_nat (length ?io) - 1"]
      by (simp only: as_usize_def build_simps) simp
    moreover have "\<not> position + 1 < of_nat (length ?io)" "position + 1 \<noteq> of_nat (length ?io)"
      using False suc io by (auto simp: word_less_nat_alt)
    ultimately show ?thesis using False pos
      by (simp add: output_fe_at_def index_vec_def nth_append)
  qed
  with b at dm loaded show ?thesis by auto
qed

theorem published_element_opened_witness:
  "\<exists>b p q. load_game (\<lambda>_ _. Inr (sample_blob_data b)) 5 sample_tournament = Inr p \<and>
     io_blob_for p 2 = Inr q \<and> field_element_at (bd_blob (snd q)) 2 = output_fe_at p 3"
proof -
  obtain b sc where sc: "create_sidecar toy_kzg [4, 5] = Inr sc" "bts_blobs sc = [b]"
      "field_elements b [0..<FIELD_ELEMENTS_PER_BLOB] = Inr ([4, 5] @ replicate (FIELD_ELEMENTS_PER_BLOB - 2) 0)"
    using sample_sidecar by blast
  from sidecar_game [OF sc(1), of sample_tournament "\<lambda>_ _. Inr (sample_blob_data b)" 5]
  obtain p where p: "load_game (\<lambda>_ _. Inr (sample_blob_data b)) 5 sample_tournament = Inr p" "pp_io_field_elements p = [4, 5]"
    by (auto simp: sc(2) sample_tournament_def sample_blob_data_def BLS_MODULUS_def)
  have "published_elements (pp_io_blobs p) = Inr ([4, 5] @ pp_trail_field_elements p)" "length (pp_io_blobs p) = 1"
      "fetched (\<lambda>_ _. Inr (sample_blob_data b)) sample_tournament 0 (pp_io_blobs p ! 0)"
    using load_io_blobs [OF load_game_parts(1,2) [OF p(1)]] p(2) by (auto simp: sample_tournament_def)
  then have "pp_trail_field_elements p = replicate (FIELD_ELEMENTS_PER_BLOB - 2) 0"
    using sc(3) by (auto simp: length_Suc_conv published_elements_def blob_elements_Cons fetched_def sample_blob_data_def)
  then show ?thesis
    using published_element_opened [OF p(1), of 2] p by (auto simp: FIELD_ELEMENTS_PER_BLOB_def)
qed

end
