(* ===== verification/Sync.thy ===== *)
theory Sync
  imports Proposal
begin

text \<open>
  The synchronization agent (\<open>src/crates/sync/src/agent.rs\<close>, with the cursor of
  \<open>src/crates/sync/src/cursor.rs\<close> and the deployment of \<open>src/crates/sync/src/deployment.rs\<close>): it
  follows the proposals of a deployment, compares their outputs with those of an op-node, keeps the
  canonical chain of proposals, and frees what resolution made obsolete.

  The outside world during one call of \<open>sync\<close> is a \<open>chain_view\<close>: what the factory, the contracts,
  the data availability service and the nodes answer. The agent's maps are partial functions; an
  operation that may fail after it has changed the agent returns the agent and a result, since the
  programs go on after an error. Telemetry is left out.
\<close>

section \<open>State\<close>

record sync_deployment =
  dp_treasury :: Address
  dp_game :: Address
  dp_verifier :: Address
  dp_image_id :: B256
  dp_cfg_hash :: B256
  dp_proposal_output_count :: u64
  dp_output_block_span :: u64
  dp_proposal_blobs :: u64
  dp_game_type :: byte
  dp_factory :: Address
  dp_timeout :: u64
  dp_genesis_time :: u64
  dp_block_time :: u64

record sync_cursor =
  cu_canonical_proposal_tip :: u64
  cu_next_factory_index :: u64
  cu_delayed_factory_indices :: "u64 list"
  cu_last_output_index :: u64
  cu_last_resolved_game :: u64

record sync_agent =
  sa_deployment :: sync_deployment
  sa_db :: "u64 \<rightharpoonup> B256"
  sa_cursor :: sync_cursor
  sa_outputs :: "u64 \<rightharpoonup> B256"
  sa_proposals :: "u64 \<rightharpoonup> proposal"
  sa_eliminations :: "Address \<rightharpoonup> u64"
  sa_l1_heads :: "u64 \<rightharpoonup> Address \<times> B256"
  sa_l1_heads_inv :: "B256 \<rightharpoonup> Address \<times> u64"

record chain_view =
  cv_safe_l2 :: "u64 option"
  cv_output_at_block :: "u64 \<Rightarrow> B256"
  cv_game_count :: u64
  cv_game_at_index :: "u64 \<Rightarrow> u32 \<times> Address"
  cv_tournament :: "Address \<Rightarrow> tournament"
  cv_get_blob :: "u64 \<Rightarrow> B256 \<Rightarrow> blob_data result"
  cv_elimination_round :: "Address \<Rightarrow> u64"
  cv_l1_block_number :: "B256 \<Rightarrow> u64"
  cv_resolved_at :: "Address \<Rightarrow> u64"

definition KAILUA_GAME_TYPE :: u32 where
  "KAILUA_GAME_TYPE = 1337"

definition blocks_per_proposal :: "sync_deployment \<Rightarrow> u64 result" where
  "blocks_per_proposal d = mul_u64 host (dp_proposal_output_count d) (dp_output_block_span d)"

definition min_proposal_time :: "sync_deployment \<Rightarrow> u64 \<Rightarrow> u64 result" where
  "min_proposal_time d proposal_block_number =
     and_then (mul_u64 host proposal_block_number (dp_block_time d)) (\<lambda>elapsed.
     and_then (add_u64 host (dp_genesis_time d) elapsed) (\<lambda>time. add_u64 host time 1))"

section \<open>The cursor\<close>

definition has_next :: "sync_cursor \<Rightarrow> u64 \<Rightarrow> bool" where
  "has_next c game_count \<longleftrightarrow> cu_delayed_factory_indices c \<noteq> [] \<or> cu_next_factory_index c < game_count"

definition next_index :: "sync_cursor \<Rightarrow> sync_cursor \<times> u64" where
  "next_index c =
     (case cu_delayed_factory_indices c of
        [] \<Rightarrow> (c, cu_next_factory_index c)
      | i # is \<Rightarrow> (c\<lparr>cu_delayed_factory_indices := is\<rparr>, i))"

definition load_delayed_indices :: "sync_cursor \<Rightarrow> u64 list \<Rightarrow> sync_cursor" where
  "load_delayed_indices c new_indices =
     c\<lparr>cu_delayed_factory_indices := new_indices @ cu_delayed_factory_indices c\<rparr>"

definition cursor_load ::
  "sync_deployment \<Rightarrow> (Address \<Rightarrow> tournament) \<Rightarrow> (Address \<Rightarrow> byte) \<Rightarrow> Address \<Rightarrow> Address option \<Rightarrow> sync_cursor result" where
  "cursor_load d tournament_at status last_resolved starting_proposal =
     (let anchor_address = (case starting_proposal of Some a \<Rightarrow> a | None \<Rightarrow> last_resolved);
          anchor = tournament_at anchor_address
      in if anchor_address = 0 then bail ''No resolved games found. Deployment has not been fully configured.''
         else if tc_treasury anchor \<noteq> dp_treasury d then bail ''Anchor is not part of the correct deployment.''
         else and_then (parse_finality (status anchor_address)) (\<lambda>finality.
           if finality \<noteq> Some True then bail ''Anchor game is not finalized.''
           else and_then
             (if tc_parent_game anchor = anchor_address then Inr (tc_l2_block_number anchor)
              else and_then (blocks_per_proposal d) (sub_u64 host (tc_l2_block_number anchor)))
             (\<lambda>last_output_index.
              Inr \<lparr>cu_canonical_proposal_tip = tc_game_index anchor,
                   cu_next_factory_index = tc_game_index anchor, cu_delayed_factory_indices = [],
                   cu_last_output_index = last_output_index,
                   cu_last_resolved_game = tc_game_index anchor\<rparr>)))"

text \<open>A new agent knows nothing but its database and cursor.\<close>

definition agent_new :: "sync_deployment \<Rightarrow> (u64 \<rightharpoonup> B256) \<Rightarrow> sync_cursor \<Rightarrow> sync_agent" where
  "agent_new d db c =
     \<lparr>sa_deployment = d, sa_db = db, sa_cursor = c, sa_outputs = Map.empty, sa_proposals = Map.empty,
      sa_eliminations = Map.empty, sa_l1_heads = Map.empty, sa_l1_heads_inv = Map.empty\<rparr>"

section \<open>Outputs\<close>

definition note_output :: "u64 \<Rightarrow> B256 \<Rightarrow> sync_agent \<Rightarrow> sync_agent" where
  "note_output i output a =
     a\<lparr>sa_outputs := (sa_outputs a)(i \<mapsto> output),
       sa_cursor := (sa_cursor a)\<lparr>cu_last_output_index := max (cu_last_output_index (sa_cursor a)) i\<rparr>\<rparr>"

text \<open>\<open>(start..=end).step_by(step)\<close> for a nonempty range.\<close>

definition step_range :: "u64 \<Rightarrow> u64 \<Rightarrow> u64 \<Rightarrow> u64 list" where
  "step_range start stop step =
     map (\<lambda>k. start + of_nat k * step) [0..<Suc (unat (stop - start) div unat step)]"

definition load_persisted :: "u64 list \<Rightarrow> sync_agent \<Rightarrow> sync_agent" where
  "load_persisted is a =
     fold (\<lambda>i a. case sa_db a i of Some output \<Rightarrow> note_output i output a | None \<Rightarrow> a) is a"

definition store_outputs :: "(u64 \<times> B256) list \<Rightarrow> sync_agent \<Rightarrow> sync_agent" where
  "store_outputs outputs a =
     fold (\<lambda>(i, output) a. note_output i output (a\<lparr>sa_db := (sa_db a)(i \<mapsto> output)\<rparr>)) outputs a"

definition fetch_chunk :: "(u64 \<Rightarrow> B256) \<Rightarrow> u64 \<Rightarrow> u64 \<Rightarrow> u64 \<Rightarrow> sync_agent \<Rightarrow> sync_agent" where
  "fetch_chunk output_at_block start stop step a =
     (let is = step_range start stop step;
          a = load_persisted is a;
          missing = filter (\<lambda>i. sa_outputs a i = None) is
      in store_outputs (map (\<lambda>i. (i, output_at_block i)) missing) a)"

function sync_outputs ::
  "(u64 \<Rightarrow> B256) \<Rightarrow> sync_agent \<Rightarrow> u64 \<Rightarrow> u64 \<Rightarrow> u64 \<Rightarrow> sync_agent \<times> unit result" where
  "sync_outputs output_at_block a start stop step =
     (if stop < start then (a, Inr ())
      else case and_then (mul_u64 host 128 step) (add_u64 host start) of
          Inl e \<Rightarrow> (a, Inl e)
        | Inr limit \<Rightarrow>
            let chunk_end = min stop limit
            in if step = 0 then (a, Inl (Panic ''assertion failed: step != 0''))
               else let a = fetch_chunk output_at_block start chunk_end step a
                    in case add_u64 host chunk_end step of
                         Inl e \<Rightarrow> (a, Inl e)
                       | Inr start \<Rightarrow> sync_outputs output_at_block a start stop step)"
  by pat_completeness auto
termination
proof (relation "measure (\<lambda>(_, _, start, _, _). 2 ^ 64 - unat start)", goal_cases)
  case 1
  then show ?case by simp
next
  case (2 output_at_block a start stop step limit chunk_end a' start')
  have l: "unat start \<le> unat limit"
    using 2(2) by (auto simp: add_u64_def mul_u64_def unat_word_ariths split: if_splits sum.splits
        elim!: and_then_eq_Inr [THEN iffD1, THEN exE])
  then have "start \<le> chunk_end" using 2(1,3) by (auto simp: word_le_nat_alt min_def not_less)
  moreover have "unat start' = unat chunk_end + unat step" "unat step > 0"
    using 2(4,6) by (auto simp: add_u64_def unat_word_ariths unat_gt_0 split: if_splits)
  ultimately show ?case using unat_u64_bound [of start'] by (simp add: word_le_nat_alt)
qed

declare sync_outputs.simps [simp del]

section \<open>Judging a proposal\<close>

definition was_proposer_eliminated_before :: "sync_agent \<Rightarrow> proposal \<Rightarrow> bool" where
  "was_proposer_eliminated_before a p =
     (case sa_eliminations a (pp_proposer p) of Some round \<Rightarrow> round < pp_index p | None \<Rightarrow> False)"

definition canonical_tip :: "sync_agent \<Rightarrow> proposal option" where
  "canonical_tip a = sa_proposals a (cu_canonical_proposal_tip (sa_cursor a))"

definition canonical_tip_height :: "sync_agent \<Rightarrow> u64 option" where
  "canonical_tip_height a = map_option pp_output_block_number (canonical_tip a)"

definition determine_tournament_participation ::
  "sync_agent \<Rightarrow> proposal \<Rightarrow> sync_agent \<times> bool result" where
  "determine_tournament_participation a p =
     (if \<not> has_parent p then (a, Inr True)
      else if pp_resolved_at p \<noteq> 0 then (a, Inr True)
      else case sa_proposals a (pp_parent p) of
          None \<Rightarrow> (a, Inr False)
        | Some parent \<Rightarrow>
            let parent = fst (append_child parent (pp_index p));
                a = a\<lparr>sa_proposals := (sa_proposals a)(pp_parent p \<mapsto> parent)\<rparr>
            in (a,
                if was_proposer_eliminated_before a p then Inr False
                else if pp_canonical parent \<noteq> Some True then Inr False
                else case pp_successor parent of
                    None \<Rightarrow> Inr True
                  | Some index \<Rightarrow>
                      and_then (unwrap_opt (sa_proposals a index) ''unwrap'') (\<lambda>successor.
                      and_then (sub_u64 host (pp_created_at p) (pp_created_at successor)) (\<lambda>delay.
                      Inr (delay < dp_timeout (sa_deployment a))))))"

definition update_vec :: "'a list \<Rightarrow> nat \<Rightarrow> 'a \<Rightarrow> 'a list result" where
  "update_vec xs i x = (if i < length xs then Inr (xs[i := x]) else Inl (Panic ''index out of bounds''))"

definition assess_io :: "sync_agent \<Rightarrow> proposal \<Rightarrow> u64 \<Rightarrow> bool option list \<Rightarrow> nat \<Rightarrow> bool option list result" where
  "assess_io a p starting_block_number correct_io i =
     and_then (add_u64 host (of_nat i) 1) (\<lambda>k.
     and_then (mul_u64 host k (dp_output_block_span (sa_deployment a))) (\<lambda>offset.
     and_then (add_u64 host starting_block_number offset) (\<lambda>io_number.
     case sa_outputs a io_number of
       None \<Rightarrow> bail ''Failed to fetch output hash for block''
     | Some output_hash \<Rightarrow>
         update_vec correct_io i (Some (hash_to_fe output_hash = pp_io_field_elements p ! i)))))"

definition assess_correctness :: "sync_agent \<Rightarrow> proposal \<Rightarrow> (proposal \<times> bool) result" where
  "assess_correctness a p =
     (if \<not> has_parent p then Inr (p, True)
      else and_then
        (if pp_resolved_at p = 0
         then (case sa_proposals a (pp_parent p) of
                 None \<Rightarrow> Inr False
               | Some parent \<Rightarrow> unwrap_opt (is_correct parent)
                   ''Attempted to process child before deciding parent correctness'')
         else Inr True) (\<lambda>is_parent_correct.
      case sa_outputs a (pp_output_block_number p) of
        None \<Rightarrow> bail ''Failed to fetch local claim for proposal.''
      | Some local_claim \<Rightarrow>
          and_then (blocks_per_proposal (sa_deployment a)) (\<lambda>blocks.
          and_then (try_fold (assess_io a p (saturating_sub_u64 (pp_output_block_number p) blocks))
            (pp_correct_io p) [0..<length (pp_io_field_elements p)]) (\<lambda>correct_io.
          and_then (try_fold (\<lambda>correct_trail i. update_vec correct_trail i (Some (pp_trail_field_elements p ! i = 0)))
            (pp_correct_trail p) [0..<length (pp_trail_field_elements p)]) (\<lambda>correct_trail.
          let p = p\<lparr>pp_correct_parent := Some is_parent_correct,
                    pp_correct_claim := Some (local_claim = pp_output_root p),
                    pp_correct_io := correct_io, pp_correct_trail := correct_trail\<rparr>
          in case is_correct p of
               None \<Rightarrow> bail ''Failed to assess correctness. Is op-node synced far enough?''
             | Some correct \<Rightarrow> Inr (p, correct))))))"

definition determine_if_canonical :: "sync_agent \<Rightarrow> proposal \<Rightarrow> (proposal \<times> bool) option" where
  "determine_if_canonical a p =
     map_option (\<lambda>correct.
       let canonical = correct \<and> \<not> was_proposer_eliminated_before a p \<and>
             (case canonical_tip_height a of None \<Rightarrow> True | Some h \<Rightarrow> h < pp_output_block_number p)
       in (p\<lparr>pp_canonical := Some canonical\<rparr>, canonical)) (is_correct p)"

definition sync_l1_head :: "chain_view \<Rightarrow> sync_agent \<Rightarrow> Address \<Rightarrow> B256 \<Rightarrow> sync_agent" where
  "sync_l1_head v a contract l1_head =
     (let block_number = cv_l1_block_number v l1_head
      in a\<lparr>sa_l1_heads := (case sa_l1_heads a block_number of
               None \<Rightarrow> (sa_l1_heads a)(block_number \<mapsto> (contract, l1_head)) | Some _ \<Rightarrow> sa_l1_heads a),
           sa_l1_heads_inv := (case sa_l1_heads_inv a l1_head of
               None \<Rightarrow> (sa_l1_heads_inv a)(l1_head \<mapsto> (contract, block_number)) | Some _ \<Rightarrow> sa_l1_heads_inv a)\<rparr>)"

text \<open>The elimination round of a proposer is recorded once.\<close>

definition note_elimination :: "chain_view \<Rightarrow> Address \<Rightarrow> sync_agent \<Rightarrow> sync_agent" where
  "note_elimination v proposer a =
     (if sa_eliminations a proposer = None \<and> 0 < cv_elimination_round v proposer
      then a\<lparr>sa_eliminations := (sa_eliminations a)(proposer \<mapsto> cv_elimination_round v proposer)\<rparr>
      else a)"

definition store_proposal :: "proposal \<Rightarrow> bool \<Rightarrow> sync_agent \<Rightarrow> sync_agent" where
  "store_proposal p is_canonical a =
     (let proposals =
        (case (is_canonical, sa_proposals a (pp_parent p)) of
           (True, Some parent) \<Rightarrow> (sa_proposals a)(pp_parent p \<mapsto> parent\<lparr>pp_successor := Some (pp_index p)\<rparr>)
         | _ \<Rightarrow> sa_proposals a)
      in a\<lparr>sa_proposals := proposals(pp_index p \<mapsto> p)\<rparr>)"

text \<open>A proposal of the deployment that is not ahead of the op-node is judged and stored.\<close>

definition settle_proposal :: "sync_agent \<Rightarrow> proposal \<Rightarrow> sync_agent \<times> proposal_sync result" where
  "settle_proposal a p =
     (case determine_tournament_participation a p of
        (a, Inl e) \<Rightarrow> (a, err_context (Inl e) ''Failed to determine tournament participation'')
      | (a, Inr False) \<Rightarrow> (a, Inr (as_ignored p))
      | (a, Inr True) \<Rightarrow>
          (case assess_correctness a p of
             Inl e \<Rightarrow> (a, err_context (Inl e) ''Failed to determine proposal correctness'')
           | Inr (p, _) \<Rightarrow>
               (case determine_if_canonical a p of
                  None \<Rightarrow> (a, Inl (Bail [''Failed to determine if proposal is canonical.'',
                            ''Failed to determine if proposal is canonical'']))
                | Some (p, is_proposal_canonical) \<Rightarrow>
                    (store_proposal p is_proposal_canonical a, Inr (as_success p)))))"

definition sync_proposal :: "chain_view \<Rightarrow> sync_agent \<Rightarrow> u64 \<Rightarrow> sync_agent \<times> proposal_sync result" where
  "sync_proposal v a index =
     (let (game_type, game_address) = cv_game_at_index v index
      in if game_type \<noteq> KAILUA_GAME_TYPE then (a, Inr (IGNORED game_address 0))
         else case load_proposal (cv_get_blob v) game_address (cv_tournament v game_address) of
             Inl e \<Rightarrow> (a, Inl e)
           | Inr p \<Rightarrow>
               if pp_treasury p \<noteq> dp_treasury (sa_deployment a) then (a, Inr (as_ignored p))
               else if sa_proposals a \<noteq> Map.empty \<and> sa_proposals a (pp_parent p) = None then (a, Inr (as_ignored p))
               else let a = note_elimination v (pp_proposer p) a
                    in case add_u64 host (cu_last_output_index (sa_cursor a)) (dp_output_block_span (sa_deployment a)) of
                         Inl e \<Rightarrow> (a, Inl e)
                       | Inr synced \<Rightarrow>
                           if synced < pp_output_block_number p then (a, Inr (as_delayed p))
                           else settle_proposal a p)"

section \<open>Freeing data\<close>

definition first_key :: "(u64 \<rightharpoonup> 'v) \<Rightarrow> u64 option" where
  "first_key m = (if dom m = {} then None else Some (Min (dom m)))"

text \<open>Outputs before the earliest one needed are freed downwards, up to the first that is not in memory.\<close>

function prune_outputs :: "sync_agent \<Rightarrow> u64 \<Rightarrow> nat \<Rightarrow> sync_agent \<times> unit result" where
  "prune_outputs a earliest_output i =
     (if unat earliest_output < i then (a, Inr ())
      else case mul_u64 host (of_nat i) (dp_output_block_span (sa_deployment a)) of
          Inl e \<Rightarrow> (a, Inl e)
        | Inr offset \<Rightarrow>
            let output_number = saturating_sub_u64 earliest_output offset
            in if sa_outputs a output_number = None then (a, Inr ())
               else prune_outputs (a\<lparr>sa_outputs := (sa_outputs a)(output_number := None),
                                     sa_db := (sa_db a)(output_number := None)\<rparr>) earliest_output (Suc i))"
  by pat_completeness auto
termination
  by (relation "measure (\<lambda>(_, earliest_output, i). Suc (unat earliest_output) - i)") auto

declare prune_outputs.simps [simp del]

definition prune_l1_heads :: "u64 \<Rightarrow> sync_agent \<Rightarrow> sync_agent" where
  "prune_l1_heads block_no a =
     (let old = {h. \<exists>n contract. n < block_no \<and> sa_l1_heads a n = Some (contract, h)}
      in a\<lparr>sa_l1_heads_inv := sa_l1_heads_inv a |` (- old), sa_l1_heads := sa_l1_heads a |` {n. block_no \<le> n}\<rparr>)"

definition prune_data :: "sync_agent \<Rightarrow> sync_agent \<times> u64 set result" where
  "prune_data a =
     (case first_key (sa_proposals a) of
        None \<Rightarrow> (a, Inr {})
      | Some earliest_proposal \<Rightarrow>
          let last_resolved = cu_last_resolved_game (sa_cursor a);
              proposals = dom (sa_proposals a) \<inter> {earliest_proposal..<last_resolved};
              a = a\<lparr>sa_proposals := sa_proposals a |` (- proposals),
                    sa_cursor := (sa_cursor a)\<lparr>cu_delayed_factory_indices :=
                      filter (\<lambda>i. last_resolved \<le> i) (cu_delayed_factory_indices (sa_cursor a))\<rparr>\<rparr>
          in case sa_proposals a last_resolved of
               None \<Rightarrow> (a, bail ''Last resolved game is missing from database.'')
             | Some last_resolved_proposal \<Rightarrow>
                 (case blocks_per_proposal (sa_deployment a) of
                    Inl e \<Rightarrow> (a, Inl e)
                  | Inr blocks \<Rightarrow>
                      (case prune_outputs a (saturating_sub_u64 (pp_output_block_number last_resolved_proposal) blocks) 1 of
                         (a, Inl e) \<Rightarrow> (a, Inl e)
                       | (a, Inr _) \<Rightarrow>
                           (case sa_l1_heads_inv a (pp_l1_head last_resolved_proposal) of
                              None \<Rightarrow> (a, bail ''Inverse pointer data missing for latest resolved game l1 head'')
                            | Some (_, block_no) \<Rightarrow> (prune_l1_heads block_no a, Inr proposals)))))"

section \<open>Operations that leave the cursor alone\<close>

lemma note_elimination_keeps [simp]:
  "sa_cursor (note_elimination v q a) = sa_cursor a" "sa_deployment (note_elimination v q a) = sa_deployment a"
  "sa_proposals (note_elimination v q a) = sa_proposals a" "sa_outputs (note_elimination v q a) = sa_outputs a"
  "sa_db (note_elimination v q a) = sa_db a"
  by (simp_all add: note_elimination_def)

lemma sync_l1_head_keeps [simp]:
  "sa_cursor (sync_l1_head v a c h) = sa_cursor a" "sa_deployment (sync_l1_head v a c h) = sa_deployment a"
  "sa_proposals (sync_l1_head v a c h) = sa_proposals a" "sa_outputs (sync_l1_head v a c h) = sa_outputs a"
  "sa_db (sync_l1_head v a c h) = sa_db a"
  by (simp_all add: sync_l1_head_def Let_def)

lemma store_proposal_keeps [simp]:
  "sa_cursor (store_proposal p c a) = sa_cursor a" "sa_deployment (store_proposal p c a) = sa_deployment a"
  "sa_outputs (store_proposal p c a) = sa_outputs a" "sa_db (store_proposal p c a) = sa_db a"
  by (simp_all add: store_proposal_def Let_def)

lemma participation_keeps:
  assumes "determine_tournament_participation a p = (a', r)"
  shows "sa_cursor a' = sa_cursor a" "sa_deployment a' = sa_deployment a" "sa_outputs a' = sa_outputs a"
    "sa_db a' = sa_db a"
  using assms by (auto simp: determine_tournament_participation_def Let_def split: if_splits option.splits)

definition succeeded :: "proposal_sync result \<Rightarrow> bool" where
  "succeeded r = (case r of Inr (SUCCESS _ _) \<Rightarrow> True | _ \<Rightarrow> False)"

lemma succeeded_simps [simp]:
  "succeeded (Inr (SUCCESS c h))" "\<not> succeeded (Inl e)" "\<not> succeeded (Inr (IGNORED c h))"
  "\<not> succeeded (Inr (DELAYED n))" "\<not> succeeded (Inr (as_ignored p))" "\<not> succeeded (Inr (as_delayed p))"
  "\<not> succeeded (err_context (Inl e) m)" "succeeded (Inr (as_success p))"
  by (auto simp: succeeded_def as_ignored_def as_delayed_def as_success_def err_context_def split: failure.splits)

text \<open>The agent changes by a noted elimination, a child of the parent, a stored proposal.\<close>

lemma settle_proposal_cases:
  assumes "settle_proposal a p = (a', r)"
  obtains (joined) b where "determine_tournament_participation a p = (a', b)" "\<not> succeeded r"
  | (stored) p' p'' a2 correct canonical where
      "determine_tournament_participation a p = (a2, Inr True)"
      "assess_correctness a2 p = Inr (p', correct)" "determine_if_canonical a2 p' = Some (p'', canonical)"
      "a' = store_proposal p'' canonical a2" "r = Inr (as_success p'')"
proof -
  obtain a2 b where dp: "determine_tournament_participation a p = (a2, b)" by fastforce
  show ?thesis
  proof (cases b)
    case (Inl e)
    then show ?thesis using assms dp joined by (auto simp: settle_proposal_def)
  next
    case (Inr c)
    show ?thesis
    proof (cases c)
      case False
      then show ?thesis using assms dp Inr joined by (auto simp: settle_proposal_def)
    next
      case True
      show ?thesis
      proof (cases "assess_correctness a2 p")
        case (Inl e)
        then show ?thesis using assms dp \<open>b = Inr c\<close> True joined by (auto simp: settle_proposal_def)
      next
        case ac: (Inr pc)
        obtain p' correct where pc: "pc = (p', correct)" by fastforce
        show ?thesis
        proof (cases "determine_if_canonical a2 p'")
          case None
          then show ?thesis using assms dp \<open>b = Inr c\<close> True ac pc joined by (auto simp: settle_proposal_def)
        next
          case (Some x)
          then show ?thesis using assms dp \<open>b = Inr c\<close> True ac pc stored
            by (cases x) (auto simp: settle_proposal_def)
        qed
      qed
    qed
  qed
qed

lemma sync_proposal_cases:
  assumes "sync_proposal v a index = (a', r)"
  obtains (unchanged) "a' = a" "\<not> succeeded r"
  | (noted) q where "a' = note_elimination v q a" "\<not> succeeded r"
  | (settled) p where
      "load_proposal (cv_get_blob v) (snd (cv_game_at_index v index))
        (cv_tournament v (snd (cv_game_at_index v index))) = Inr p"
      "pp_treasury p = dp_treasury (sa_deployment a)"
      "settle_proposal (note_elimination v (pp_proposer p) a) p = (a', r)"
proof -
  obtain game_type address where g: "cv_game_at_index v index = (game_type, address)" by fastforce
  show ?thesis
  proof (cases "game_type \<noteq> KAILUA_GAME_TYPE")
    case True
    then show ?thesis using assms g by (intro unchanged) (auto simp: sync_proposal_def)
  next
    case False
    show ?thesis
    proof (cases "load_proposal (cv_get_blob v) address (cv_tournament v address)")
      case (Inl e)
      then show ?thesis using assms g False by (intro unchanged) (auto simp: sync_proposal_def)
    next
      case (Inr p)
      note sp = assms [unfolded sync_proposal_def Let_def g prod.case Inr sum.case]
      show ?thesis
      proof (cases "pp_treasury p \<noteq> dp_treasury (sa_deployment a) \<or> sa_proposals a \<noteq> Map.empty \<and> sa_proposals a (pp_parent p) = None")
        case True
        then show ?thesis using sp False by (intro unchanged) (auto split: if_splits)
      next
        case relevant: False
        show ?thesis
        proof (cases "settle_proposal (note_elimination v (pp_proposer p) a) p = (a', r)")
          case True
          then show ?thesis using relevant g Inr by (intro settled [of p]) auto
        next
          case unsettled: False
          show ?thesis
            using sp False relevant unsettled by (intro noted [of "pp_proposer p"]) (auto split: sum.splits if_splits)
        qed
      qed
    qed
  qed
qed

lemma settle_proposal_keeps:
  assumes "settle_proposal a p = (a', r)"
  shows "sa_cursor a' = sa_cursor a \<and> sa_deployment a' = sa_deployment a \<and> sa_outputs a' = sa_outputs a \<and> sa_db a' = sa_db a"
  using assms by (cases rule: settle_proposal_cases) (auto dest: participation_keeps)

lemma sync_proposal_keeps:
  assumes "sync_proposal v a index = (a', r)"
  shows "sa_cursor a' = sa_cursor a \<and> sa_deployment a' = sa_deployment a \<and> sa_outputs a' = sa_outputs a \<and> sa_db a' = sa_db a"
  using assms by (cases rule: sync_proposal_cases) (auto dest: settle_proposal_keeps)

section \<open>The synchronization loop\<close>

text \<open>The next proposal after one that was handled, and what is recorded of a stored proposal.\<close>

definition advance :: "u64 \<Rightarrow> sync_agent \<Rightarrow> sync_agent result" where
  "advance index a =
     (if index = cu_next_factory_index (sa_cursor a)
      then and_then (add_u64 host (cu_next_factory_index (sa_cursor a)) 1) (\<lambda>n.
        Inr (a\<lparr>sa_cursor := (sa_cursor a)\<lparr>cu_next_factory_index := n\<rparr>\<rparr>))
      else Inr a)"

definition record_success :: "proposal \<Rightarrow> sync_agent \<Rightarrow> sync_agent" where
  "record_success p a =
     (if pp_canonical p = Some True
      then a\<lparr>sa_cursor := (sa_cursor a)\<lparr>cu_canonical_proposal_tip := pp_index p,
              cu_last_resolved_game := (if pp_resolved_at p \<noteq> 0 then pp_index p
                else cu_last_resolved_game (sa_cursor a))\<rparr>\<rparr>
      else if is_correct p = Some False \<and> sa_eliminations a (pp_proposer p) = None
      then a\<lparr>sa_eliminations := (sa_eliminations a)(pp_proposer p \<mapsto> pp_index p)\<rparr>
      else a)"

text \<open>
  One iteration over the next index: \<open>Inl\<close> when the loop ends, by a \<open>break\<close> with the delayed indices
  or by an error of \<open>sync\<close>, \<open>Inr\<close> when it goes on. The panics of \<open>sync_proposal\<close> end the program.
\<close>

definition sync_step ::
  "chain_view \<Rightarrow> u64 \<Rightarrow> sync_agent \<Rightarrow> u64 list \<Rightarrow> (sync_agent \<times> u64 list result) + (sync_agent \<times> u64 list)" where
  "sync_step v safe_l2_number a delayed_indices =
     (case next_index (sa_cursor a) of (cursor, index) \<Rightarrow>
      let continue_with = (\<lambda>a delayed_indices. case advance index a of
            Inl e \<Rightarrow> Inl (a, Inl e) | Inr a \<Rightarrow> Inr (a, delayed_indices))
      in case sync_proposal v (a\<lparr>sa_cursor := cursor\<rparr>) index of
           (a, Inl (Panic m)) \<Rightarrow> Inl (a, Inl (Panic m))
         | (a, Inl (Bail ms)) \<Rightarrow> Inl (a, Inr delayed_indices)
         | (a, Inr (IGNORED contract l1_head)) \<Rightarrow>
             continue_with (if l1_head = 0 then a else sync_l1_head v a contract l1_head) delayed_indices
         | (a, Inr (DELAYED proposal_block)) \<Rightarrow>
             if proposal_block < safe_l2_number then Inl (a, Inr delayed_indices)
             else continue_with a (delayed_indices @ [index])
         | (a, Inr (SUCCESS contract l1_head)) \<Rightarrow>
             let a = sync_l1_head v a contract l1_head
             in case sa_proposals a (cu_next_factory_index (sa_cursor a)) of
                  None \<Rightarrow> Inl (a, bail ''Failed to load immediately processed proposal'')
                | Some p \<Rightarrow> continue_with (record_success p a) delayed_indices)"

definition sync_measure :: "u64 \<Rightarrow> sync_agent \<Rightarrow> nat" where
  "sync_measure game_count a = length (cu_delayed_factory_indices (sa_cursor a)) +
     (unat game_count - unat (cu_next_factory_index (sa_cursor a)))"

lemma record_success_keeps [simp]:
  "cu_delayed_factory_indices (sa_cursor (record_success p a)) = cu_delayed_factory_indices (sa_cursor a)"
  "cu_next_factory_index (sa_cursor (record_success p a)) = cu_next_factory_index (sa_cursor a)"
  "sa_proposals (record_success p a) = sa_proposals a" "sa_deployment (record_success p a) = sa_deployment a"
  "sa_outputs (record_success p a) = sa_outputs a" "sa_db (record_success p a) = sa_db a"
  by (simp_all add: record_success_def)

text \<open>What an iteration leaves alone once the proposal has been handled.\<close>

definition kept :: "sync_agent \<Rightarrow> sync_agent \<Rightarrow> bool" where
  "kept a a' \<longleftrightarrow> sa_deployment a' = sa_deployment a \<and> sa_outputs a' = sa_outputs a \<and> sa_db a' = sa_db a \<and>
     sa_proposals a' = sa_proposals a \<and>
     cu_next_factory_index (sa_cursor a') = cu_next_factory_index (sa_cursor a) \<and>
     cu_delayed_factory_indices (sa_cursor a') = cu_delayed_factory_indices (sa_cursor a)"

lemma kept_simps [simp]:
  "kept a a" "kept a (sync_l1_head v a c h)" "kept a (record_success p (sync_l1_head v a c h))"
  by (simp_all add: kept_def)

lemma sync_step_cases:
  assumes "sync_step v safe a ds = r" and ni: "next_index (sa_cursor a) = (cursor, index)"
  obtains (ends) a1 res a' x where "sync_proposal v (a\<lparr>sa_cursor := cursor\<rparr>) index = (a1, res)" "kept a1 a'"
      "r = Inl (a', x)" "x = Inr ds \<or> (\<exists>e. x = Inl e)"
      "succeeded res \<Longrightarrow> sa_proposals a1 (cu_next_factory_index cursor) = None \<or> advance index a1 = Inl (Panic ''attempt to add with overflow'')"
  | (continues) a1 res a2 a' ds' where "sync_proposal v (a\<lparr>sa_cursor := cursor\<rparr>) index = (a1, res)" "kept a1 a2"
      "advance index a2 = Inr a'" "r = Inr (a', ds')" "ds' = ds \<or> ds' = ds @ [index] \<and> \<not> succeeded res"
proof -
  obtain a1 res where sp: "sync_proposal v (a\<lparr>sa_cursor := cursor\<rparr>) index = (a1, res)" by fastforce
  have c: "sa_cursor a1 = cursor" using sync_proposal_keeps [OF sp] by simp
  note ends = ends [OF sp] and continues = continues [OF sp]
  have goes_on: thesis if "(case advance index a2 of Inl e \<Rightarrow> Inl (a2, Inl e) | Inr a \<Rightarrow> Inr (a, ds')) = r"
    "kept a1 a2" "ds' = ds \<or> ds' = ds @ [index] \<and> \<not> succeeded res" for a2 ds'
  proof (cases "advance index a2")
    case (Inl e)
    with that(2) have "advance index a1 = Inl (Panic ''attempt to add with overflow'')"
      by (auto simp: advance_def add_u64_def kept_def build_simps split: if_splits)
    with that Inl show ?thesis by (intro ends [of a2 "Inl e"]) auto
  next
    case (Inr a')
    with that show ?thesis by (intro continues [of a2 a' ds']) auto
  qed
  show ?thesis
  proof (cases res)
    case (Inl e)
    then show ?thesis using assms sp by (cases e) (auto simp: sync_step_def intro!: ends)
  next
    case (Inr ps)
    note st = assms(1) [unfolded sync_step_def ni prod.case Let_def sp Inr sum.case]
    show ?thesis
    proof (cases ps)
      case (SUCCESS x y)
      show ?thesis
      proof (cases "sa_proposals a1 (cu_next_factory_index cursor)")
        case None
        then show ?thesis using st SUCCESS c by (intro ends) (auto simp: bail_def)
      next
        case (Some p)
        then show ?thesis using st SUCCESS c by (intro goes_on [of "record_success p (sync_l1_head v a1 x y)" ds]) auto
      qed
    next
      case (DELAYED n)
      show ?thesis
      proof (cases "n < safe")
        case True
        then show ?thesis using st DELAYED Inr by (intro ends) auto
      next
        case False
        then show ?thesis using st DELAYED Inr by (intro goes_on [of a1 "ds @ [index]"]) auto
      qed
    next
      case (IGNORED x y)
      then show ?thesis using st by (intro goes_on [of "if y = 0 then a1 else sync_l1_head v a1 x y" ds]) auto
    qed
  qed
qed

lemma sync_step_decreases:
  assumes "sync_step v safe a ds = Inr (a', ds')" and "has_next (sa_cursor a) game_count"
  shows "sync_measure game_count a' < sync_measure game_count a"
proof -
  obtain cursor index where ni: "next_index (sa_cursor a) = (cursor, index)" by fastforce
  from assms(1) ni obtain a1 res a2 where sp: "sync_proposal v (a\<lparr>sa_cursor := cursor\<rparr>) index = (a1, res)" "kept a1 a2"
    "advance index a2 = Inr a'" by (cases rule: sync_step_cases) auto
  have a2: "cu_delayed_factory_indices (sa_cursor a2) = cu_delayed_factory_indices cursor"
      "cu_next_factory_index (sa_cursor a2) = cu_next_factory_index cursor"
    using sync_proposal_keeps [OF sp(1)] sp(2) by (auto simp: kept_def)
  show ?thesis
  proof (cases "cu_delayed_factory_indices (sa_cursor a)")
    case Nil
    then have "unat (cu_next_factory_index (sa_cursor a)) < unat game_count"
      using assms(2) by (simp add: has_next_def word_less_nat_alt)
    then show ?thesis using a2 sp(3) Nil ni
      by (auto simp: next_index_def advance_def sync_measure_def res_simps add_u64_def unat_word_ariths split: if_splits)
  next
    case (Cons i rest)
    then show ?thesis using a2 sp(3) ni
      by (auto simp: next_index_def advance_def sync_measure_def res_simps add_u64_def unat_word_ariths split: if_splits)
  qed
qed

function sync_loop ::
  "chain_view \<Rightarrow> u64 \<Rightarrow> u64 \<Rightarrow> sync_agent \<Rightarrow> u64 list \<Rightarrow> sync_agent \<times> u64 list result" where
  "sync_loop v safe_l2_number game_count a delayed_indices =
     (if \<not> has_next (sa_cursor a) game_count then (a, Inr delayed_indices)
      else case sync_step v safe_l2_number a delayed_indices of
          Inl r \<Rightarrow> r
        | Inr s \<Rightarrow> sync_loop v safe_l2_number game_count (fst s) (snd s))"
  by pat_completeness auto
termination
  by (relation "measure (\<lambda>(_, _, game_count, a, _). sync_measure game_count a)")
    (auto dest: sync_step_decreases)

declare sync_loop.simps [simp del]

section \<open>Resolutions\<close>

text \<open>
  One iteration follows the successor of the last resolved proposal: \<open>Inl\<close> when the loop ends,
  \<open>Inr\<close> when the successor is resolved too. A failure to free data is logged only.
\<close>

definition resolve_next :: "chain_view \<Rightarrow> sync_agent \<Rightarrow> (sync_agent \<times> unit result) + sync_agent" where
  "resolve_next v a =
     (case sa_proposals a (cu_last_resolved_game (sa_cursor a)) of
        None \<Rightarrow> Inl (a, bail ''Last resolved proposal missing from database.'')
      | Some last_resolved \<Rightarrow>
          (case pp_successor last_resolved of
             None \<Rightarrow> Inl (a, Inr ())
           | Some index \<Rightarrow>
               (case sa_proposals a index of
                  None \<Rightarrow> Inl (a, bail ''Last unresolved proposal missing from database.'')
                | Some p \<Rightarrow>
                    let resolved_at = cv_resolved_at v (pp_contract p)
                    in if resolved_at = 0 then Inl (a, Inr ())
                       else (case prune_data (a\<lparr>sa_proposals := (sa_proposals a)(index \<mapsto> p\<lparr>pp_resolved_at := resolved_at\<rparr>),
                                            sa_cursor := (sa_cursor a)\<lparr>cu_last_resolved_game := index\<rparr>\<rparr>) of
                           (a, Inl (Panic m)) \<Rightarrow> Inl (a, Inl (Panic m))
                         | (a, _) \<Rightarrow> Inr a))))"

text \<open>The loop need not end on arbitrary data.\<close>

partial_function (option) sync_resolutions :: "chain_view \<Rightarrow> sync_agent \<Rightarrow> (sync_agent \<times> unit result) option" where
  "sync_resolutions v a =
     (case resolve_next v a of Inl r \<Rightarrow> Some r | Inr a \<Rightarrow> sync_resolutions v a)"

definition FINAL_L2_BLOCK_RESOLVED :: string where
  "FINAL_L2_BLOCK_RESOLVED = ''Last resolved proposal l2 block reached final l2 block.''"

text \<open>The new outputs, when the op-node is at least one output ahead.\<close>

definition sync_new_outputs :: "chain_view \<Rightarrow> u64 \<Rightarrow> sync_agent \<Rightarrow> sync_agent \<times> unit result" where
  "sync_new_outputs v safe_l2_number a =
     (let last_output = cu_last_output_index (sa_cursor a);
          span = dp_output_block_span (sa_deployment a)
      in case and_then (blocks_per_proposal (sa_deployment a)) (\<lambda>blocks.
           and_then (add_u64 host last_output blocks) (\<lambda>limit.
           and_then (add_u64 host last_output span) (\<lambda>next_output.
           Inr (min safe_l2_number limit, next_output)))) of
           Inl e \<Rightarrow> (a, Inl e)
         | Inr (output_block_number, next_output) \<Rightarrow>
             if next_output < output_block_number
             then sync_outputs (cv_output_at_block v) a last_output output_block_number span
             else (a, Inr ()))"

definition sync ::
  "chain_view \<Rightarrow> u64 \<Rightarrow> u64 option \<Rightarrow> sync_agent \<Rightarrow> (sync_agent \<times> u64 list result) option" where
  "sync v op_rpc_delay final_l2_block a =
     (case cv_safe_l2 v of
        None \<Rightarrow> Some (a, bail ''failed to parse safe_l2'')
      | Some safe_l2 \<Rightarrow>
          let safe_l2_number = saturating_sub_u64 safe_l2 op_rpc_delay
          in case sync_new_outputs v safe_l2_number a of
               (a, Inl e) \<Rightarrow> Some (a, Inl e)
             | (a, Inr _) \<Rightarrow>
                 let first_factory_index = cu_next_factory_index (sa_cursor a)
                 in (case sync_loop v safe_l2_number (cv_game_count v) a [] of
                       (a, Inl e) \<Rightarrow> Some (a, Inl e)
                     | (a, Inr delayed_indices) \<Rightarrow>
                         map_option (\<lambda>(a, r). (a, and_then r (\<lambda>_.
                           and_then
                             (case final_l2_block of
                                None \<Rightarrow> Inr ()
                              | Some final_l2_block \<Rightarrow>
                                  (case sa_proposals a (cu_last_resolved_game (sa_cursor a)) of
                                     None \<Rightarrow> bail ''Last resolved proposal missing from database.''
                                   | Some p \<Rightarrow> if final_l2_block \<le> pp_output_block_number p
                                       then bail FINAL_L2_BLOCK_RESOLVED else Inr ())) (\<lambda>_.
                           Inr (filter (\<lambda>p. sa_proposals a p \<noteq> None)
                             (map of_nat [unat first_factory_index..<unat (cu_next_factory_index (sa_cursor a))]))))))
                           (sync_resolutions v (a\<lparr>sa_cursor := load_delayed_indices (sa_cursor a) delayed_indices\<rparr>))))"

end
