(* ===== verification/Sync_Verdicts.thy ===== *)
theory Sync_Verdicts
  imports Sync
begin

text \<open>
  What the synchronization agent knows of the proposals it stores: its verdicts are those of the
  op-node it follows, in every state that any sequence of calls of \<open>sync\<close> reaches, failed calls
  included.
\<close>

section \<open>Judged proposals\<close>

text \<open>The block of an intermediate output, and a proposal whose data are those of the node.\<close>

definition io_block :: "sync_deployment \<Rightarrow> proposal \<Rightarrow> nat \<Rightarrow> u64" where
  "io_block d p i =
     saturating_sub_u64 (pp_output_block_number p) (dp_proposal_output_count d * dp_output_block_span d) +
     (of_nat i + 1) * dp_output_block_span d"

definition honest_proposal :: "(u64 \<Rightarrow> B256) \<Rightarrow> sync_deployment \<Rightarrow> proposal \<Rightarrow> bool" where
  "honest_proposal out d p \<longleftrightarrow>
     out (pp_output_block_number p) = pp_output_root p \<and>
     (\<forall>i < length (pp_io_field_elements p). hash_to_fe (out (io_block d p i)) = pp_io_field_elements p ! i) \<and>
     (\<forall>fe \<in> set (pp_trail_field_elements p). fe = 0)"

definition judged :: "(u64 \<Rightarrow> B256) \<Rightarrow> sync_deployment \<Rightarrow> proposal \<Rightarrow> bool" where
  "judged out d p \<longleftrightarrow>
     pp_correct_claim p = Some (out (pp_output_block_number p) = pp_output_root p) \<and>
     (\<exists>n. pp_correct_io p =
        map (\<lambda>i. Some (hash_to_fe (out (io_block d p i)) = pp_io_field_elements p ! i))
          [0..<length (pp_io_field_elements p)] @ replicate n None) \<and>
     pp_correct_trail p = map (\<lambda>fe. Some (fe = 0)) (pp_trail_field_elements p)"

definition stored_ok :: "(u64 \<Rightarrow> B256) \<Rightarrow> sync_deployment \<Rightarrow> proposal \<Rightarrow> bool" where
  "stored_ok out d p \<longleftrightarrow>
     pp_correct_parent p = Some True \<and> is_correct p \<noteq> None \<and> pp_canonical p \<noteq> None \<and>
     (pp_canonical p = Some True \<longrightarrow> is_correct p = Some True) \<and>
     (has_parent p \<longrightarrow> judged out d p) \<and> (\<not> has_parent p \<longrightarrow> is_correct p = Some True)"

lemma judged_verdict:
  assumes "judged out d p" and "pp_correct_parent p = Some True" and "is_correct p \<noteq> None"
  shows "is_correct p = Some (honest_proposal out d p)"
proof -
  obtain n where io: "pp_correct_io p = map (\<lambda>i. Some (hash_to_fe (out (io_block d p i)) = pp_io_field_elements p ! i))
      [0..<length (pp_io_field_elements p)] @ replicate n None"
    and claim: "pp_correct_claim p = Some (out (pp_output_block_number p) = pp_output_root p)"
    and trail: "pp_correct_trail p = map (\<lambda>fe. Some (fe = 0)) (pp_trail_field_elements p)"
    using assms(1) by (auto simp: judged_def)
  have "fault_of p \<noteq> None \<longleftrightarrow> \<not> honest_proposal out d p"
    unfolding fault_of_None io claim trail honest_proposal_def by (force simp: image_iff)
  moreover have "is_correct p = Some False \<longleftrightarrow> fault_of p \<noteq> None"
    using assms(2) by (simp add: is_correct_False)
  ultimately show ?thesis using assms(3) by (cases "honest_proposal out d p") auto
qed

text \<open>The bookkeeping fields play no part in a verdict.\<close>

lemma bookkeeping [simp]:
  "is_correct (p\<lparr>pp_children := cs\<rparr>) = is_correct p" "is_correct (p\<lparr>pp_successor := s\<rparr>) = is_correct p"
  "is_correct (p\<lparr>pp_resolved_at := r\<rparr>) = is_correct p" "is_correct (p\<lparr>pp_canonical := c\<rparr>) = is_correct p"
  by (simp_all add: is_correct_def)

lemma judged_bookkeeping [simp]:
  "judged out d (p\<lparr>pp_children := cs\<rparr>) = judged out d p" "judged out d (p\<lparr>pp_successor := s\<rparr>) = judged out d p"
  "judged out d (p\<lparr>pp_resolved_at := r\<rparr>) = judged out d p" "judged out d (p\<lparr>pp_canonical := c\<rparr>) = judged out d p"
  by (simp_all add: judged_def io_block_def)

lemma has_parent_bookkeeping [simp]:
  "has_parent (p\<lparr>pp_children := cs\<rparr>) = has_parent p" "has_parent (p\<lparr>pp_successor := s\<rparr>) = has_parent p"
  "has_parent (p\<lparr>pp_resolved_at := r\<rparr>) = has_parent p" "has_parent (p\<lparr>pp_canonical := c\<rparr>) = has_parent p"
  by (simp_all add: has_parent_def)

lemma stored_ok_bookkeeping [simp]:
  "stored_ok out d (p\<lparr>pp_children := cs\<rparr>) = stored_ok out d p" "stored_ok out d (p\<lparr>pp_successor := s\<rparr>) = stored_ok out d p"
  "stored_ok out d (p\<lparr>pp_resolved_at := r\<rparr>) = stored_ok out d p"
  by (simp_all add: stored_ok_def)

section \<open>Assessment\<close>

lemma update_vec_eq_Inr [res_simps]: "update_vec xs i x = Inr ys \<longleftrightarrow> i < length xs \<and> ys = xs[i := x]"
  by (auto simp: update_vec_def)

text \<open>A loop that fills the entries of a vector in order.\<close>

lemma fill_loop:
  assumes "try_fold f cs [0..<n] = Inr cs'"
    and "\<And>cs i cs'. f cs i = Inr cs' \<Longrightarrow> i < n \<Longrightarrow> i < length cs \<and> cs' = cs[i := g i]"
  shows "n \<le> length cs \<and> cs' = map g [0..<n] @ drop n cs"
  using assms
proof (induction n arbitrary: cs')
  case 0
  then show ?case by simp
next
  case (Suc n)
  from Suc.prems(1) obtain c where c: "try_fold f cs [0..<n] = Inr c" "f c n = Inr cs'"
    by (auto simp: try_fold_append res_simps)
  from Suc.IH [OF c(1)] Suc.prems(2) have IH: "n \<le> length cs" "c = map g [0..<n] @ drop n cs" by auto
  from Suc.prems(2) [OF c(2)] have "n < length c" "cs' = c[n := g n]" by auto
  with IH show ?case by (auto simp: list_update_append nth_append Cons_nth_drop_Suc [symmetric])
qed

lemma assess_correctness_judged:
  assumes assess: "assess_correctness a p = Inr (p', correct)" and parent: "has_parent p"
    and outs: "\<And>n h. sa_outputs a n = Some h \<Longrightarrow> h = out n"
    and fresh: "set (pp_correct_io p) \<subseteq> {None}" "length (pp_correct_trail p) = length (pp_trail_field_elements p)"
  shows "judged out (sa_deployment a) p'" "is_correct p' = Some correct"
    "pp_correct_parent p' = Some (pp_resolved_at p \<noteq> 0 \<or>
      (\<exists>q. sa_proposals a (pp_parent p) = Some q \<and> is_correct q = Some True))"
    "\<exists>par claim io tr. p' = p\<lparr>pp_correct_parent := par, pp_correct_claim := claim, pp_correct_io := io, pp_correct_trail := tr\<rparr>"
proof -
  let ?d = "sa_deployment a"
  define par_res :: "bool result" where "par_res = (if pp_resolved_at p = 0
         then (case sa_proposals a (pp_parent p) of None \<Rightarrow> Inr False
               | Some parent \<Rightarrow> unwrap_opt (is_correct parent)
                   ''Attempted to process child before deciding parent correctness'')
         else Inr True)"
  note assess' = assess [unfolded assess_correctness_def, folded par_res_def]
  from assess' parent obtain par local_claim blocks io tr where par: "par_res = Inr par"
    and lc: "sa_outputs a (pp_output_block_number p) = Some local_claim"
    and bl: "blocks_per_proposal ?d = Inr blocks"
    and io: "try_fold (assess_io a p (saturating_sub_u64 (pp_output_block_number p) blocks))
        (pp_correct_io p) [0..<length (pp_io_field_elements p)] = Inr io"
    and tr: "try_fold (\<lambda>cs i. update_vec cs i (Some (pp_trail_field_elements p ! i = 0)))
        (pp_correct_trail p) [0..<length (pp_trail_field_elements p)] = Inr tr"
    and p': "p' = p\<lparr>pp_correct_parent := Some par, pp_correct_claim := Some (local_claim = pp_output_root p),
        pp_correct_io := io, pp_correct_trail := tr\<rparr>" and correct: "is_correct p' = Some correct"
    by (auto simp: res_simps Let_def split: option.splits)
  have blocks: "blocks = dp_proposal_output_count ?d * dp_output_block_span ?d"
    using bl by (auto simp: blocks_per_proposal_def mul_u64_def split: if_splits)
  have io': "length (pp_io_field_elements p) \<le> length (pp_correct_io p) \<and>
      io = map (\<lambda>i. Some (hash_to_fe (out (io_block ?d p i)) = pp_io_field_elements p ! i))
        [0..<length (pp_io_field_elements p)] @ drop (length (pp_io_field_elements p)) (pp_correct_io p)"
    by (rule fill_loop [OF io]) (auto simp: assess_io_def res_simps io_block_def blocks add_u64_def mul_u64_def
        split: option.splits if_splits dest!: outs)
  have tr': "tr = map (\<lambda>i. Some (pp_trail_field_elements p ! i = 0)) [0..<length (pp_trail_field_elements p)] @
      drop (length (pp_trail_field_elements p)) (pp_correct_trail p)"
    by (rule fill_loop [OF tr, THEN conjunct2]) (auto simp: res_simps)
  have "drop k (pp_correct_io p) = replicate (length (pp_correct_io p) - k) None" for k
    using fresh(1) by (intro replicate_eqI) (auto dest: in_set_dropD)
  moreover have "map (\<lambda>i. Some (pp_trail_field_elements p ! i = 0)) [0..<length (pp_trail_field_elements p)] =
      map (\<lambda>fe. Some (fe = 0)) (pp_trail_field_elements p)"
    by (intro nth_equalityI) auto
  ultimately show "judged out ?d p'"
    using io' tr' fresh(2) outs [OF lc] by (auto simp: judged_def p' io_block_def)
  show "is_correct p' = Some correct" by fact
  show "pp_correct_parent p' = Some (pp_resolved_at p \<noteq> 0 \<or>
      (\<exists>q. sa_proposals a (pp_parent p) = Some q \<and> is_correct q = Some True))"
    using par by (auto simp: p' par_res_def res_simps split: if_splits option.splits)
  show "\<exists>par claim io tr. p' = p\<lparr>pp_correct_parent := par, pp_correct_claim := claim, pp_correct_io := io, pp_correct_trail := tr\<rparr>"
    using p' by blast
qed

section \<open>The agent's knowledge\<close>

definition outputs_ok :: "(u64 \<Rightarrow> B256) \<Rightarrow> sync_agent \<Rightarrow> bool" where
  "outputs_ok out a \<longleftrightarrow> (\<forall>n h. sa_outputs a n = Some h \<longrightarrow> h = out n) \<and> (\<forall>n h. sa_db a n = Some h \<longrightarrow> h = out n)"

definition proposals_ok :: "(u64 \<Rightarrow> B256) \<Rightarrow> sync_deployment \<Rightarrow> (u64 \<rightharpoonup> proposal) \<Rightarrow> bool" where
  "proposals_ok out d P \<longleftrightarrow>
     (\<forall>k p. P k = Some p \<longrightarrow> pp_index p = k \<and> stored_ok out d p \<and> (\<forall>s. pp_successor p = Some s \<longrightarrow> k < s))"

definition agent_ok :: "(u64 \<Rightarrow> B256) \<Rightarrow> sync_deployment \<Rightarrow> sync_agent \<Rightarrow> bool" where
  "agent_ok out d a \<longleftrightarrow> sa_deployment a = d \<and> outputs_ok out a \<and> proposals_ok out d (sa_proposals a)"

text \<open>A proposal as \<open>load_proposal\<close> returns it, and what it promises.\<close>

definition fresh_proposal :: "proposal \<Rightarrow> bool" where
  "fresh_proposal p \<longleftrightarrow>
     set (pp_correct_io p) \<subseteq> {None} \<and> length (pp_correct_trail p) = length (pp_trail_field_elements p) \<and>
     pp_successor p = None \<and> pp_parent p \<le> pp_index p \<and>
     (\<not> has_parent p \<longrightarrow> is_correct p \<noteq> None \<longrightarrow> is_correct p = Some True \<and> pp_correct_parent p = Some True)"

lemma load_proposal_fresh:
  assumes "load_proposal get_blob address t = Inr p"
    and "tc_parent_game t \<noteq> address \<longrightarrow> tc_parent_game_index t < tc_game_index t"
  shows "pp_index p = tc_game_index t" "fresh_proposal p"
  using assms by (auto simp: fresh_proposal_def load_proposal_def load_treasury_def load_game_def is_correct_def
      res_simps split: if_splits)

lemma proposals_okD:
  assumes "proposals_ok out d P" and "P k = Some p"
  shows "pp_index p = k" "stored_ok out d p" "pp_successor p = Some s \<Longrightarrow> k < s"
  using assms by (auto simp: proposals_ok_def)

lemma proposals_ok_upd:
  assumes "proposals_ok out d P" and "pp_index p = k" and "stored_ok out d p"
    and "\<And>s. pp_successor p = Some s \<Longrightarrow> k < s"
  shows "proposals_ok out d (P(k \<mapsto> p))"
  using assms by (auto simp: proposals_ok_def)

lemma proposals_ok_restrict: "proposals_ok out d P \<Longrightarrow> proposals_ok out d (P |` S)"
  by (auto simp: proposals_ok_def restrict_map_def split: if_splits)

lemma participation_cases:
  assumes part: "determine_tournament_participation a p = (a', r)"
  obtains (same) "a' = a" "r \<noteq> Inr True \<or> \<not> has_parent p \<or> pp_resolved_at p \<noteq> 0"
  | (child) q where "sa_proposals a (pp_parent p) = Some q"
      "a' = a\<lparr>sa_proposals := (sa_proposals a)(pp_parent p \<mapsto> q\<lparr>pp_children := insert (pp_index p) (pp_children q)\<rparr>)\<rparr>"
      "r = Inr True \<Longrightarrow> pp_canonical q = Some True"
proof (cases "\<not> has_parent p \<or> pp_resolved_at p \<noteq> 0")
  case True
  then show ?thesis using part by (intro same) (auto simp: determine_tournament_participation_def split: if_splits)
next
  case False
  show ?thesis
  proof (cases "sa_proposals a (pp_parent p)")
    case None
    then show ?thesis using part False by (intro same) (auto simp: determine_tournament_participation_def)
  next
    case (Some q)
    let ?q = "q\<lparr>pp_children := insert (pp_index p) (pp_children q)\<rparr>"
    let ?a = "a\<lparr>sa_proposals := (sa_proposals a)(pp_parent p \<mapsto> ?q)\<rparr>"
    have "a' = ?a" using part False Some
      by (simp add: determine_tournament_participation_def append_child_def Let_def)
    moreover have "pp_canonical q \<noteq> Some True \<Longrightarrow> r = Inr False"
      using part False Some
      by (auto simp: determine_tournament_participation_def append_child_def Let_def split: if_splits)
    ultimately show ?thesis using Some by (intro child) auto
  qed
qed

lemma participation_ok:
  assumes ok: "agent_ok out d a" and part: "determine_tournament_participation a p = (a', r)"
  shows "agent_ok out d a'"
  using part
proof (cases rule: participation_cases)
  case same
  then show ?thesis using ok by simp
next
  case (child q)
  have "proposals_ok out d (sa_proposals a)" using ok by (simp add: agent_ok_def)
  from proposals_ok_upd [OF this, of "q\<lparr>pp_children := insert (pp_index p) (pp_children q)\<rparr>" "pp_parent p"]
    proposals_okD [OF this child(1)]
  show ?thesis using ok child(2) by (simp add: agent_ok_def outputs_ok_def)
qed

lemma determine_if_canonical_Some:
  assumes "determine_if_canonical a p = Some (p', c)"
  shows "p' = p\<lparr>pp_canonical := Some c\<rparr>" "is_correct p \<noteq> None" "c \<Longrightarrow> is_correct p = Some True"
  using assms by (auto simp: determine_if_canonical_def Let_def)

text \<open>The verdict on a proposal that takes part in its tournament.\<close>

lemma verdict_ok:
  assumes ok: "agent_ok out d a" and fresh: "fresh_proposal p"
    and part: "determine_tournament_participation a0 p = (a, Inr True)"
    and assess: "assess_correctness a p = Inr (p', correct)" and canon: "determine_if_canonical a p' = Some (p'', c)"
  shows "stored_ok out d p''" "pp_index p'' = pp_index p" "pp_parent p'' = pp_parent p" "pp_successor p'' = None"
proof -
  note canon = determine_if_canonical_Some [OF canon]
  have "stored_ok out d p'' \<and> pp_index p'' = pp_index p \<and> pp_parent p'' = pp_parent p \<and> pp_successor p'' = None"
  proof (cases "has_parent p")
    case False
    then have "p' = p" using assess by (simp add: assess_correctness_def)
    with False canon fresh show ?thesis by (auto simp: stored_ok_def fresh_proposal_def)
  next
    case True
    note judged = assess_correctness_judged [OF assess True, of out]
    have outs: "sa_outputs a n = Some h \<Longrightarrow> h = out n" for n h using ok by (simp add: agent_ok_def outputs_ok_def)
    have fr: "set (pp_correct_io p) \<subseteq> {None}" "length (pp_correct_trail p) = length (pp_trail_field_elements p)"
      using fresh by (auto simp: fresh_proposal_def)
    have "pp_resolved_at p \<noteq> 0 \<or> (\<exists>q. sa_proposals a (pp_parent p) = Some q \<and> is_correct q = Some True)"
    proof (cases "pp_resolved_at p = 0")
      case unresolved: True
      obtain q where "sa_proposals a (pp_parent p) = Some q" "pp_canonical q = Some True"
        using part True unresolved by (cases rule: participation_cases) auto
      moreover have "proposals_ok out d (sa_proposals a)" using ok by (simp add: agent_ok_def)
      ultimately show ?thesis using proposals_okD(2) [of out d "sa_proposals a"] by (auto simp: stored_ok_def)
    qed simp
    moreover obtain par claim io tr where
      "p' = p\<lparr>pp_correct_parent := par, pp_correct_claim := claim, pp_correct_io := io, pp_correct_trail := tr\<rparr>"
      using judged(4) [OF outs fr] by auto
    ultimately show ?thesis
      using judged(1-3) [OF outs fr] canon True ok fresh
      by (auto simp: stored_ok_def agent_ok_def has_parent_def fresh_proposal_def)
  qed
  then show "stored_ok out d p''" "pp_index p'' = pp_index p" "pp_parent p'' = pp_parent p" "pp_successor p'' = None"
    by auto
qed

lemma store_proposal_ok:
  assumes ok: "agent_ok out d a" and p: "stored_ok out d p" "pp_successor p = None" "pp_parent p \<le> pp_index p"
  shows "agent_ok out d (store_proposal p c a)"
proof -
  have ps: "proposals_ok out d (sa_proposals a)" using ok by (simp add: agent_ok_def)
  have "proposals_ok out d (sa_proposals (store_proposal p c a))"
  proof (cases "c \<and> pp_parent p \<noteq> pp_index p")
    case True
    then have less: "pp_parent p < pp_index p" using p(3) by (simp add: order_less_le)
    show ?thesis
    proof (cases "sa_proposals a (pp_parent p)")
      case None
      then show ?thesis using ps p by (auto simp: store_proposal_def intro!: proposals_ok_upd split: bool.splits)
    next
      case (Some q)
      with proposals_okD [OF ps this] ps p True less show ?thesis
        by (auto simp: store_proposal_def intro!: proposals_ok_upd)
    qed
  next
    case False
    then show ?thesis using ps p
      by (auto simp: store_proposal_def intro!: proposals_ok_upd split: bool.splits option.splits)
  qed
  with ok show ?thesis by (simp add: agent_ok_def outputs_ok_def)
qed

lemma settle_proposal_ok:
  assumes ok: "agent_ok out d a" and fresh: "fresh_proposal p" and settle: "settle_proposal a p = (a', r)"
  shows "agent_ok out d a'"
  using settle
proof (cases rule: settle_proposal_cases)
  case (joined b)
  then show ?thesis using participation_ok [OF ok] by blast
next
  case (stored p' p'' a2 correct canonical)
  have ok2: "agent_ok out d a2" using participation_ok [OF ok stored(1)] .
  note v = verdict_ok [OF ok2 fresh stored(1-3)]
  show ?thesis using store_proposal_ok [OF ok2 v(1)] v fresh stored(4) by (simp add: fresh_proposal_def)
qed

section \<open>What every call of \<open>sync\<close> keeps\<close>

text \<open>
  The factory numbers its games in the order of their creation, and a game is created after its
  parent. The node's outputs do not change: they are outputs of safe blocks.
\<close>

definition factory_view :: "chain_view \<Rightarrow> bool" where
  "factory_view v \<longleftrightarrow>
     (\<forall>i. let address = snd (cv_game_at_index v i); t = cv_tournament v address
          in tc_game_index t = i \<and> (tc_parent_game t \<noteq> address \<longrightarrow> tc_parent_game_index t < i))"

definition node_view :: "(u64 \<Rightarrow> B256) \<Rightarrow> chain_view \<Rightarrow> bool" where
  "node_view out v \<longleftrightarrow> cv_output_at_block v = out \<and> factory_view v"

lemma resolve_next_cases:
  assumes "resolve_next v a = r"
  obtains (stays) x where "r = Inl (a, x)"
  | (resolves) i p a' x where "sa_proposals a i = Some p"
      "prune_data (a\<lparr>sa_proposals := (sa_proposals a)(i \<mapsto> p\<lparr>pp_resolved_at := cv_resolved_at v (pp_contract p)\<rparr>),
        sa_cursor := (sa_cursor a)\<lparr>cu_last_resolved_game := i\<rparr>\<rparr>) = (a', x)"
      "r = Inr a' \<or> (\<exists>e. r = Inl (a', Inl e))"
      "\<exists>l. sa_proposals a (cu_last_resolved_game (sa_cursor a)) = Some l \<and> pp_successor l = Some i"
proof (cases "sa_proposals a (cu_last_resolved_game (sa_cursor a))")
  case None
  then show ?thesis using assms stays by (auto simp: resolve_next_def)
next
  case (Some l)
  show ?thesis
  proof (cases "pp_successor l")
    case None
    then show ?thesis using assms Some stays by (auto simp: resolve_next_def)
  next
    case succ: (Some i)
    show ?thesis
    proof (cases "sa_proposals a i")
      case None
      then show ?thesis using assms Some succ stays by (auto simp: resolve_next_def)
    next
      case p: (Some p)
      let ?t = "cv_resolved_at v (pp_contract p)"
      obtain a' x where prune: "prune_data (a\<lparr>sa_proposals := (sa_proposals a)(i \<mapsto> p\<lparr>pp_resolved_at := ?t\<rparr>),
          sa_cursor := (sa_cursor a)\<lparr>cu_last_resolved_game := i\<rparr>\<rparr>) = (a', x)" by fastforce
      show ?thesis
      proof (cases "?t = 0")
        case True
        then show ?thesis using assms Some succ p stays by (auto simp: resolve_next_def)
      next
        case False
        then show ?thesis using assms Some succ p
          by (intro resolves [OF p prune]) (auto simp: resolve_next_def Let_def prune split: sum.splits failure.splits)
      qed
    qed
  qed
qed

text \<open>
  The interface of an invariant of the agent and of the queue of indices delayed in the current
  call: what the four kinds of steps keep, a whole call keeps, whether it fails or not.
\<close>

locale sync_invariant =
  fixes V :: "chain_view \<Rightarrow> bool" and I :: "sync_agent \<Rightarrow> u64 list \<Rightarrow> bool"
  assumes fetching: "V v \<Longrightarrow> I a [] \<Longrightarrow> sync_new_outputs v safe a = (a', u) \<Longrightarrow> I a' []"
    and ending: "V v \<Longrightarrow> I a ds \<Longrightarrow> has_next (sa_cursor a) (cv_game_count v) \<Longrightarrow>
      sync_step v safe a ds = Inl (a', r) \<Longrightarrow> I a' ds"
    and continuing: "V v \<Longrightarrow> I a ds \<Longrightarrow> has_next (sa_cursor a) (cv_game_count v) \<Longrightarrow>
      sync_step v safe a ds = Inr (a', ds') \<Longrightarrow> I a' ds'"
    and requeueing: "I a ds \<Longrightarrow> I (a\<lparr>sa_cursor := load_delayed_indices (sa_cursor a) ds\<rparr>) []"
    and forgetting: "I a ds \<Longrightarrow> I a []"
    and resolving: "I a [] \<Longrightarrow> sa_proposals a i = Some p \<Longrightarrow>
      prune_data (a\<lparr>sa_proposals := (sa_proposals a)(i \<mapsto> p\<lparr>pp_resolved_at := t\<rparr>),
        sa_cursor := (sa_cursor a)\<lparr>cu_last_resolved_game := i\<rparr>\<rparr>) = (a', x) \<Longrightarrow> I a' []"
begin

lemma keeps_loop:
  assumes "V v" and "I a ds" and "sync_loop v safe (cv_game_count v) a ds = (a', r)"
  shows "I a' (case r of Inl _ \<Rightarrow> [] | Inr ds' \<Rightarrow> ds')"
  using assms
proof (induction v safe "cv_game_count v" a ds rule: sync_loop.induct)
  case (1 v safe a ds)
  note loop = "1.prems"(3) [unfolded sync_loop.simps [of v safe _ a ds]]
  show ?case
  proof (cases "has_next (sa_cursor a) (cv_game_count v)")
    case False
    then show ?thesis using loop "1.prems"(2) by auto
  next
    case True
    show ?thesis
    proof (cases "sync_step v safe a ds")
      case (Inl x)
      then have x: "sync_step v safe a ds = Inl (a', r)" using loop True by simp
      obtain cursor index where "next_index (sa_cursor a) = (cursor, index)" by fastforce
      with x have "r = Inr ds \<or> (\<exists>e. r = Inl e)" by (cases rule: sync_step_cases) auto
      moreover have "I a' ds" using ending [OF "1.prems"(1,2) True x] .
      ultimately show ?thesis using forgetting by auto
    next
      case (Inr s)
      then have "I (fst s) (snd s)" using continuing [OF "1.prems"(1,2) True, of safe "fst s" "snd s"] by simp
      moreover have "sync_loop v safe (cv_game_count v) (fst s) (snd s) = (a', r)" using loop True Inr by simp
      ultimately show ?thesis using "1.hyps" [OF _ Inr "1.prems"(1)] True by simp
    qed
  qed
qed

lemma keeps_resolution:
  assumes "I a []" and "resolve_next v a = r"
  shows "I (case r of Inl y \<Rightarrow> fst y | Inr a' \<Rightarrow> a') []"
  using assms(2)
proof (cases rule: resolve_next_cases)
  case (stays x)
  then show ?thesis using assms by simp
next
  case (resolves i p a' x)
  then show ?thesis using resolving [OF assms(1) resolves(1,2)] by (auto split: sum.splits)
qed

lemma keeps_resolutions:
  assumes "sync_resolutions v a = Some y" and "I a []"
  shows "I (fst y) []"
proof -
  have "I a [] \<longrightarrow> I (fst y) []"
  proof (rule sync_resolutions.raw_induct [where P = "\<lambda>v a y. I a [] \<longrightarrow> I (fst y) []", OF _ assms(1)], goal_cases)
    case (1 loop v a y)
    then show ?case using keeps_resolution [of a v, OF _ refl] by (auto split: sum.splits)
  qed
  with assms(2) show ?thesis by simp
qed

lemma keeps_sync:
  assumes V: "V v" and I: "I a []" and sync: "sync v delay final a = Some (a', r)"
  shows "I a' []"
proof (cases "cv_safe_l2 v")
  case None
  then show ?thesis using I sync by (simp add: sync_def)
next
  case (Some n)
  let ?safe = "saturating_sub_u64 n delay"
  obtain a1 r1 where outs: "sync_new_outputs v ?safe a = (a1, r1)" by fastforce
  have ok1: "I a1 []"
    using fetching [OF V I outs] .
  show ?thesis
  proof (cases r1)
    case (Inl e)
    then show ?thesis using sync Some outs ok1 by (simp add: sync_def)
  next
    case (Inr u)
    obtain a2 r2 where loop: "sync_loop v ?safe (cv_game_count v) a1 [] = (a2, r2)" by fastforce
    note ok2 = keeps_loop [OF V ok1 loop]
    show ?thesis
    proof (cases r2)
      case (Inl e)
      then show ?thesis using sync Some outs Inr loop ok2 by (auto simp: sync_def)
    next
      case ds: (Inr ds)
      then have "I (a2\<lparr>sa_cursor := load_delayed_indices (sa_cursor a2) ds\<rparr>) []" using ok2 requeueing by simp
      then show ?thesis using sync Some outs Inr loop ds
        by (auto simp: sync_def dest: keeps_resolutions)
    qed
  qed
qed

end

section \<open>The steps keep the agent's knowledge\<close>

lemma note_output_untouched [simp]:
  "sa_deployment (note_output i h a) = sa_deployment a" "sa_proposals (note_output i h a) = sa_proposals a"
  "sa_db (note_output i h a) = sa_db a"
  "cu_next_factory_index (sa_cursor (note_output i h a)) = cu_next_factory_index (sa_cursor a)"
  "cu_delayed_factory_indices (sa_cursor (note_output i h a)) = cu_delayed_factory_indices (sa_cursor a)"
  by (simp_all add: note_output_def)

text \<open>Fetching outputs touches only outputs, and only with what the node answers.\<close>

definition fetched_outputs :: "(u64 \<Rightarrow> B256) \<Rightarrow> sync_agent \<Rightarrow> sync_agent \<Rightarrow> bool" where
  "fetched_outputs out a a' \<longleftrightarrow>
     sa_deployment a' = sa_deployment a \<and> sa_proposals a' = sa_proposals a \<and>
     cu_next_factory_index (sa_cursor a') = cu_next_factory_index (sa_cursor a) \<and>
     cu_delayed_factory_indices (sa_cursor a') = cu_delayed_factory_indices (sa_cursor a) \<and>
     (outputs_ok out a \<longrightarrow> outputs_ok out a')"

lemma fetched_outputs_refl [simp]: "fetched_outputs out a a"
  by (simp add: fetched_outputs_def)

lemma fetched_outputs_trans: "fetched_outputs out a b \<Longrightarrow> fetched_outputs out b c \<Longrightarrow> fetched_outputs out a c"
  by (simp add: fetched_outputs_def)

lemma load_persisted_fetches: "fetched_outputs out a (load_persisted is a)"
proof (induction "is" arbitrary: a)
  case (Cons i js)
  let ?b = "case sa_db a i of Some output \<Rightarrow> note_output i output a | None \<Rightarrow> a"
  have "fetched_outputs out a ?b"
    by (auto simp: fetched_outputs_def outputs_ok_def note_output_def split: option.splits)
  then show ?case using fetched_outputs_trans Cons.IH [of ?b] by (simp add: load_persisted_def)
qed (simp add: load_persisted_def)

lemma store_outputs_fetches: "fetched_outputs out a (store_outputs (map (\<lambda>i. (i, out i)) is) a)"
proof (induction "is" arbitrary: a)
  case (Cons i js)
  let ?b = "note_output i (out i) (a\<lparr>sa_db := (sa_db a)(i \<mapsto> out i)\<rparr>)"
  have "fetched_outputs out a ?b"
    by (auto simp: fetched_outputs_def outputs_ok_def note_output_def)
  then show ?case using fetched_outputs_trans Cons.IH [of ?b] by (simp add: store_outputs_def)
qed (simp add: store_outputs_def)

lemma fetch_chunk_fetches: "fetched_outputs out a (fetch_chunk out start stop step a)"
  unfolding fetch_chunk_def Let_def
  by (rule fetched_outputs_trans [OF load_persisted_fetches store_outputs_fetches])

lemma sync_outputs_fetches: "fetched_outputs out a (fst (sync_outputs out a start stop step))"
proof (induction out a start stop step rule: sync_outputs.induct)
  case (1 out a start stop step)
  show ?case
    by (subst sync_outputs.simps)
      (auto simp: Let_def fetch_chunk_fetches split: sum.splits
        intro: fetched_outputs_trans [OF fetch_chunk_fetches] "1.IH")
qed

lemma new_outputs_fetches: "fetched_outputs (cv_output_at_block v) a (fst (sync_new_outputs v safe a))"
  by (auto simp: sync_new_outputs_def Let_def sync_outputs_fetches split: sum.splits prod.splits)

text \<open>Freeing data only removes.\<close>

definition shrunk :: "sync_agent \<Rightarrow> sync_agent \<Rightarrow> bool" where
  "shrunk a a' \<longleftrightarrow>
     sa_deployment a' = sa_deployment a \<and> sa_outputs a' \<subseteq>\<^sub>m sa_outputs a \<and> sa_db a' \<subseteq>\<^sub>m sa_db a \<and>
     sa_proposals a' \<subseteq>\<^sub>m sa_proposals a \<and>
     cu_next_factory_index (sa_cursor a') = cu_next_factory_index (sa_cursor a) \<and>
     cu_last_resolved_game (sa_cursor a') = cu_last_resolved_game (sa_cursor a) \<and>
     set (cu_delayed_factory_indices (sa_cursor a')) \<subseteq> set (cu_delayed_factory_indices (sa_cursor a)) \<and>
     (distinct (cu_delayed_factory_indices (sa_cursor a)) \<longrightarrow> distinct (cu_delayed_factory_indices (sa_cursor a')))"

lemma shrunk_refl [simp]: "shrunk a a"
  by (simp add: shrunk_def)

lemma shrunk_trans: "shrunk a b \<Longrightarrow> shrunk b c \<Longrightarrow> shrunk a c"
  by (auto simp: shrunk_def intro: map_le_trans)

lemma prune_outputs_shrinks: "shrunk a (fst (prune_outputs a earliest i))"
proof (induction a earliest i rule: prune_outputs.induct)
  case (1 a earliest i)
  have drop: "shrunk a (a\<lparr>sa_outputs := (sa_outputs a)(n := None), sa_db := (sa_db a)(n := None)\<rparr>)" for n
    by (simp add: shrunk_def map_le_def)
  show ?case
    by (subst prune_outputs.simps) (auto simp: Let_def split: sum.splits intro: shrunk_trans [OF drop "1.IH"])
qed

lemma prune_l1_heads_shrinks [simp]: "shrunk a (prune_l1_heads n a)"
  by (simp add: prune_l1_heads_def shrunk_def Let_def)

lemma prune_data_shrinks: "shrunk a (fst (prune_data a))"
proof (cases "first_key (sa_proposals a)")
  case None
  then show ?thesis by (simp add: prune_data_def)
next
  case (Some e)
  define b where "b = (let last_resolved = cu_last_resolved_game (sa_cursor a);
      proposals = dom (sa_proposals a) \<inter> {e..<last_resolved}
    in a\<lparr>sa_proposals := sa_proposals a |` (- proposals), sa_cursor := (sa_cursor a)\<lparr>cu_delayed_factory_indices :=
         filter (\<lambda>i. last_resolved \<le> i) (cu_delayed_factory_indices (sa_cursor a))\<rparr>\<rparr>)"
  have b: "shrunk a b" by (auto simp: b_def shrunk_def map_le_def Let_def)
  have outs: "shrunk b x" if "prune_outputs b e i = (x, y)" for e i x y
    using prune_outputs_shrinks [of b e i] that by simp
  have "shrunk b (fst (prune_data a))"
    unfolding prune_data_def Some option.case Let_def b_def [unfolded Let_def, symmetric]
    by (auto split: option.splits sum.splits prod.splits intro: outs shrunk_trans [OF outs prune_l1_heads_shrinks])
  with b show ?thesis by (rule shrunk_trans)
qed

lemma agent_ok_shrunk: "agent_ok out d a \<Longrightarrow> shrunk a a' \<Longrightarrow> agent_ok out d a'"
  unfolding agent_ok_def outputs_ok_def proposals_ok_def shrunk_def map_le_def by (metis domI)

lemma agent_ok_kept: "agent_ok out d a \<Longrightarrow> kept a a' \<Longrightarrow> agent_ok out d a'"
  by (simp add: agent_ok_def outputs_ok_def kept_def)

lemma agent_ok_cursor [simp]: "agent_ok out d (a\<lparr>sa_cursor := c\<rparr>) = agent_ok out d a"
  by (simp add: agent_ok_def outputs_ok_def)

lemma agent_ok_advance: "advance i a = Inr a' \<Longrightarrow> agent_ok out d a' = agent_ok out d a"
  by (auto simp: advance_def res_simps split: if_splits)

lemma sync_proposal_ok:
  assumes "factory_view v" and ok: "agent_ok out d a" and "sync_proposal v a i = (a', r)"
  shows "agent_ok out d a'"
  using assms(3)
proof (cases rule: sync_proposal_cases)
  case (noted q)
  then show ?thesis using ok by (simp add: agent_ok_def outputs_ok_def)
next
  case (settled p)
  have "fresh_proposal p"
    by (rule load_proposal_fresh(2) [OF settled(1)]) (use assms(1) in \<open>auto simp: factory_view_def Let_def\<close>)
  moreover have "agent_ok out d (note_elimination v (pp_proposer p) a)"
    using ok by (simp add: agent_ok_def outputs_ok_def)
  ultimately show ?thesis using settled(3) settle_proposal_ok by blast
qed (use ok in simp)

lemma handled_ok:
  assumes "node_view out v" and "agent_ok out d a" and "sync_proposal v (a\<lparr>sa_cursor := c\<rparr>) i = (a1, res)" and "kept a1 a2"
  shows "agent_ok out d a2"
  using sync_proposal_ok [of v out d "a\<lparr>sa_cursor := c\<rparr>" i a1 res] assms agent_ok_kept by (auto simp: node_view_def)

interpretation knowledge: sync_invariant "node_view out" "\<lambda>a _. agent_ok out d a"
proof unfold_locales
  fix v a safe a' u
  assume "node_view out v" "agent_ok out d a" "sync_new_outputs v safe a = (a', u)"
  then show "agent_ok out d a'"
    using new_outputs_fetches [of v a safe] by (simp add: node_view_def fetched_outputs_def agent_ok_def)
next
  fix v a ds safe a' r
  assume ok: "node_view out v" "agent_ok out d a" and step: "sync_step v safe a ds = Inl (a', r)"
  obtain c i where "next_index (sa_cursor a) = (c, i)" by fastforce
  with step show "agent_ok out d a'"
    by (cases rule: sync_step_cases) (auto intro: handled_ok [OF ok])
next
  fix v a ds safe a' ds'
  assume ok: "node_view out v" "agent_ok out d a" and step: "sync_step v safe a ds = Inr (a', ds')"
  obtain c i where "next_index (sa_cursor a) = (c, i)" by fastforce
  with step show "agent_ok out d a'"
    by (cases rule: sync_step_cases) (auto simp: agent_ok_advance intro: handled_ok [OF ok])
next
  fix a i p t a' x
  assume ok: "agent_ok out d a" and p: "sa_proposals a i = Some p" and
    prune: "prune_data (a\<lparr>sa_proposals := (sa_proposals a)(i \<mapsto> p\<lparr>pp_resolved_at := t\<rparr>),
        sa_cursor := (sa_cursor a)\<lparr>cu_last_resolved_game := i\<rparr>\<rparr>) = (a', x)" (is "prune_data ?a = _")
  have "agent_ok out d ?a"
    using ok p proposals_okD [of out d "sa_proposals a", OF _ p]
    by (auto simp: agent_ok_def outputs_ok_def intro!: proposals_ok_upd)
  moreover have "shrunk ?a a'" using prune_data_shrinks [of ?a] by (simp add: prune)
  ultimately show "agent_ok out d a'" by (rule agent_ok_shrunk)
qed simp_all

section \<open>The queue of proposals\<close>

text \<open>Stored and delayed proposals lie before the next index of the factory.\<close>

definition queue_ok :: "sync_agent \<Rightarrow> u64 list \<Rightarrow> bool" where
  "queue_ok a ds \<longleftrightarrow>
     (\<forall>k \<in> dom (sa_proposals a). k < cu_next_factory_index (sa_cursor a)) \<and>
     (\<forall>i \<in> set (cu_delayed_factory_indices (sa_cursor a)) \<union> set ds. i < cu_next_factory_index (sa_cursor a))"

lemma assess_correctness_index: "assess_correctness a p = Inr (p', c) \<Longrightarrow> pp_index p' = pp_index p"
  by (auto simp: assess_correctness_def res_simps Let_def split: if_splits option.splits)

lemma participation_dom: "determine_tournament_participation a p = (a', r) \<Longrightarrow> dom (sa_proposals a') = dom (sa_proposals a)"
  by (erule participation_cases) auto

lemma store_proposal_dom: "dom (sa_proposals (store_proposal p c a)) = insert (pp_index p) (dom (sa_proposals a))"
  by (auto simp: store_proposal_def Let_def split: bool.splits option.splits if_splits)

lemma sync_proposal_dom:
  assumes "factory_view v" and "sync_proposal v a i = (a', r)"
  shows "dom (sa_proposals a') = dom (sa_proposals a) \<union> (if succeeded r then {i} else {})"
  using assms(2)
proof (cases rule: sync_proposal_cases)
  case (settled p)
  have "pp_index p = i"
    using load_proposal_fresh(1) [OF settled(1)] assms(1) by (auto simp: factory_view_def Let_def)
  with settled(3) show ?thesis
    by (cases rule: settle_proposal_cases)
      (auto simp: store_proposal_dom participation_dom dest!: assess_correctness_index determine_if_canonical_Some(1))
qed auto

lemma next_index_cases:
  assumes "next_index c = (c', i)" and "has_next c n"
  obtains (delayed) rest where "cu_delayed_factory_indices c = i # rest" "c' = c\<lparr>cu_delayed_factory_indices := rest\<rparr>"
  | (new) "cu_delayed_factory_indices c = []" "c' = c" "i = cu_next_factory_index c" "i < n"
  using assms by (auto simp: next_index_def has_next_def split: list.splits)

text \<open>The state in which a step hands over the next proposal, and the state after it was handled.\<close>

lemma queue_step:
  assumes ok: "queue_ok a ds" and v: "factory_view v" and hn: "has_next (sa_cursor a) n"
    and ni: "next_index (sa_cursor a) = (c, i)" and sp: "sync_proposal v (a\<lparr>sa_cursor := c\<rparr>) i = (a1, res)"
    and kept: "kept a1 a2"
  shows "i \<noteq> cu_next_factory_index (sa_cursor a2) \<Longrightarrow> queue_ok a2 (ds @ [i])"
    "i = cu_next_factory_index (sa_cursor a2) \<Longrightarrow> \<not> succeeded res \<Longrightarrow> queue_ok a2 ds"
    "advance i a2 = Inr a3 \<Longrightarrow> queue_ok a3 (ds @ [i])"
    "advance i a2 \<noteq> Inl e"
    "cu_next_factory_index (sa_cursor a2) = cu_next_factory_index (sa_cursor a)"
proof -
  have dom: "dom (sa_proposals a2) = dom (sa_proposals a) \<union> (if succeeded res then {i} else {})"
    using sync_proposal_dom [OF v sp] kept by (simp add: kept_def)
  have cur: "cu_next_factory_index (sa_cursor a2) = cu_next_factory_index c"
      "cu_delayed_factory_indices (sa_cursor a2) = cu_delayed_factory_indices c"
    using sync_proposal_keeps [OF sp] kept by (simp_all add: kept_def)
  have c: "cu_next_factory_index c = cu_next_factory_index (sa_cursor a)"
      "set (cu_delayed_factory_indices c) \<subseteq> set (cu_delayed_factory_indices (sa_cursor a))"
      "i < cu_next_factory_index (sa_cursor a) \<or> i = cu_next_factory_index (sa_cursor a) \<and> i < n"
    using ni hn ok by (auto elim!: next_index_cases simp: queue_ok_def)
  show "cu_next_factory_index (sa_cursor a2) = cu_next_factory_index (sa_cursor a)" using cur c by simp
  show "i \<noteq> cu_next_factory_index (sa_cursor a2) \<Longrightarrow> queue_ok a2 (ds @ [i])"
    using ok dom cur c by (auto simp: queue_ok_def)
  show "i = cu_next_factory_index (sa_cursor a2) \<Longrightarrow> \<not> succeeded res \<Longrightarrow> queue_ok a2 ds"
    using ok dom cur c by (auto simp: queue_ok_def)
  have no_overflow: "unat i + 1 < 2 ^ 64" if "i = cu_next_factory_index (sa_cursor a)"
  proof -
    have "unat i < unat n" using c(3) that by (auto simp: word_less_nat_alt)
    with unat_u64_bound [of n] have "unat i + 1 < 18446744073709551616" by linarith
    then show ?thesis by simp
  qed
  then show "advance i a2 \<noteq> Inl e" using cur c by (auto simp: advance_def add_u64_def)
  show "queue_ok a3 (ds @ [i])" if "advance i a2 = Inr a3"
  proof (cases "i = cu_next_factory_index (sa_cursor a)")
    case True
    have "k < i \<Longrightarrow> k < i + 1" "i < i + 1" for k
      using no_overflow [OF True] by (simp_all add: word_less_nat_alt unat_word_ariths)
    moreover have "\<forall>k \<in> dom (sa_proposals a2). k < i \<or> k = i" "\<forall>j \<in> set (cu_delayed_factory_indices c) \<union> set ds. j < i"
      using True ok dom c by (auto simp: queue_ok_def)
    ultimately have "\<forall>k \<in> dom (sa_proposals a2). k < i + 1" "\<forall>j \<in> set (cu_delayed_factory_indices c) \<union> set (ds @ [i]). j < i + 1"
      by auto
    moreover have "a3 = a2\<lparr>sa_cursor := (sa_cursor a2)\<lparr>cu_next_factory_index := i + 1\<rparr>\<rparr>"
      using that True cur c by (auto simp: advance_def res_simps add_u64_def split: if_splits)
    ultimately show ?thesis using cur by (simp add: queue_ok_def)
  next
    case False
    then show ?thesis using that ok dom cur c by (auto simp: queue_ok_def advance_def)
  qed
qed

lemma queue_ok_less: "queue_ok a (ds @ ds') \<Longrightarrow> queue_ok a ds"
  by (auto simp: queue_ok_def)

lemma queue_ok_shrunk:
  assumes "shrunk a a'" and "queue_ok a ds"
  shows "queue_ok a' ds"
proof -
  have "dom (sa_proposals a') \<subseteq> dom (sa_proposals a)" using assms(1) by (simp add: shrunk_def map_le_implies_dom_le)
  with assms show ?thesis unfolding queue_ok_def shrunk_def by auto
qed

interpretation queue: sync_invariant factory_view queue_ok
proof unfold_locales
  fix v a safe a' u
  assume "queue_ok a []" "sync_new_outputs v safe a = (a', u)"
  then show "queue_ok a' []"
    using new_outputs_fetches [of v a safe] by (simp add: fetched_outputs_def queue_ok_def)
next
  fix v a ds safe a' r
  assume v: "factory_view v" and ok: "queue_ok a ds" and n: "has_next (sa_cursor a) (cv_game_count v)"
    and step: "sync_step v safe a ds = Inl (a', r)"
  obtain c i where ni: "next_index (sa_cursor a) = (c, i)" by fastforce
  from step ni show "queue_ok a' ds"
  proof (cases rule: sync_step_cases)
    case (ends a1 res b x)
    note q = queue_step [OF ok v n ni ends(1)]
    have "i \<in> dom (sa_proposals a1)" if "succeeded res" using sync_proposal_dom [OF v ends(1)] that by auto
    moreover have "cu_next_factory_index (sa_cursor a1) = cu_next_factory_index c"
      using sync_proposal_keeps [OF ends(1)] by simp
    ultimately have "i \<noteq> cu_next_factory_index (sa_cursor a1) \<or> \<not> succeeded res"
      using ends(5) q(4) [OF kept_simps(1)] by auto
    then show ?thesis using q(1,2,5) [OF ends(2)] q(5) [OF kept_simps(1)] queue_ok_less ends(3) by fastforce
  qed simp
next
  fix v a ds safe a' ds'
  assume v: "factory_view v" and ok: "queue_ok a ds" and n: "has_next (sa_cursor a) (cv_game_count v)"
    and step: "sync_step v safe a ds = Inr (a', ds')"
  obtain c i where ni: "next_index (sa_cursor a) = (c, i)" by fastforce
  from step ni show "queue_ok a' ds'"
    by (cases rule: sync_step_cases) (auto intro: queue_step(3) [OF ok v n ni] queue_ok_less)
next
  fix a i p t a' x
  assume ok: "queue_ok a []" and p: "sa_proposals a i = Some p" and
    prune: "prune_data (a\<lparr>sa_proposals := (sa_proposals a)(i \<mapsto> p\<lparr>pp_resolved_at := t\<rparr>),
        sa_cursor := (sa_cursor a)\<lparr>cu_last_resolved_game := i\<rparr>\<rparr>) = (a', x)" (is "prune_data ?a = _")
  have "shrunk ?a a'" using prune_data_shrinks [of ?a] by (simp add: prune)
  moreover have "queue_ok ?a []" using ok p by (auto simp: queue_ok_def)
  ultimately show "queue_ok a' []" by (rule queue_ok_shrunk)
qed (auto simp: queue_ok_def load_delayed_indices_def)

section \<open>Reachable agents\<close>

text \<open>
  An agent starts with an empty memory, a database of outputs of the node and the cursor of an anchor
  game, and calls \<open>sync\<close> again and again, also after failures; the chain may be different each time.
\<close>

inductive agent_reach :: "(u64 \<Rightarrow> B256) \<Rightarrow> sync_deployment \<Rightarrow> sync_agent \<Rightarrow> bool" for out d where
  start: "(\<forall>n \<in> dom db. db n = Some (out n)) \<Longrightarrow> cu_delayed_factory_indices c = [] \<Longrightarrow> agent_reach out d (agent_new d db c)"
| call: "agent_reach out d a \<Longrightarrow> node_view out v \<Longrightarrow> sync v delay final a = Some (a', r) \<Longrightarrow> agent_reach out d a'"

lemma reach_ok: "agent_reach out d a \<Longrightarrow> agent_ok out d a"
proof (induction rule: agent_reach.induct)
  case (start db c)
  then show ?case by (force simp: agent_new_def agent_ok_def outputs_ok_def proposals_ok_def)
next
  case (call a v delay final a' r)
  then show ?case by (blast intro: knowledge.keeps_sync)
qed

lemma reach_queue: "agent_reach out d a \<Longrightarrow> queue_ok a []"
proof (induction rule: agent_reach.induct)
  case (start db c)
  then show ?case by (simp add: agent_new_def queue_ok_def)
next
  case (call a v delay final a' r)
  then show ?case by (auto simp: node_view_def intro: queue.keeps_sync)
qed

text \<open>The loop over resolutions climbs the indices of the stored proposals.\<close>

lemma sync_resolutions_return:
  assumes "agent_ok out d a"
  shows "\<exists>y. sync_resolutions v a = Some y"
  using assms
proof (induction "2 ^ 64 - unat (cu_last_resolved_game (sa_cursor a))" arbitrary: a rule: less_induct)
  case less
  show ?case
  proof (cases "resolve_next v a")
    case (Inl y)
    then show ?thesis by (simp add: sync_resolutions.simps)
  next
    case (Inr a')
    then obtain i p x l where step: "prune_data (a\<lparr>sa_proposals := (sa_proposals a)(i \<mapsto> p\<lparr>pp_resolved_at := cv_resolved_at v (pp_contract p)\<rparr>),
        sa_cursor := (sa_cursor a)\<lparr>cu_last_resolved_game := i\<rparr>\<rparr>) = (a', x)"
        "sa_proposals a (cu_last_resolved_game (sa_cursor a)) = Some l" "pp_successor l = Some i"
      by (cases rule: resolve_next_cases) auto
    have ok: "agent_ok out d a'" using knowledge.keeps_resolution [OF less.prems Inr] by simp
    have "cu_last_resolved_game (sa_cursor a') = i"
      using prune_data_shrinks [of "a\<lparr>sa_proposals := (sa_proposals a)(i \<mapsto> p\<lparr>pp_resolved_at := cv_resolved_at v (pp_contract p)\<rparr>),
        sa_cursor := (sa_cursor a)\<lparr>cu_last_resolved_game := i\<rparr>\<rparr>"] unfolding step(1) by (simp add: shrunk_def)
    moreover have "cu_last_resolved_game (sa_cursor a) < i"
      using less.prems step(2,3) proposals_okD(3) by (fastforce simp: agent_ok_def)
    ultimately have "2 ^ 64 - unat (cu_last_resolved_game (sa_cursor a')) < 2 ^ 64 - unat (cu_last_resolved_game (sa_cursor a))"
      using unat_u64_bound [of "cu_last_resolved_game (sa_cursor a)"]
      by (intro diff_less_mono2) (simp_all add: word_less_nat_alt)
    from less.hyps [OF this ok] show ?thesis using Inr by (simp add: sync_resolutions.simps)
  qed
qed

lemma sync_total:
  assumes "agent_ok out d a" and "node_view out v"
  shows "\<exists>a' r. sync v delay final a = Some (a', r)"
proof (cases "cv_safe_l2 v")
  case None
  then show ?thesis by (simp add: sync_def)
next
  case (Some n)
  let ?safe = "saturating_sub_u64 n delay"
  obtain a1 r1 where outs: "sync_new_outputs v ?safe a = (a1, r1)" by fastforce
  have ok1: "agent_ok out d a1" using knowledge.fetching [OF assms(2,1) outs] .
  obtain a2 r2 where loop: "sync_loop v ?safe (cv_game_count v) a1 [] = (a2, r2)" by fastforce
  have ok2: "agent_ok out d a2" using knowledge.keeps_loop [OF assms(2) ok1 loop] .
  show ?thesis
  proof (cases "\<exists>u ds. r1 = Inr u \<and> r2 = Inr ds")
    case False
    then show ?thesis using Some outs loop by (auto simp: sync_def split: sum.splits)
  next
    case True
    then obtain u ds where rs: "r1 = Inr u" "r2 = Inr ds" by auto
    obtain y where "sync_resolutions v (a2\<lparr>sa_cursor := load_delayed_indices (sa_cursor a2) ds\<rparr>) = Some y"
      using sync_resolutions_return [of out d "a2\<lparr>sa_cursor := load_delayed_indices (sa_cursor a2) ds\<rparr>" v] ok2 by auto
    then show ?thesis using Some outs loop rs by (cases y) (simp add: sync_def)
  qed
qed

end
