(* ===== verification/Validator.thy ===== *)
theory Validator
  imports Sync_Verdicts Tasks
begin

text \<open>
  The validator's side of disputes (\<open>src/crates/validator/src\<close>): which proofs it decides to make for
  newly loaded proposals (\<open>proposals/processing.rs\<close>), when it dispatches their requests and with
  which L1 head (\<open>proposals/dispatch.rs\<close>, \<open>proposals/mod.rs\<close>), what a request asks for and the
  proving arguments made of it (\<open>requests.rs\<close>, \<open>channel.rs\<close>).

  A \<open>validator_view\<close> holds the answers of nodes, contracts, clock and random numbers during one round
  of the validator's loop. Logging and metrics are left out. A buffer is a binary heap of pairs of
  a time and an index, here the list of its elements; the earliest time comes first, and of equal
  times the largest index.
\<close>

section \<open>Data\<close>

datatype 'rc message =
  Proposal_Message
    (mp_index: u64)
    (mp_precondition_validation_data: "precondition_validation_data option")
    (mp_l1_head: B256)
    (mp_agreed_l2_head_hash: B256)
    (mp_agreed_l2_output_root: B256)
    (mp_claimed_l2_block_number: u64)
    (mp_claimed_l2_output_root: B256)
| Proof_Message u64 "'rc option"

record validate_args =
  va_final_l2_block :: "u64 option"
  va_fast_forward_start :: u64
  va_fast_forward_target :: u64
  va_max_fault_proving_delay :: u64
  va_max_validity_proving_delay :: u64

record validator_view =
  vv_now :: u64
  vv_random :: "u64 \<Rightarrow> u64"
  vv_l2_block_hash :: "u64 \<Rightarrow> B256 result"
  vv_next_l1_block :: "B256 \<Rightarrow> block_info result"
  vv_proof_status :: "Address \<Rightarrow> B256 \<Rightarrow> byte"
  vv_valid_child_signature :: "Address \<Rightarrow> B256"
  vv_channel_open :: bool

type_synonym buffer = "(u64 \<times> u64) list"

record validator_buffers =
  vb_validity :: buffer
  vb_output_fault :: buffer
  vb_trail_fault :: buffer

definition heap_before :: "u64 \<times> u64 \<Rightarrow> u64 \<times> u64 \<Rightarrow> bool" where
  "heap_before x y \<longleftrightarrow> fst x < fst y \<or> fst x = fst y \<and> snd y \<le> snd x"

fun heap_peek :: "buffer \<Rightarrow> (u64 \<times> u64) option" where
  "heap_peek [] = None"
| "heap_peek (x # xs) =
     (case heap_peek xs of None \<Rightarrow> Some x | Some y \<Rightarrow> Some (if heap_before x y then x else y))"

definition fetch_is_successor_validity_proven :: "validator_view \<Rightarrow> proposal \<Rightarrow> bool" where
  "fetch_is_successor_validity_proven w p \<longleftrightarrow> vv_valid_child_signature w (pp_contract p) \<noteq> 0"

section \<open>Deciding what to prove\<close>

text \<open>Is there an earlier child of the parent, of a proposer not eliminated before it, with a property?\<close>

definition prior_sibling :: "sync_agent \<Rightarrow> proposal \<Rightarrow> u64 \<Rightarrow> (proposal \<Rightarrow> bool) \<Rightarrow> bool" where
  "prior_sibling a parent proposal_index holds \<longleftrightarrow>
     (\<exists>i \<in> pp_children parent. i < proposal_index \<and>
        (case sa_proposals a i of
           None \<Rightarrow> False
         | Some predecessor \<Rightarrow> \<not> was_proposer_eliminated_before a predecessor \<and> holds predecessor))"

datatype decision = Skip | Prove_Validity u64 u64 | Prove_Output_Fault | Prove_Trail_Fault

text \<open>With one output per proposal, validity proofs settle disputes.\<close>

definition decide_single_output :: "validate_args \<Rightarrow> sync_agent \<Rightarrow> proposal \<Rightarrow> proposal \<Rightarrow> u64 \<Rightarrow> decision" where
  "decide_single_output args a parent p proposal_index =
     (let is_prior_fault = prior_sibling a parent proposal_index (\<lambda>q. is_correct q \<noteq> Some True)
      in case pp_successor parent of
           None \<Rightarrow> Skip
         | Some s \<Rightarrow>
             if s = pp_index p \<and> is_prior_fault then Prove_Validity s (va_max_fault_proving_delay args)
             else if s = pp_index p then Skip
             else if is_correct p = Some False \<and> \<not> is_prior_fault
             then Prove_Validity s (va_max_fault_proving_delay args)
             else Skip)"

definition decide_fault :: "validator_view \<Rightarrow> sync_agent \<Rightarrow> proposal \<Rightarrow> proposal \<Rightarrow> u64 \<Rightarrow> decision" where
  "decide_fault w a parent p proposal_index =
     (if prior_sibling a parent proposal_index (\<lambda>q. pp_signature q = pp_signature p) then Skip
      else if is_correct p = Some True then Skip
      else if vv_proof_status w (pp_contract parent) (pp_signature p) \<noteq> 0 then Skip
      else case fault_of p of
             None \<Rightarrow> Skip
           | Some fault \<Rightarrow> if is_output fault then Prove_Output_Fault else Prove_Trail_Fault)"

definition decide :: "validate_args \<Rightarrow> validator_view \<Rightarrow> sync_agent \<Rightarrow> u64 \<Rightarrow> decision" where
  "decide args w a proposal_index =
     (case sa_proposals a proposal_index of
        None \<Rightarrow> Skip
      | Some p \<Rightarrow>
          if \<not> has_parent p then Skip
          else if pp_resolved_at p \<noteq> 0 then Skip
          else (case sa_proposals a (pp_parent p) of
              None \<Rightarrow> Skip
            | Some parent \<Rightarrow>
                if (case va_final_l2_block args of None \<Rightarrow> False | Some n \<Rightarrow> n \<le> pp_output_block_number parent) then Skip
                else if fetch_is_successor_validity_proven w parent then Skip
                else (case pp_canonical p of
                    None \<Rightarrow> Skip
                  | Some is_proposal_canonical \<Rightarrow>
                      let fast_forward = va_fast_forward_start args \<le> pp_output_block_number p \<and>
                            pp_output_block_number p \<le> va_fast_forward_target args
                      in if fast_forward \<and> is_proposal_canonical
                         then Prove_Validity proposal_index (va_max_validity_proving_delay args)
                         else if fast_forward \<and> pp_successor parent \<noteq> None then Skip
                         else if dp_proposal_output_count (sa_deployment a) = 1
                         then decide_single_output args a parent p proposal_index
                         else decide_fault w a parent p proposal_index)))"

definition random_processing_time :: "validator_view \<Rightarrow> u64 \<Rightarrow> u64 \<Rightarrow> u64 result" where
  "random_processing_time w proposal_index max_seconds =
     add_u64 host (vv_now w) (min max_seconds (vv_random w proposal_index))"

definition process_proposal ::
  "validate_args \<Rightarrow> validator_view \<Rightarrow> sync_agent \<Rightarrow> validator_buffers \<Rightarrow> u64 \<Rightarrow> validator_buffers result" where
  "process_proposal args w a b proposal_index =
     (case decide args w a proposal_index of
        Skip \<Rightarrow> Inr b
      | Prove_Validity i max_delay \<Rightarrow>
          and_then (random_processing_time w proposal_index max_delay) (\<lambda>t.
          Inr (b\<lparr>vb_validity := (t, i) # vb_validity b\<rparr>))
      | Prove_Output_Fault \<Rightarrow>
          and_then (random_processing_time w proposal_index (va_max_fault_proving_delay args)) (\<lambda>t.
          Inr (b\<lparr>vb_output_fault := (t, proposal_index) # vb_output_fault b\<rparr>))
      | Prove_Trail_Fault \<Rightarrow>
          and_then (random_processing_time w proposal_index (va_max_fault_proving_delay args)) (\<lambda>t.
          Inr (b\<lparr>vb_trail_fault := (t, proposal_index) # vb_trail_fault b\<rparr>)))"

definition process_proposals ::
  "validate_args \<Rightarrow> validator_view \<Rightarrow> sync_agent \<Rightarrow> u64 list \<Rightarrow> validator_buffers \<Rightarrow> validator_buffers result" where
  "process_proposals args w a loaded_proposals b = try_fold (process_proposal args w a) b loaded_proposals"

section \<open>Requests\<close>

text \<open>The L1 head of the proposal at first, afterwards the next known one after the last used.\<close>

definition get_next_l1_head ::
  "sync_agent \<Rightarrow> (u64 \<rightharpoonup> u64) \<Rightarrow> proposal \<Rightarrow> ((u64 \<rightharpoonup> u64) \<times> B256 option) result" where
  "get_next_l1_head a last_proof_l1_head p =
     and_then
       (case last_proof_l1_head (pp_index p) of
          None \<Rightarrow> Inr (Some (pp_l1_head p))
        | Some last_block_no \<Rightarrow>
            and_then (add_u64 host last_block_no 1) (\<lambda>from.
            Inr (map_option (\<lambda>n. snd (the (sa_l1_heads a n))) (first_key (sa_l1_heads a |` {n. from \<le> n})))))
       (\<lambda>l1_head. case l1_head of
          None \<Rightarrow> Inr (last_proof_l1_head, None)
        | Some l1_head \<Rightarrow>
            and_then (unwrap_opt (sa_l1_heads_inv a l1_head) ''Missing l1 head from db'') (\<lambda>(_, block_no).
            Inr (last_proof_l1_head(pp_index p \<mapsto> block_no), Some l1_head)))"

definition send :: "validator_view \<Rightarrow> 'rc message \<Rightarrow> 'rc message result" where
  "send w m = (if vv_channel_open w then Inr m else bail ''channel closed'')"

definition request_fault_proof ::
  "validator_view \<Rightarrow> sync_agent \<Rightarrow> proposal \<Rightarrow> proposal \<Rightarrow> B256 \<Rightarrow> 'rc message result" where
  "request_fault_proof w a parent p l1_head =
     (case fault_of p of
        None \<Rightarrow> bail ''Proposal does not diverge from canon.''
      | Some fault \<Rightarrow>
          let span = dp_output_block_span (sa_deployment a)
          in and_then (mul_u64 host span (of_nat (divergence_point fault))) (\<lambda>offset.
             and_then (add_u64 host (pp_output_block_number parent) offset) (\<lambda>agreed_l2_head_number.
             and_then (vv_l2_block_hash w agreed_l2_head_number) (\<lambda>agreed_l2_head_hash.
             case sa_outputs a agreed_l2_head_number of
               None \<Rightarrow> bail ''Output root for agreed block not in memory.''
             | Some agreed_l2_output_root \<Rightarrow>
                 and_then (add_u64 host agreed_l2_head_number span) (\<lambda>claimed_l2_block_number.
                 case sa_outputs a claimed_l2_block_number of
                   None \<Rightarrow> bail ''Output root for claimed block not in memory.''
                 | Some claimed_l2_output_root \<Rightarrow>
                     send w (Proposal_Message (pp_index p) None l1_head agreed_l2_head_hash
                       agreed_l2_output_root claimed_l2_block_number claimed_l2_output_root))))))"

text \<open>As everywhere on the host, the released build: overflow checks are on, debug assertions are not compiled.\<close>

definition validity_precondition ::
  "validator_view \<Rightarrow> sync_agent \<Rightarrow> proposal \<Rightarrow> proposal \<Rightarrow> precondition_validation_data option result" where
  "validity_precondition w a parent p =
     (if 1 < dp_proposal_output_count (sa_deployment a)
      then and_then (try_map (\<lambda>(blob_hash, blob).
             and_then (err_context (vv_next_l1_block w (pp_l1_head p)) ''block'') (\<lambda>block.
             Inr \<lparr>bfr_block_ref = block,
                  bfr_blob_hash = \<lparr>ih_index = bd_index blob, ih_hash = blob_hash\<rparr>\<rparr>)) (pp_io_blobs p)) (\<lambda>validated_blobs.
           Inr (Some (Validity (pp_output_block_number parent) (dp_proposal_output_count (sa_deployment a))
             (dp_output_block_span (sa_deployment a)) validated_blobs)))
      else Inr None)"

definition request_validity_proof ::
  "validator_view \<Rightarrow> sync_agent \<Rightarrow> proposal \<Rightarrow> proposal \<Rightarrow> B256 \<Rightarrow> 'rc message result" where
  "request_validity_proof w a parent p l1_head =
     and_then (validity_precondition w a parent p) (\<lambda>precondition.
     and_then (vv_l2_block_hash w (pp_output_block_number parent)) (\<lambda>agreed_l2_head_hash.
     send w (Proposal_Message (pp_index p) precondition l1_head agreed_l2_head_hash
       (pp_output_root parent) (pp_output_block_number p) (pp_output_root p))))"

section \<open>Dispatch\<close>

definition request_proof ::
  "bool \<Rightarrow> validator_view \<Rightarrow> sync_agent \<Rightarrow> proposal \<Rightarrow> proposal \<Rightarrow> B256 \<Rightarrow> 'rc message result" where
  "request_proof is_fault w a parent p l1_head =
     (if is_fault then request_fault_proof w a parent p l1_head else request_validity_proof w a parent p l1_head)"

text \<open>What becomes of a popped request: it is queued again, dropped, or sent.\<close>

datatype 'rc dispatch_outcome = Requeue | Drop | Sent "'rc message"

definition dispatch_request ::
  "bool \<Rightarrow> validator_view \<Rightarrow> sync_agent \<Rightarrow> (u64 \<rightharpoonup> u64) \<Rightarrow> u64 \<Rightarrow> ((u64 \<rightharpoonup> u64) \<times> 'rc dispatch_outcome) result" where
  "dispatch_request is_fault w a heads proposal_index =
     (case sa_proposals a proposal_index of
        None \<Rightarrow> Inr (heads, if cu_last_resolved_game (sa_cursor a) < proposal_index then Requeue else Drop)
      | Some p \<Rightarrow>
          (case sa_proposals a (pp_parent p) of
             None \<Rightarrow> Inr (heads, if cu_last_resolved_game (sa_cursor a) < pp_parent p then Requeue else Drop)
           | Some parent \<Rightarrow>
               if vv_proof_status w (pp_contract parent) (pp_signature p) \<noteq> 0 then Inr (heads, Drop)
               else and_then (get_next_l1_head a heads p) (\<lambda>(heads, l1_head).
                 case l1_head of
                   None \<Rightarrow> Inr (heads, Requeue)
                 | Some l1_head \<Rightarrow>
                     (case request_proof is_fault w a parent p l1_head of
                        Inl (Panic m) \<Rightarrow> Inl (Panic m)
                      | Inl (Bail _) \<Rightarrow> Inr (heads, Requeue)
                      | Inr m \<Rightarrow> Inr (heads, Sent m)))))"

fun dispatch_loop ::
  "nat \<Rightarrow> bool \<Rightarrow> validator_view \<Rightarrow> sync_agent \<Rightarrow> buffer \<times> (u64 \<rightharpoonup> u64) \<times> 'rc message list \<Rightarrow>
   (buffer \<times> (u64 \<rightharpoonup> u64) \<times> 'rc message list) result" where
  "dispatch_loop 0 is_fault w a s = Inr s"
| "dispatch_loop (Suc n) is_fault w a (b, heads, sent) =
     (case heap_peek b of
        None \<Rightarrow> Inr (b, heads, sent)
      | Some (next_time, proposal_index) \<Rightarrow>
          if vv_now w < next_time then Inr (b, heads, sent)
          else let b = remove1 (next_time, proposal_index) b
               in and_then (add_u64 host next_time 10) (\<lambda>retry_time.
                  and_then (dispatch_request is_fault w a heads proposal_index) (\<lambda>(heads, outcome).
                  case outcome of
                    Requeue \<Rightarrow> dispatch_loop n is_fault w a ((retry_time, proposal_index) # b, heads, sent)
                  | Drop \<Rightarrow> dispatch_loop n is_fault w a (b, heads, sent)
                  | Sent m \<Rightarrow> dispatch_loop n is_fault w a (b, heads, sent @ [m]))))"

definition dispatch_proof_requests ::
  "bool \<Rightarrow> validator_view \<Rightarrow> sync_agent \<Rightarrow> buffer \<Rightarrow> (u64 \<rightharpoonup> u64) \<Rightarrow>
   (buffer \<times> (u64 \<rightharpoonup> u64) \<times> 'rc message list) result" where
  "dispatch_proof_requests is_fault w a b heads = dispatch_loop (length b) is_fault w a (b, heads, [])"

section \<open>Proving tasks\<close>

text \<open>The journal expected of a requested proof, and the arguments of its prover.\<close>

definition requested_journal ::
  "(bytes \<Rightarrow> B256) \<Rightarrow> Address \<Rightarrow> B256 \<Rightarrow> B256 \<Rightarrow> 'rc message \<Rightarrow> proof_journal" where
  "requested_journal sha payout_recipient config_digest fpvm_image_id m =
     \<lparr>pj_payout_recipient = payout_recipient,
      pj_precondition_hash = (case mp_precondition_validation_data m of None \<Rightarrow> 0 | Some d \<Rightarrow> precondition_hash sha d),
      pj_l1_head = mp_l1_head m, pj_agreed_l2_output_root = mp_agreed_l2_output_root m,
      pj_claimed_l2_output_root = mp_claimed_l2_output_root m,
      pj_claimed_l2_block_number = mp_claimed_l2_block_number m, pj_config_hash = config_digest,
      pj_fpvm_image_id = fpvm_image_id\<rparr>"

definition requested_args :: "proving_args \<Rightarrow> Address \<Rightarrow> 'rc message \<Rightarrow> prove_args" where
  "requested_args proving payout_recipient m =
     \<lparr>pr_kona = \<lparr>ka_l1_head = mp_l1_head m, ka_agreed_l2_head_hash = mp_agreed_l2_head_hash m,
        ka_agreed_l2_output_root = mp_agreed_l2_output_root m, ka_claimed_l2_output_root = mp_claimed_l2_output_root m,
        ka_claimed_l2_block_number = mp_claimed_l2_block_number m\<rparr>,
      pr_proving = proving\<lparr>pv_payout_recipient_address := Some payout_recipient\<rparr>\<rparr>"

definition requested_precondition :: "'rc message \<Rightarrow> u64 list \<times> B256 list \<times> B256 list" where
  "requested_precondition m =
     (case mp_precondition_validation_data m of
        None \<Rightarrow> ([], [], [])
      | Some d \<Rightarrow>
          ([proposal_l2_head_number d, proposal_output_count d, output_block_span d],
           map (bk_hash \<circ> bfr_block_ref) (blob_fetch_requests d), map (ih_hash \<circ> bfr_blob_hash) (blob_fetch_requests d)))"

end
