(* ===== verification/Submission.thy ===== *)
theory Submission
  imports Validator
begin

text \<open>
  Submission of proofs by the validator (\<open>src/crates/validator/src/proposals/receipts.rs\<close>,
  \<open>trails.rs\<close>, \<open>encode_seal\<close> of \<open>mod.rs\<close>, and the outcome of a proving task in \<open>tasks.rs\<close>), and what the
  tournament contract asks of the transactions it submits (\<open>proveValidity\<close>, \<open>proveOutputFault\<close> and
  \<open>proveTrailFault\<close> of \<open>src/crates/contracts/foundry/src/KailuaTournament.sol\<close>,
  \<open>verifyIntermediateOutput\<close> of \<open>KailuaGame.sol\<close>).

  The sanity checks before a submission only write to the log; of them the model keeps what can panic.
  A transaction is confirmed or not, as the view says. The devnet build is not modelled.
\<close>

section \<open>Receipts and transactions\<close>

datatype inner_receipt = Fake B256 | Groth16 B256 bytes | Unsupported

record receipt =
  rc_inner :: inner_receipt
  rc_journal :: bytes

definition encode_seal :: "receipt \<Rightarrow> bytes result" where
  "encode_seal r =
     (case rc_inner r of
        Fake claim_digest \<Rightarrow> Inr (replicate 4 255 @ to_be_bytes claim_digest)
      | Groth16 verifier_parameters seal_bytes \<Rightarrow> Inr (take 4 (to_be_bytes verifier_parameters) @ seal_bytes)
      | Unsupported \<Rightarrow> bail ''Unsupported receipt type'')"

datatype transaction =
  Prove_Validity_Tx (tx_contract: Address) Address Address u64 bytes
| Prove_Output_Fault_Tx (tx_contract: Address) "Address \<times> Address" "u64 \<times> u64" bytes "B256 \<times> B256" U256
    "bytes48 list \<times> bytes48 list"
| Prove_Trail_Fault_Tx (tx_contract: Address) Address "u64 \<times> u64" U256 bytes48 bytes48

record submission_view = validator_view +
  sv_confirmed :: "transaction \<Rightarrow> bool"

section \<open>The outcome of a proving task\<close>

text \<open>
  After the prover has run: whether its L1 head was insufficient, and the proof file if there is one.
  \<open>None\<close> when nothing is sent, a task that is tried again, or a message.
\<close>

datatype 'rc task_outcome = No_Message | Resubmit | Send "'rc message"

definition proving_outcome :: "prove_args \<Rightarrow> u64 \<Rightarrow> bool \<Rightarrow> 'rc result \<Rightarrow> 'rc task_outcome" where
  "proving_outcome args proposal_index insufficient_l1_data proof_file =
     (if \<not> insufficient_l1_data \<and> skip_stitching (pr_proving args) then No_Message
      else case proof_file of
             Inr receipt \<Rightarrow> Send (Proof_Message proposal_index (Some receipt))
           | Inl _ \<Rightarrow> if insufficient_l1_data then Send (Proof_Message proposal_index None) else Resubmit)"

section \<open>Publishing receipts\<close>

text \<open>What becomes of a computed proof.\<close>

datatype publication = Keep | Discard | Retry_Validity | Retry_Output_Fault | Submit transaction

definition publish_validity ::
  "sync_agent \<Rightarrow> proposal \<Rightarrow> proof_journal \<Rightarrow> Address \<Rightarrow> u64 \<Rightarrow> bytes \<Rightarrow> publication result" where
  "publish_validity a parent journal l1_head_contract child seal_bytes =
     and_then (mul_u64 host (dp_proposal_output_count (sa_deployment a)) (dp_output_block_span (sa_deployment a))) (\<lambda>blocks.
     and_then (add_u64 host (pp_output_block_number parent) blocks) (\<lambda>_.
     Inr (Submit (Prove_Validity_Tx (pp_contract parent) (pj_payout_recipient journal) l1_head_contract child seal_bytes))))"

text \<open>The KZG commitment and proof of a published output; a proof that fails is left out.\<close>

definition open_output :: "point_kzg \<Rightarrow> proposal \<Rightarrow> u64 \<Rightarrow> (bytes48 list \<times> bytes48 list) result" where
  "open_output K p position =
     and_then (io_commitment_for p position) (\<lambda>commitment.
     case io_proof_for K p position of
       Inr io_proof \<Rightarrow> Inr ([commitment], [io_proof])
     | Inl (Bail _) \<Rightarrow> Inr ([commitment], [])
     | Inl (Panic m) \<Rightarrow> Inl (Panic m))"

definition fault_openings ::
  "point_kzg \<Rightarrow> proposal \<Rightarrow> u64 \<Rightarrow> u64 \<Rightarrow> (bytes48 list \<times> bytes48 list) result" where
  "fault_openings K p claimed_l2_block_number divergence =
     and_then (if 0 < divergence then open_output K p (divergence - 1) else Inr ([], [])) (\<lambda>(cs, ps).
     and_then (if claimed_l2_block_number \<noteq> pp_output_block_number p then open_output K p divergence
               else Inr ([], [])) (\<lambda>(cs', ps').
     if (claimed_l2_block_number \<noteq> pp_output_block_number p \<or> divergence \<noteq> 0) \<and> ps @ ps' = []
     then Inl (Panic ''called `Option::unwrap()` on a `None` value'')
     else Inr (cs @ cs', ps @ ps')))"

definition publish_output_fault ::
  "point_kzg \<Rightarrow> validator_view \<Rightarrow> sync_agent \<Rightarrow> proposal \<Rightarrow> proposal \<Rightarrow> proof_journal \<Rightarrow> Address \<Rightarrow> u64 \<Rightarrow> bytes \<Rightarrow>
   publication result" where
  "publish_output_fault K w a parent p journal l1_head_contract child seal_bytes =
     (case fault_of p of
        None \<Rightarrow> Inr Discard
      | Some fault \<Rightarrow>
          let divergence = of_nat (divergence_point fault)
          in and_then (output_fe_at p divergence) (\<lambda>output_fe.
             and_then (add_u64 host divergence 1) (\<lambda>n.
             and_then (mul_u64 host n (dp_output_block_span (sa_deployment a))) (\<lambda>blocks.
             and_then (add_u64 host (pp_output_block_number parent) blocks) (\<lambda>_.
             if vv_proof_status w (pp_contract parent) (pp_signature p) \<noteq> 0 then Inr Discard
             else and_then (fault_openings K p (pj_claimed_l2_block_number journal) divergence) (\<lambda>openings.
               Inr (Submit (Prove_Output_Fault_Tx (pp_contract parent)
                 (pj_payout_recipient journal, l1_head_contract) (child, divergence) seal_bytes
                 (pj_agreed_l2_output_root journal, pj_claimed_l2_output_root journal) output_fe openings))))))))"

text \<open>A receipt for a proposal whose parent is known, in a tournament without validity proof.\<close>

definition publish_receipt ::
  "point_kzg \<Rightarrow> validator_view \<Rightarrow> sync_agent \<Rightarrow> proposal \<Rightarrow> proposal \<Rightarrow> receipt \<Rightarrow> publication result" where
  "publish_receipt K w a parent p receipt =
     and_then (decode_packed (rc_journal receipt)) (\<lambda>journal.
     case sa_l1_heads_inv a (pj_l1_head journal) of
       None \<Rightarrow> Inr Keep
     | Some (l1_head_contract, _) \<Rightarrow>
         (case encode_seal receipt of
            Inl _ \<Rightarrow> Inr Discard
          | Inr seal_bytes \<Rightarrow>
              and_then (unwrap_opt (child_index parent (pp_index p))
                ''Could not look up proposal's index in parent tournament'') (\<lambda>child.
              if pj_agreed_l2_output_root journal = pp_output_root parent \<and>
                 pj_claimed_l2_output_root journal = pp_output_root p
              then publish_validity a parent journal l1_head_contract child seal_bytes
              else publish_output_fault K w a parent p journal l1_head_contract child seal_bytes)))"

definition publish_proof ::
  "point_kzg \<Rightarrow> validator_view \<Rightarrow> sync_agent \<Rightarrow> u64 \<Rightarrow> receipt option \<Rightarrow> publication result" where
  "publish_proof K w a proposal_index receipt =
     (case sa_proposals a proposal_index of
        None \<Rightarrow> Inr (if cu_last_resolved_game (sa_cursor a) < proposal_index then Keep else Discard)
      | Some p \<Rightarrow>
          (case sa_proposals a (pp_parent p) of
             None \<Rightarrow> Inr (if cu_last_resolved_game (sa_cursor a) < pp_parent p then Keep else Discard)
           | Some parent \<Rightarrow>
               if fetch_is_successor_validity_proven w parent then Inr Discard
               else (case receipt of
                   None \<Rightarrow> Inr (if pp_canonical p = Some True \<or> pp_io_blobs p = [] then Retry_Validity else Retry_Output_Fault)
                 | Some receipt \<Rightarrow> publish_receipt K w a parent p receipt)))"

text \<open>One round over the buffer of computed proofs.\<close>

record publishing =
  pb_computed :: "receipt message list"
  pb_buffers :: validator_buffers
  pb_transactions :: "transaction list"

definition publish_message ::
  "point_kzg \<Rightarrow> submission_view \<Rightarrow> sync_agent \<Rightarrow> publishing \<Rightarrow> receipt message \<Rightarrow> publishing result" where
  "publish_message K w a s msg =
     (case msg of
        Proposal_Message _ _ _ _ _ _ _ \<Rightarrow> Inr s
      | Proof_Message proposal_index receipt \<Rightarrow>
          and_then (publish_proof K (validator_view.truncate w) a proposal_index receipt) (\<lambda>outcome.
          let b = pb_buffers s
          in case outcome of
               Keep \<Rightarrow> Inr (s\<lparr>pb_computed := pb_computed s @ [msg]\<rparr>)
             | Discard \<Rightarrow> Inr s
             | Retry_Validity \<Rightarrow> Inr (s\<lparr>pb_buffers := b\<lparr>vb_validity := (vv_now w, proposal_index) # vb_validity b\<rparr>\<rparr>)
             | Retry_Output_Fault \<Rightarrow>
                 Inr (s\<lparr>pb_buffers := b\<lparr>vb_output_fault := (vv_now w, proposal_index) # vb_output_fault b\<rparr>\<rparr>)
             | Submit tx \<Rightarrow>
                 let s = s\<lparr>pb_transactions := pb_transactions s @ [tx]\<rparr>
                 in if sv_confirmed w tx then Inr s else Inr (s\<lparr>pb_computed := pb_computed s @ [msg]\<rparr>)))"

definition publish_receipt_proofs ::
  "point_kzg \<Rightarrow> submission_view \<Rightarrow> sync_agent \<Rightarrow> receipt message list \<Rightarrow> receipt message list \<Rightarrow> validator_buffers \<Rightarrow>
   publishing result" where
  "publish_receipt_proofs K w a computed_proof_buffer received b =
     try_fold (publish_message K w a) \<lparr>pb_computed = [], pb_buffers = b, pb_transactions = []\<rparr>
       (computed_proof_buffer @ received)"

section \<open>Publishing trail faults\<close>

definition publish_trail_proof ::
  "point_kzg \<Rightarrow> validator_view \<Rightarrow> sync_agent \<Rightarrow> Address \<Rightarrow> u64 \<Rightarrow> publication result" where
  "publish_trail_proof K w a validator proposal_index =
     (case sa_proposals a proposal_index of
        None \<Rightarrow> Inr (if cu_last_resolved_game (sa_cursor a) < proposal_index then Keep else Discard)
      | Some p \<Rightarrow>
          (case sa_proposals a (pp_parent p) of
             None \<Rightarrow> Inr (if cu_last_resolved_game (sa_cursor a) < proposal_index then Keep else Discard)
           | Some parent \<Rightarrow>
               (case fault_of p of
                  None \<Rightarrow> Inr Discard
                | Some fault \<Rightarrow>
                    let divergence = of_nat (divergence_point fault)
                    in and_then (output_fe_at p divergence) (\<lambda>output_fe.
                       and_then (sub_u64 host divergence 1) (\<lambda>fe_position.
                       if vv_proof_status w (pp_contract parent) (pp_signature p) \<noteq> 0 then Inr Discard
                       else and_then (io_commitment_for p fe_position) (\<lambda>blob_commitment.
                         case io_proof_for K p fe_position of
                           Inl (Panic m) \<Rightarrow> Inl (Panic m)
                         | Inl (Bail _) \<Rightarrow> Inr Discard
                         | Inr kzg_proof \<Rightarrow>
                             and_then (unwrap_opt (child_index parent (pp_index p))
                               ''Could not look up proposal's index in parent tournament'') (\<lambda>child.
                             Inr (Submit (Prove_Trail_Fault_Tx (pp_contract parent) validator (child, divergence)
                               output_fe blob_commitment kzg_proof)))))))))"

fun publish_trail_loop ::
  "nat \<Rightarrow> point_kzg \<Rightarrow> submission_view \<Rightarrow> sync_agent \<Rightarrow> Address \<Rightarrow> buffer \<times> transaction list \<Rightarrow>
   (buffer \<times> transaction list) result" where
  "publish_trail_loop 0 K w a validator s = Inr s"
| "publish_trail_loop (Suc n) K w a validator (b, txs) =
     (case heap_peek b of
        None \<Rightarrow> Inr (b, txs)
      | Some (next_time, proposal_index) \<Rightarrow>
          if vv_now w < next_time then Inr (b, txs)
          else let b = remove1 (next_time, proposal_index) b
               in and_then (add_u64 host next_time 10) (\<lambda>retry_time.
                  and_then (publish_trail_proof K (validator_view.truncate w) a validator proposal_index) (\<lambda>outcome.
                  case outcome of
                    Submit tx \<Rightarrow>
                      publish_trail_loop n K w a validator
                        (if sv_confirmed w tx then b else (retry_time, proposal_index) # b, txs @ [tx])
                  | Keep \<Rightarrow> publish_trail_loop n K w a validator ((retry_time, proposal_index) # b, txs)
                  | _ \<Rightarrow> publish_trail_loop n K w a validator (b, txs))))"

definition publish_trail_proofs ::
  "point_kzg \<Rightarrow> submission_view \<Rightarrow> sync_agent \<Rightarrow> Address \<Rightarrow> buffer \<Rightarrow> (buffer \<times> transaction list) result" where
  "publish_trail_proofs K w a validator b = publish_trail_loop (length b) K w a validator (b, [])"

section \<open>The tournament contract\<close>

text \<open>
  The parent's contract with the children of its tournament, in the order they joined it; status 0 is
  a game in progress and 2 a resolved one, proof status 0 is none, 1 a fault, 2 validity. What other
  contracts answer is a record of parameters: the treasury (who proposed a game), the L1 head of a
  game, the verifier of seals, the SHA-256 precompile and the time of the block. Of a child, the
  precompiles for modular exponentiation (the point of an index) and for point evaluation are
  parameters. A transaction returns the updated contract, and a revert is an error value.
\<close>

record child_contract =
  kc_game_index :: u64
  kc_status :: byte
  kc_signature :: B256
  kc_root_claim :: B256
  kc_blob_hashes :: "B256 list"
  kc_point :: "nat \<Rightarrow> U256"
  kc_point_evaluation :: "U256 \<Rightarrow> U256 \<Rightarrow> bytes48 \<Rightarrow> bytes48 \<Rightarrow> bool"
  kc_versioned_hash :: "bytes48 \<Rightarrow> B256"

record tournament_contract =
  kt_root_claim :: B256
  kt_l2_block_number :: u64
  kt_proposal_output_count :: u64
  kt_output_block_span :: u64
  kt_proposal_blobs :: u64
  kt_config_hash :: B256
  kt_fpvm_image_id :: B256
  kt_children :: "child_contract list"
  kt_contender_index :: nat
  kt_valid_child_signature :: B256
  kt_proof_status :: "B256 \<Rightarrow> byte"
  kt_prover :: "B256 \<Rightarrow> Address"
  kt_proven_at :: "B256 \<Rightarrow> u64"

record tournament_env =
  te_proposer_of :: "Address \<Rightarrow> Address"
  te_l1_head_of :: "Address \<Rightarrow> B256"
  te_verify :: "bytes \<Rightarrow> B256 \<Rightarrow> B256 \<Rightarrow> bool"
  te_sha :: "bytes \<Rightarrow> B256"
  te_timestamp :: u64

definition verifyIntermediateOutput :: "child_contract \<Rightarrow> u64 \<Rightarrow> U256 \<Rightarrow> bytes48 \<Rightarrow> bytes48 \<Rightarrow> bool" where
  "verifyIntermediateOutput c output_number output_fe commitment kzg_proof \<longleftrightarrow>
     unat output_number div FIELD_ELEMENTS_PER_BLOB < length (kc_blob_hashes c) \<and>
     kc_versioned_hash c commitment = kc_blob_hashes c ! (unat output_number div FIELD_ELEMENTS_PER_BLOB) \<and>
     kc_point_evaluation c (kc_point c (unat output_number mod FIELD_ELEMENTS_PER_BLOB)) output_fe commitment kzg_proof"

definition mark_proven :: "u64 \<Rightarrow> Address \<Rightarrow> B256 \<Rightarrow> byte \<Rightarrow> tournament_contract \<Rightarrow> tournament_contract" where
  "mark_proven now payout_recipient signature outcome t =
     t\<lparr>kt_proof_status := (kt_proof_status t)(signature := outcome),
       kt_prover := (kt_prover t)(signature := payout_recipient),
       kt_proven_at := (kt_proven_at t)(signature := now)\<rparr>"

definition updateProofStatus ::
  "u64 \<Rightarrow> Address \<Rightarrow> B256 \<Rightarrow> byte \<Rightarrow> tournament_contract \<Rightarrow> tournament_contract result" where
  "updateProofStatus now payout_recipient signature outcome t =
     (if kt_proof_status t signature \<noteq> 0 then bail ''AlreadyProven''
      else Inr (mark_proven now payout_recipient signature outcome t))"

text \<open>The child a proof is about: in progress, in a tournament whose contender has not won.\<close>

definition playing_child :: "tournament_contract \<Rightarrow> u64 \<Rightarrow> child_contract result" where
  "playing_child t child =
     and_then (index_vec (kt_children t) (unat child)) (\<lambda>c.
     if kc_status c \<noteq> 0 then bail ''GameNotInProgress''
     else if kt_contender_index t < length (kt_children t) \<and>
             kc_status (kt_children t ! kt_contender_index t) = 2 then bail ''ClaimAlreadyResolved''
     else Inr c)"

definition contract_journal ::
  "tournament_contract \<Rightarrow> (Address \<Rightarrow> B256) \<Rightarrow> Address \<Rightarrow> Address \<Rightarrow> B256 \<Rightarrow> B256 \<Rightarrow> B256 \<Rightarrow> u64 \<Rightarrow> proof_journal" where
  "contract_journal t l1_head_of l1_head_source payout_recipient precondition accepted computed output_count =
     \<lparr>pj_payout_recipient = payout_recipient, pj_precondition_hash = precondition, pj_l1_head = l1_head_of l1_head_source,
      pj_agreed_l2_output_root = accepted, pj_claimed_l2_output_root = computed,
      pj_claimed_l2_block_number = kt_l2_block_number t + output_count * kt_output_block_span t,
      pj_config_hash = kt_config_hash t, pj_fpvm_image_id = kt_fpvm_image_id t\<rparr>"

text \<open>
  The seal must prove the journal that the contract puts together, with the L1 head of a game that the
  treasury knows; the product in the block number is checked arithmetic.
\<close>

definition tournament_prove ::
  "tournament_env \<Rightarrow> Address \<Rightarrow> Address \<Rightarrow> B256 \<Rightarrow> B256 \<times> B256 \<Rightarrow> u64 \<Rightarrow> bytes \<Rightarrow> B256 \<Rightarrow> byte \<Rightarrow>
   tournament_contract \<Rightarrow> tournament_contract result" where
  "tournament_prove N l1_head_source payout_recipient precondition ac output_count seal_bytes signature outcome t =
     (if te_proposer_of N l1_head_source = 0 then bail ''UnknownGame''
      else if 2 ^ 64 \<le> unat output_count * unat (kt_output_block_span t) then Inl (Panic ''arithmetic overflow'')
      else let journal = contract_journal t (te_l1_head_of N) l1_head_source payout_recipient precondition
             (fst ac) (snd ac) output_count
           in if \<not> te_verify N seal_bytes (kt_fpvm_image_id t) (te_sha N (encode_packed journal))
              then bail ''VerificationFailed''
              else updateProofStatus (te_timestamp N) payout_recipient signature outcome t)"

text \<open>The journal of a validity proof: from the parent's root to the child's, over all outputs.\<close>

definition contract_precondition :: "(bytes \<Rightarrow> B256) \<Rightarrow> tournament_contract \<Rightarrow> child_contract \<Rightarrow> B256" where
  "contract_precondition sha t c =
     (if 1 < kt_proposal_output_count t
      then validity_precondition_hash sha (kt_l2_block_number t) (kt_proposal_output_count t) (kt_output_block_span t)
        (blobs_hash sha (kc_blob_hashes c))
      else 0)"

definition validity_journal ::
  "(bytes \<Rightarrow> B256) \<Rightarrow> tournament_contract \<Rightarrow> child_contract \<Rightarrow> (Address \<Rightarrow> B256) \<Rightarrow> Address \<Rightarrow> Address \<Rightarrow> proof_journal" where
  "validity_journal sha t c l1_head_of payout_recipient l1_head_source =
     contract_journal t l1_head_of l1_head_source payout_recipient (contract_precondition sha t c)
       (kt_root_claim t) (kc_root_claim c) (kt_proposal_output_count t)"

definition proveValidity ::
  "tournament_env \<Rightarrow> tournament_contract \<Rightarrow> Address \<Rightarrow> Address \<Rightarrow> u64 \<Rightarrow> bytes \<Rightarrow> tournament_contract result" where
  "proveValidity N t payout_recipient l1_head_source child seal_bytes =
     and_then (playing_child t child) (\<lambda>c.
     tournament_prove N l1_head_source payout_recipient (contract_precondition (te_sha N) t c)
       (kt_root_claim t, kc_root_claim c) (kt_proposal_output_count t) seal_bytes (kc_signature c) 2
       (t\<lparr>kt_valid_child_signature := kc_signature c\<rparr>))"

text \<open>The agreed output is the parent's, or the published one before the fault.\<close>

definition check_accepted ::
  "tournament_contract \<Rightarrow> child_contract \<Rightarrow> u64 \<Rightarrow> B256 \<Rightarrow> bytes48 list \<times> bytes48 list \<Rightarrow> unit result" where
  "check_accepted t c offset accepted kzg =
     (if offset = 0
      then if accepted = kt_root_claim t then Inr () else bail ''bad acceptedOutput''
      else and_then (index_vec (fst kzg) 0) (\<lambda>commitment.
        and_then (index_vec (snd kzg) 0) (\<lambda>kzg_proof.
        if verifyIntermediateOutput c (offset - 1) (hash_to_fe accepted) commitment kzg_proof then Inr ()
        else bail ''bad acceptedOutput kzg'')))"

text \<open>The proposed output is the child's claim, or a published one; the computed one differs from it.\<close>

definition check_conflict ::
  "tournament_contract \<Rightarrow> child_contract \<Rightarrow> u64 \<Rightarrow> B256 \<Rightarrow> U256 \<Rightarrow> bytes48 list \<times> bytes48 list \<Rightarrow> unit result" where
  "check_conflict t c offset computed proposed_fe kzg =
     (if offset = kt_proposal_output_count t - 1
      then if computed = kc_root_claim c then bail ''NoConflict'' else Inr ()
      else and_then (index_vec (fst kzg) (length (fst kzg) - 1)) (\<lambda>commitment.
        and_then (index_vec (snd kzg) (length (snd kzg) - 1)) (\<lambda>kzg_proof.
        if \<not> verifyIntermediateOutput c offset proposed_fe commitment kzg_proof then bail ''bad proposedOutput kzg''
        else if hash_to_fe computed = proposed_fe then bail ''NoConflict''
        else Inr ())))"

definition proveOutputFault ::
  "tournament_env \<Rightarrow> tournament_contract \<Rightarrow> Address \<times> Address \<Rightarrow> u64 \<times> u64 \<Rightarrow> bytes \<Rightarrow> B256 \<times> B256 \<Rightarrow> U256 \<Rightarrow>
   bytes48 list \<times> bytes48 list \<Rightarrow> tournament_contract result" where
  "proveOutputFault N t pr_hs co seal_bytes ac proposed_fe kzg =
     and_then (playing_child t (fst co)) (\<lambda>c.
     if kt_proposal_output_count t \<le> snd co then bail ''InvalidDisputedClaimIndex''
     else and_then (check_accepted t c (snd co) (fst ac) kzg) (\<lambda>_.
       and_then (check_conflict t c (snd co) (snd ac) proposed_fe kzg) (\<lambda>_.
       tournament_prove N (snd pr_hs) (fst pr_hs) 0 ac (snd co + 1) seal_bytes (kc_signature c) 1 t)))"

definition proveTrailFault ::
  "tournament_env \<Rightarrow> tournament_contract \<Rightarrow> Address \<Rightarrow> u64 \<times> u64 \<Rightarrow> U256 \<Rightarrow> bytes48 \<Rightarrow> bytes48 \<Rightarrow>
   tournament_contract result" where
  "proveTrailFault N t payout_recipient co proposed_fe commitment kzg_proof =
     and_then (playing_child t (fst co)) (\<lambda>c.
     if snd co < kt_proposal_output_count t then bail ''InvalidDisputedClaimIndex''
     else if proposed_fe = 0 then bail ''NoConflict''
     else if snd co = 0 \<or> kt_proposal_blobs t = 0 then Inl (Panic ''arithmetic underflow'')
     else let fe_offset = snd co - 1
          in if unat fe_offset div FIELD_ELEMENTS_PER_BLOB \<noteq> unat (kt_proposal_blobs t - 1) then bail ''InvalidDataRemainder''
             else if \<not> verifyIntermediateOutput c fe_offset proposed_fe commitment kzg_proof then bail ''bad proposedOutput kzg''
             else updateProofStatus (te_timestamp N) payout_recipient (kc_signature c) 1 t)"

end
