(* ===== verification/Sync_Runs.thy ===== *)
theory Sync_Runs
  imports Sync_Verdicts
begin

text \<open>
  Properties of the synchronization agent over whole runs: the verdicts it stores, that a call
  returns, and two ways in which it stops following a deployment. A small deployment, of proposals of
  two blocks, serves as the concrete instance.
\<close>

section \<open>A deployment with one output per proposal\<close>

text \<open>
  With a single output per proposal the condition for fetching outputs never holds, so the agent has
  no output to judge a proposal by.
\<close>

definition no_outputs :: "sync_deployment \<Rightarrow> sync_agent \<Rightarrow> bool" where
  "no_outputs d a \<longleftrightarrow> sa_deployment a = d \<and> sa_outputs a = Map.empty \<and> (\<forall>p \<in> ran (sa_proposals a). \<not> has_parent p)"

lemma no_outputs_upd: "no_outputs d a \<Longrightarrow> \<not> has_parent p \<Longrightarrow> no_outputs d (a\<lparr>sa_proposals := (sa_proposals a)(k \<mapsto> p)\<rparr>)"
  by (auto simp: no_outputs_def ran_def split: if_splits)

lemma no_outputs_get: "no_outputs d a \<Longrightarrow> sa_proposals a k = Some p \<Longrightarrow> \<not> has_parent p"
  by (auto simp: no_outputs_def ran_def)

lemma no_outputs_cong:
  "sa_deployment a' = sa_deployment a \<Longrightarrow> sa_outputs a' = sa_outputs a \<Longrightarrow> sa_proposals a' = sa_proposals a \<Longrightarrow>
     no_outputs d a' = no_outputs d a"
  by (simp add: no_outputs_def)

lemma no_outputs_shrunk:
  assumes "no_outputs d a" and "shrunk a a'"
  shows "no_outputs d a'"
proof -
  have "\<not> has_parent p" if "p \<in> ran (sa_proposals a')" for p
  proof -
    from that obtain k where "sa_proposals a' k = Some p" by (auto simp: ran_def)
    then have "sa_proposals a k = Some p" using assms(2) unfolding shrunk_def map_le_def by (metis domI)
    with assms(1) show ?thesis by (rule no_outputs_get)
  qed
  moreover have "sa_outputs a' = Map.empty"
    using assms map_le_implies_dom_le [of "sa_outputs a'" "sa_outputs a"] by (simp add: no_outputs_def shrunk_def)
  ultimately show ?thesis using assms by (simp add: no_outputs_def shrunk_def)
qed

lemma settle_no_outputs:
  assumes ok: "no_outputs d a" and settle: "settle_proposal a p = (a', r)"
  shows "no_outputs d a'"
proof -
  have part: "no_outputs d b" if "determine_tournament_participation a p = (b, x)" for b x
    using that by (cases rule: participation_cases) (auto intro!: no_outputs_upd [OF ok] dest: no_outputs_get [OF ok] simp: ok)
  from settle show ?thesis
  proof (cases rule: settle_proposal_cases)
    case (stored p' p'' a2 correct c)
    have ok2: "no_outputs d a2" using part [OF stored(1)] .
    then have "\<not> has_parent p"
      using stored(2) by (auto simp: assess_correctness_def no_outputs_def res_simps bail_def split: if_splits)
    then have p: "\<not> has_parent p''" using stored(2) determine_if_canonical_Some(1) [OF stored(3)]
      by (auto simp: assess_correctness_def)
    show ?thesis
    proof (cases "c \<and> sa_proposals a2 (pp_parent p'') \<noteq> None")
      case True
      then obtain q where q: "sa_proposals a2 (pp_parent p'') = Some q" by auto
      have "no_outputs d (a2\<lparr>sa_proposals := (sa_proposals a2)(pp_parent p'' \<mapsto> q\<lparr>pp_successor := Some (pp_index p'')\<rparr>)\<rparr>)"
        using no_outputs_upd [OF ok2] no_outputs_get [OF ok2 q] by simp
      from no_outputs_upd [OF this p, of "pp_index p''"] True q stored(4) show ?thesis by (simp add: store_proposal_def)
    next
      case False
      then show ?thesis using stored(4) no_outputs_upd [OF ok2 p, of "pp_index p''"]
        by (auto simp: store_proposal_def split: bool.splits option.splits)
    qed
  qed (rule part)
qed

lemma step_no_outputs:
  assumes "no_outputs d a" and "sync_proposal v (a\<lparr>sa_cursor := c\<rparr>) i = (a1, r)" and "kept a1 a2"
  shows "no_outputs d a2"
proof -
  have noted: "no_outputs d (a\<lparr>sa_cursor := c\<rparr>)" "no_outputs d (note_elimination v q (a\<lparr>sa_cursor := c\<rparr>))" for q
    using assms(1) by (simp_all add: no_outputs_def)
  from assms(2) have "no_outputs d a1"
    by (cases rule: sync_proposal_cases) (auto intro: noted settle_no_outputs [OF noted(2)])
  with assms(3) show ?thesis by (simp add: kept_def no_outputs_def)
qed

lemma no_outputs_fetched:
  assumes "no_outputs d a" and "dp_proposal_output_count d = 1" and "sync_new_outputs v safe a = (a', r)"
  shows "a' = a"
  using assms by (auto simp: sync_new_outputs_def no_outputs_def blocks_per_proposal_def mul_u64_def Let_def res_simps
      split: sum.splits if_splits)

interpretation single: sync_invariant "\<lambda>v. dp_proposal_output_count d = 1" "\<lambda>a _. no_outputs d a"
proof unfold_locales
  fix v a safe a' u
  assume "dp_proposal_output_count d = 1" "no_outputs d a" "sync_new_outputs v safe a = (a', u)"
  then show "no_outputs d a'" using no_outputs_fetched by blast
next
  fix v a ds safe a' r
  assume ok: "no_outputs d a" and step: "sync_step v safe a ds = Inl (a', r)"
  obtain c i where "next_index (sa_cursor a) = (c, i)" by fastforce
  with step show "no_outputs d a'"
    by (cases rule: sync_step_cases) (auto intro: step_no_outputs [OF ok])
next
  fix v a ds safe a' ds'
  assume ok: "no_outputs d a" and step: "sync_step v safe a ds = Inr (a', ds')"
  obtain c i where "next_index (sa_cursor a) = (c, i)" by fastforce
  with step show "no_outputs d a'"
  proof (cases rule: sync_step_cases)
    case (continues a1 res a2 b es)
    have "no_outputs d b = no_outputs d a2"
      using continues(3) by (intro no_outputs_cong) (auto simp: advance_def res_simps split: if_splits)
    then show ?thesis using step_no_outputs [OF ok continues(1,2)] continues(4) by simp
  qed simp
next
  fix a i p t a' x
  assume ok: "no_outputs d a" and p: "sa_proposals a i = Some p" and
    prune: "prune_data (a\<lparr>sa_proposals := (sa_proposals a)(i \<mapsto> p\<lparr>pp_resolved_at := t\<rparr>),
        sa_cursor := (sa_cursor a)\<lparr>cu_last_resolved_game := i\<rparr>\<rparr>) = (a', x)" (is "prune_data ?a = _")
  have "\<not> has_parent (p\<lparr>pp_resolved_at := t\<rparr>)" using no_outputs_get [OF ok p] by simp
  then have "no_outputs d ?a" using ok by (auto simp: no_outputs_def ran_def split: if_splits)
  moreover have "shrunk ?a a'" using prune_data_shrinks [of ?a] by (simp add: prune)
  ultimately show "no_outputs d a'" by (rule no_outputs_shrunk)
qed (auto simp: no_outputs_def)

section \<open>A small deployment\<close>

text \<open>
  Games of two outputs, one block each, without blobs. Game 0 is the treasury at block 0, game 1
  follows it at block 2 with a root claim that is not the node's.
\<close>

definition sample_deployment :: sync_deployment where
  "sample_deployment = \<lparr>dp_treasury = 1, dp_game = 5, dp_verifier = 6, dp_image_id = 7, dp_cfg_hash = 8,
     dp_proposal_output_count = 2, dp_output_block_span = 1, dp_proposal_blobs = 0, dp_game_type = 57,
     dp_factory = 9, dp_timeout = 100, dp_genesis_time = 0, dp_block_time = 2\<rparr>"

definition sample_out :: "u64 \<Rightarrow> B256" where
  "sample_out n = ucast n + 100"

definition sample_game :: "Address \<Rightarrow> tournament" where
  "sample_game address = \<lparr>tc_parent_game = 1, tc_treasury = 1, tc_game_index = ucast (address - 1),
     tc_parent_game_index = 0, tc_proposer = address, tc_created_at = 10, tc_root_claim = 9,
     tc_l2_block_number = 2 * ucast (address - 1), tc_l1_head = 7, tc_signature = 6,
     tc_resolved_at = (if address = 1 then 1 else 0), tc_proposal_blobs = 0, tc_proposal_output_count = 2,
     tc_proposal_blob_hashes = (\<lambda>i. 0)\<rparr>"

definition sample_view :: "u64 \<Rightarrow> chain_view" where
  "sample_view safe = \<lparr>cv_safe_l2 = Some safe, cv_output_at_block = sample_out, cv_game_count = 2,
     cv_game_at_index = (\<lambda>i. (1337, ucast i + 1)), cv_tournament = sample_game,
     cv_get_blob = (\<lambda>_ _. bail ''no blob''), cv_elimination_round = (\<lambda>_. 0), cv_l1_block_number = (\<lambda>_. 3),
     cv_resolved_at = (\<lambda>_. 0)\<rparr>"

definition sample_cursor :: sync_cursor where
  "sample_cursor = \<lparr>cu_canonical_proposal_tip = 0, cu_next_factory_index = 0, cu_delayed_factory_indices = [],
     cu_last_output_index = 0, cu_last_resolved_game = 0\<rparr>"

lemma sample_node_view: "node_view sample_out (sample_view safe)"
proof -
  have "ucast (ucast i + 1 - 1 :: Address) = i" for i :: u64 by (rule bit_word_eqI) (auto simp: bit_unsigned_iff dest: bit_imp_le_length)
  moreover have "(ucast i + 1 :: Address) \<noteq> 1 \<Longrightarrow> 0 < i" for i :: u64 by (auto simp: word_gt_0)
  ultimately show ?thesis by (auto simp: node_view_def factory_view_def sample_view_def sample_game_def Let_def)
qed

definition sample_treasury :: proposal where
  "sample_treasury = (load_treasury 1 (sample_game 1))\<lparr>pp_canonical := Some True\<rparr>"

definition sample_start :: sync_agent where
  "sample_start = agent_new sample_deployment Map.empty sample_cursor"

lemmas sample_eval = sample_start_def agent_new_def sample_cursor_def sample_view_def sample_game_def sample_deployment_def
  sample_treasury_def

lemmas agent_eval = sync_step_def next_index_def sync_proposal_def KAILUA_GAME_TYPE_def load_proposal_def load_treasury_def
  load_game_def add_u64_def sub_u64_def note_elimination_def settle_proposal_def determine_tournament_participation_def
  has_parent_def assess_correctness_def determine_if_canonical_def is_correct_def canonical_tip_height_def canonical_tip_def
  was_proposer_eliminated_before_def store_proposal_def as_success_def as_delayed_def sync_l1_head_def record_success_def
  advance_def append_child_def blocks_per_proposal_def mul_u64_def as_usize_def

lemma sample_treasury_step:
  "sync_step (sample_view 0) 0 sample_start [] =
     Inr (sample_start\<lparr>sa_proposals := [0 \<mapsto> sample_treasury], sa_l1_heads := [3 \<mapsto> (1, 7)], sa_l1_heads_inv := [7 \<mapsto> (1, 3)],
       sa_cursor := sample_cursor\<lparr>cu_next_factory_index := 1\<rparr>\<rparr>, [])"
  by (simp add: sample_eval agent_eval)

text \<open>The node has no output yet: game 1 is delayed.\<close>

definition sample_queued :: sync_agent where
  "sample_queued = sample_start\<lparr>sa_proposals := [0 \<mapsto> sample_treasury], sa_l1_heads := [3 \<mapsto> (1, 7)],
     sa_l1_heads_inv := [7 \<mapsto> (1, 3)],
     sa_cursor := sample_cursor\<lparr>cu_next_factory_index := 2, cu_delayed_factory_indices := [1]\<rparr>\<rparr>"

lemma sample_delayed_step:
  "sync_step (sample_view 0) 0 (sample_start\<lparr>sa_proposals := [0 \<mapsto> sample_treasury], sa_l1_heads := [3 \<mapsto> (1, 7)],
       sa_l1_heads_inv := [7 \<mapsto> (1, 3)], sa_cursor := sample_cursor\<lparr>cu_next_factory_index := 1\<rparr>\<rparr>) [] =
     Inr (sample_queued\<lparr>sa_cursor := sample_cursor\<lparr>cu_next_factory_index := 2\<rparr>\<rparr>, [1])"
  by (simp add: sample_queued_def sample_eval agent_eval)

lemma sample_first_call: "sync (sample_view 0) 0 None sample_start = Some (sample_queued, Inr [0])"
proof -
  let ?b = "sample_queued\<lparr>sa_cursor := sample_cursor\<lparr>cu_next_factory_index := 2\<rparr>\<rparr>"
  have n: "has_next (sa_cursor sample_start) 2" "has_next (sample_cursor\<lparr>cu_next_factory_index := 1\<rparr>) 2"
      "\<not> has_next (sa_cursor ?b) 2"
    by (simp_all add: has_next_def sample_queued_def sample_eval)
  have "sync_loop (sample_view 0) 0 2 sample_start [] = (?b, Inr [1])"
    by (subst sync_loop.simps, subst sync_loop.simps, subst sync_loop.simps)
      (use n in \<open>simp add: sample_treasury_step sample_delayed_step\<close>)
  moreover have "sync_resolutions (sample_view 0) sample_queued = Some (sample_queued, Inr ())"
    by (simp add: sync_resolutions.simps resolve_next_def sample_queued_def sample_eval load_treasury_def)
  moreover have "?b\<lparr>sa_cursor := load_delayed_indices (sa_cursor ?b) [1]\<rparr> = sample_queued"
    by (simp add: load_delayed_indices_def sample_queued_def sample_cursor_def)
  moreover have "sync_new_outputs (sample_view 0) 0 sample_start = (sample_start, Inr ())"
    by (simp add: sync_new_outputs_def sample_eval agent_eval)
  moreover have "saturating_sub_u64 0 0 = 0" by (simp add: saturating_sub_u64_def)
  moreover have "[0..<2] = [0, Suc 0]" by (simp add: numeral_2_eq_2)
  ultimately show ?thesis
    by (simp add: sync_def sample_view_def sample_queued_def sample_eval)
qed

text \<open>The node has caught up: game 1 is judged, and the call fails.\<close>

definition sample_fetched :: sync_agent where
  "sample_fetched = sample_queued\<lparr>sa_outputs := [0 \<mapsto> 100, 1 \<mapsto> 101, 2 \<mapsto> 102], sa_db := [0 \<mapsto> 100, 1 \<mapsto> 101, 2 \<mapsto> 102],
     sa_cursor := (sa_cursor sample_queued)\<lparr>cu_last_output_index := 2\<rparr>\<rparr>"

lemma sample_new_outputs: "sync_new_outputs (sample_view 2) 2 sample_queued = (sample_fetched, Inr ())"
proof -
  have range: "step_range 0 2 1 = [0, 1, 2]" by (simp add: step_range_def upt_rec)
  have "fetch_chunk sample_out 0 2 1 sample_queued = sample_fetched"
    by (simp add: fetch_chunk_def range load_persisted_def store_outputs_def note_output_def sample_fetched_def
        sample_queued_def sample_eval sample_out_def)
  then have "sync_outputs sample_out sample_queued 0 2 1 = (sample_fetched, Inr ())"
    by (subst sync_outputs.simps, subst sync_outputs.simps) (simp add: add_u64_def mul_u64_def)
  then show ?thesis
    by (simp add: sync_new_outputs_def blocks_per_proposal_def add_u64_def mul_u64_def sample_queued_def sample_eval)
qed

definition sample_judged :: proposal where
  "sample_judged = \<lparr>pp_contract = 2, pp_treasury = 1, pp_index = 1, pp_parent = 0, pp_proposer = 2, pp_created_at = 10,
     pp_io_blobs = [], pp_io_field_elements = [], pp_trail_field_elements = [], pp_output_root = 9,
     pp_output_block_number = 2, pp_l1_head = 7, pp_signature = 6, pp_children = {}, pp_successor = None,
     pp_correct_io = [None], pp_correct_trail = [], pp_correct_claim = Some False, pp_correct_parent = Some True,
     pp_canonical = Some False, pp_resolved_at = 0\<rparr>"

lemma sample_success:
  "\<exists>a. sync_proposal (sample_view 2) (sample_fetched\<lparr>sa_cursor := (sa_cursor sample_fetched)\<lparr>cu_delayed_factory_indices := []\<rparr>\<rparr>) 1 =
     (a, Inr (SUCCESS 2 7)) \<and> sa_proposals a 1 = Some sample_judged"
  by (simp add: sample_fetched_def sample_queued_def sample_eval agent_eval sample_judged_def)

lemma sample_queued_reach: "agent_reach sample_out sample_deployment sample_queued"
proof (rule agent_reach.call [OF _ sample_node_view sample_first_call])
  show "agent_reach sample_out sample_deployment sample_start"
    unfolding sample_start_def by (rule agent_reach.start) (simp_all add: sample_cursor_def)
qed

text \<open>Judging a delayed proposal ends the call.\<close>

lemma delayed_success:
  assumes reach: "agent_reach out d a" and view: "node_view out v" and safe: "cv_safe_l2 v = Some n"
    and outs: "sync_new_outputs v (saturating_sub_u64 n op_rpc_delay) a = (a1, Inr ())"
    and queue: "cu_delayed_factory_indices (sa_cursor a1) = i # rest"
    and success: "sync_proposal v (a1\<lparr>sa_cursor := (sa_cursor a1)\<lparr>cu_delayed_factory_indices := rest\<rparr>\<rparr>) i =
      (a2, Inr (SUCCESS contract l1_head))"
  shows "sync v op_rpc_delay final_l2_block a =
      Some (sync_l1_head v a2 contract l1_head, bail ''Failed to load immediately processed proposal'')"
    "sa_proposals a2 i \<noteq> None" "sa_cursor a2 = (sa_cursor a1)\<lparr>cu_delayed_factory_indices := rest\<rparr>"
proof -
  let ?c = "(sa_cursor a1)\<lparr>cu_delayed_factory_indices := rest\<rparr>"
  let ?a = "sync_l1_head v a2 contract l1_head"
  have fv: "factory_view v" using view by (simp add: node_view_def)
  have "queue_ok a1 []" using queue.fetching [OF fv reach_queue [OF reach] outs] .
  then have "sa_proposals a1 (cu_next_factory_index (sa_cursor a1)) = None" "i \<noteq> cu_next_factory_index (sa_cursor a1)"
    using queue by (auto simp: queue_ok_def)
  moreover have dom: "dom (sa_proposals a2) = insert i (dom (sa_proposals a1))"
    using sync_proposal_dom [OF fv success] by simp
  ultimately have none: "sa_proposals a2 (cu_next_factory_index (sa_cursor a1)) = None" by auto
  have c: "sa_cursor a2 = ?c" using sync_proposal_keeps [OF success] by simp
  have step: "sync_step v safe a1 [] = Inl (?a, bail ''Failed to load immediately processed proposal'')" for safe
    using queue success none c by (simp add: sync_step_def next_index_def Let_def)
  have "has_next (sa_cursor a1) game_count" for game_count using queue by (simp add: has_next_def)
  then have "sync_loop v safe game_count a1 [] = (?a, bail ''Failed to load immediately processed proposal'')" for safe game_count
    by (subst sync_loop.simps) (simp add: step)
  then show "sync v op_rpc_delay final_l2_block a = Some (?a, bail ''Failed to load immediately processed proposal'')"
    using safe outs by (simp add: sync_def bail_def)
  show "sa_proposals a2 i \<noteq> None" using dom by auto
  show "sa_cursor a2 = ?c" by (rule c)
qed

lemma sample_judged_reach:
  "\<exists>a. agent_reach sample_out sample_deployment a \<and> sa_proposals a 1 = Some sample_judged"
proof -
  obtain a2 where a2: "sync_proposal (sample_view 2)
      (sample_fetched\<lparr>sa_cursor := (sa_cursor sample_fetched)\<lparr>cu_delayed_factory_indices := []\<rparr>\<rparr>) 1 = (a2, Inr (SUCCESS 2 7))"
      "sa_proposals a2 1 = Some sample_judged"
    using sample_success by blast
  have outs: "sync_new_outputs (sample_view 2) (saturating_sub_u64 2 0) sample_queued = (sample_fetched, Inr ())"
    using sample_new_outputs by (simp add: saturating_sub_u64_def)
  have "cv_safe_l2 (sample_view 2) = Some 2" "cu_delayed_factory_indices (sa_cursor sample_fetched) = [1]"
    by (simp_all add: sample_view_def sample_fetched_def sample_queued_def)
  from delayed_success(1) [OF sample_queued_reach sample_node_view this(1) outs this(2) a2(1)]
  show ?thesis using agent_reach.call [OF sample_queued_reach sample_node_view] a2(2) by fastforce
qed

section \<open>Properties\<close>

text \<open>
  C27. The verdicts the agent stores are those of its node. In every reachable state, after any number
  of calls of \<open>sync\<close>, failed ones included, a stored proposal is stored under its index and is decided:
  a proposal without parent is correct, any other one is correct exactly when its root claim, its
  intermediate outputs and its zero trail agree with the node's outputs; an incorrect one has a fault
  to prove, and a canonical one is correct.
\<close>

theorem stored_verdicts:
  assumes "agent_reach out d a" and "sa_proposals a k = Some p"
  shows "pp_index p = k \<and> is_correct p = Some (\<not> has_parent p \<or> honest_proposal out d p) \<and>
    (is_correct p = Some False \<longrightarrow> fault_of p \<noteq> None) \<and>
    (\<exists>c. pp_canonical p = Some c \<and> (c \<longrightarrow> is_correct p = Some True))"
proof -
  have "proposals_ok out d (sa_proposals a)" using reach_ok [OF assms(1)] by (simp add: agent_ok_def)
  from proposals_okD [OF this assms(2)] have p: "pp_index p = k" "stored_ok out d p" by auto
  then have "is_correct p = Some (\<not> has_parent p \<or> honest_proposal out d p)"
    using judged_verdict [of out d p] by (cases "has_parent p") (auto simp: stored_ok_def)
  then show ?thesis using p is_correct_False [of p] by (auto simp: stored_ok_def)
qed

text \<open>
  C28. A call of \<open>sync\<close> returns, with a result or an error: from every reachable state, whatever the
  chain answers, the loop over games and the loop over resolutions end.
\<close>

theorem sync_returns:
  assumes "agent_reach out d a" and "node_view out v"
  shows "\<exists>a' r. sync v op_rpc_delay final_l2_block a = Some (a', r)"
  using sync_total [OF reach_ok [OF assms(1)] assms(2)] .

text \<open>
  C29. A delayed proposal is lost when it is judged at last. In every reachable state whose first
  delayed index is judged successfully, the call of \<open>sync\<close> fails: it looks up the proposal under the
  next factory index, where nothing is stored. The proposal stays stored, but its index leaves the
  queue, and neither the canonical tip nor the eliminations take notice of it.
\<close>

theorem delayed_success_fails:
  assumes reach: "agent_reach out d a" and view: "node_view out v" and safe: "cv_safe_l2 v = Some n"
    and outs: "sync_new_outputs v (saturating_sub_u64 n op_rpc_delay) a = (a1, Inr ())"
    and queue: "cu_delayed_factory_indices (sa_cursor a1) = i # rest"
    and success: "sync_proposal v (a1\<lparr>sa_cursor := (sa_cursor a1)\<lparr>cu_delayed_factory_indices := rest\<rparr>\<rparr>) i =
      (a2, Inr (SUCCESS contract l1_head))"
  shows "\<exists>a'. sync v op_rpc_delay final_l2_block a = Some (a', bail ''Failed to load immediately processed proposal'') \<and>
    sa_proposals a' i \<noteq> None \<and> sa_cursor a' = (sa_cursor a1)\<lparr>cu_delayed_factory_indices := rest\<rparr> \<and>
    sa_eliminations a' = sa_eliminations a2"
  using delayed_success [OF assms] by (auto simp: sync_l1_head_def Let_def)

theorem delayed_success_fails_witness:
  "\<exists>a'. sync (sample_view 2) 0 None sample_queued = Some (a', bail ''Failed to load immediately processed proposal'') \<and>
     sa_proposals a' 1 \<noteq> None \<and> cu_delayed_factory_indices (sa_cursor a') = []"
proof -
  obtain a2 where a2: "sync_proposal (sample_view 2)
      (sample_fetched\<lparr>sa_cursor := (sa_cursor sample_fetched)\<lparr>cu_delayed_factory_indices := []\<rparr>\<rparr>) 1 = (a2, Inr (SUCCESS 2 7))"
    using sample_success by blast
  have "cv_safe_l2 (sample_view 2) = Some 2" by (simp add: sample_view_def)
  moreover have "sync_new_outputs (sample_view 2) (saturating_sub_u64 2 0) sample_queued = (sample_fetched, Inr ())"
    using sample_new_outputs by (simp add: saturating_sub_u64_def)
  moreover have "cu_delayed_factory_indices (sa_cursor sample_fetched) = [1]"
    by (simp add: sample_fetched_def sample_queued_def)
  ultimately show ?thesis
    using delayed_success_fails [OF sample_queued_reach sample_node_view _ _ _ a2] by fastforce
qed

text \<open>
  C30. With one output per proposal the agent never learns anything: whatever the chain and the node
  answer, no call of \<open>sync\<close> brings an output into memory, and no proposal but those without parent is
  ever stored.
\<close>

theorem single_output_stalls:
  assumes "agent_reach out d a" and "dp_proposal_output_count d = 1"
  shows "sa_outputs a = Map.empty \<and> (\<forall>k p. sa_proposals a k = Some p \<longrightarrow> \<not> has_parent p)"
proof -
  from assms(1) have "no_outputs d a"
  proof (induction rule: agent_reach.induct)
    case (start db c)
    then show ?case by (simp add: agent_new_def no_outputs_def)
  next
    case (call a v delay final a' r)
    then show ?case using assms(2) by (blast intro: single.keeps_sync)
  qed
  then show ?thesis by (auto simp: no_outputs_def ran_def)
qed

theorem single_output_stalls_witness:
  "\<exists>a r. sync (sample_view 9) 0 None
     (agent_new (sample_deployment\<lparr>dp_proposal_output_count := 1\<rparr>) [3 \<mapsto> sample_out 3] sample_cursor) = Some (a, r) \<and>
     sa_outputs a = Map.empty"
proof -
  let ?d = "sample_deployment\<lparr>dp_proposal_output_count := 1\<rparr>"
  have start: "agent_reach sample_out ?d (agent_new ?d [3 \<mapsto> sample_out 3] sample_cursor)"
    by (rule agent_reach.start) (simp_all add: sample_cursor_def)
  from sync_total [OF reach_ok [OF start] sample_node_view] obtain a r where
    a: "sync (sample_view 9) 0 None (agent_new ?d [3 \<mapsto> sample_out 3] sample_cursor) = Some (a, r)" by blast
  from single_output_stalls [OF agent_reach.call [OF start sample_node_view a]] a show ?thesis by simp
qed

theorem sync_returns_witness: "\<exists>a' r. sync (sample_view 2) 0 (Some 5) sample_queued = Some (a', r)"
  using sync_returns [OF sample_queued_reach sample_node_view] .

theorem stored_verdicts_witness:
  "\<exists>a. agent_reach sample_out sample_deployment a \<and> sa_proposals a 1 = Some sample_judged \<and>
     \<not> honest_proposal sample_out sample_deployment sample_judged \<and> fault_of sample_judged \<noteq> None"
proof -
  obtain a where a: "agent_reach sample_out sample_deployment a" "sa_proposals a 1 = Some sample_judged"
    using sample_judged_reach by blast
  moreover have "is_correct sample_judged = Some False" by (simp add: is_correct_def sample_judged_def)
  ultimately show ?thesis using stored_verdicts [OF a] by auto
qed

end
