(* ===== verification/Dispute_Sample.thy ===== *)
theory Dispute_Sample
  imports Validator Sync_Runs
begin

text \<open>
  A run of the agent and the validator on a faulty proposal: game 1 publishes one intermediate output,
  zero, which is not the node's, under a root claim that is not the node's either. A case fixes the
  claim and the rest of the published blob. The concrete instance of the properties of the theories
  \<open>Disputes\<close> and \<open>Settlement\<close>.
\<close>

definition empty_blob :: blob where
  "empty_blob = replicate (32 * FIELD_ELEMENTS_PER_BLOB) 0"

record fault_case =
  fc_root :: B256
  fc_blob :: blob
  fc_trail :: "U256 list"

definition case_ok :: "fault_case \<Rightarrow> bool" where
  "case_ok s \<longleftrightarrow> fc_root s \<noteq> 102 \<and> length (fc_trail s) = 4095 \<and>
     intermediate_outputs (fc_blob s) 1 = Inr [0] \<and> trail_data (fc_blob s) 1 = Inr (fc_trail s)"

definition faulty_game :: "fault_case \<Rightarrow> Address \<Rightarrow> tournament" where
  "faulty_game s address = (sample_game address)\<lparr>tc_root_claim := (if address = 1 then 100 else fc_root s), tc_proposal_blobs := 1\<rparr>"

definition faulty_view :: "fault_case \<Rightarrow> chain_view" where
  "faulty_view s = (sample_view 2)\<lparr>cv_tournament := faulty_game s, cv_get_blob := (\<lambda>_ _. Inr (sample_blob_data (fc_blob s)))\<rparr>"

definition faulty_loaded :: "fault_case \<Rightarrow> proposal" where
  "faulty_loaded s = \<lparr>pp_contract = 2, pp_treasury = 1, pp_index = 1, pp_parent = 0, pp_proposer = 2, pp_created_at = 10,
     pp_io_blobs = [(0, sample_blob_data (fc_blob s))], pp_io_field_elements = [0],
     pp_trail_field_elements = fc_trail s, pp_output_root = fc_root s,
     pp_output_block_number = 2, pp_l1_head = 7, pp_signature = 6, pp_children = {}, pp_successor = None,
     pp_correct_io = [None], pp_correct_trail = replicate (length (fc_trail s)) None, pp_correct_claim = None, pp_correct_parent = None,
     pp_canonical = None, pp_resolved_at = 0\<rparr>"

definition faulty_judged :: "fault_case \<Rightarrow> proposal" where
  "faulty_judged s = (faulty_loaded s)\<lparr>pp_correct_parent := Some True, pp_correct_claim := Some False,
     pp_correct_io := [Some False], pp_correct_trail := map (\<lambda>fe. Some (fe = 0)) (fc_trail s), pp_canonical := Some False\<rparr>"

lemma faulty_load:
  assumes "case_ok s"
  shows "load_proposal (cv_get_blob (faulty_view s)) 2 (faulty_game s 2) = Inr (faulty_loaded s)"
  using assms
  by (simp add: case_ok_def load_proposal_def load_game_def load_io_blob_def faulty_game_def sample_game_def faulty_view_def
      sample_blob_data_def err_context_def sub_u64_def as_usize_def FIELD_ELEMENTS_PER_BLOB_def faulty_loaded_def)

lemma faulty_node_view: "node_view sample_out (faulty_view s)"
  using sample_node_view [of 2]
  by (auto simp: node_view_def factory_view_def faulty_view_def sample_view_def faulty_game_def sample_game_def Let_def)

definition faulty_treasury :: proposal where
  "faulty_treasury = (load_treasury 1 (sample_game 1))\<lparr>pp_output_root := 100, pp_canonical := Some True\<rparr>"

definition faulty_fetched :: sync_agent where
  "faulty_fetched = sample_start\<lparr>sa_outputs := [0 \<mapsto> 100, 1 \<mapsto> 101, 2 \<mapsto> 102], sa_db := [0 \<mapsto> 100, 1 \<mapsto> 101, 2 \<mapsto> 102],
     sa_cursor := sample_cursor\<lparr>cu_last_output_index := 2\<rparr>\<rparr>"

lemma faulty_new_outputs: "sync_new_outputs (faulty_view s) 2 sample_start = (faulty_fetched, Inr ())"
proof -
  have range: "step_range 0 2 1 = [0, 1, 2]" by (simp add: step_range_def upt_rec)
  have "fetch_chunk sample_out 0 2 1 sample_start = faulty_fetched"
    by (simp add: fetch_chunk_def range load_persisted_def store_outputs_def note_output_def faulty_fetched_def
        sample_eval sample_out_def)
  then have "sync_outputs sample_out sample_start 0 2 1 = (faulty_fetched, Inr ())"
    by (subst sync_outputs.simps, subst sync_outputs.simps) (simp add: add_u64_def mul_u64_def)
  then show ?thesis
    by (simp add: sync_new_outputs_def blocks_per_proposal_def add_u64_def mul_u64_def faulty_view_def sample_eval)
qed

definition faulty_first :: sync_agent where
  "faulty_first = faulty_fetched\<lparr>sa_proposals := [0 \<mapsto> faulty_treasury], sa_l1_heads := [3 \<mapsto> (1, 7)],
     sa_l1_heads_inv := [7 \<mapsto> (1, 3)], sa_cursor := sample_cursor\<lparr>cu_next_factory_index := 1, cu_last_output_index := 2\<rparr>\<rparr>"

lemma faulty_first_step: "sync_step (faulty_view s) 2 faulty_fetched [] = Inr (faulty_first, [])"
  by (simp add: faulty_first_def faulty_fetched_def faulty_view_def faulty_treasury_def faulty_game_def sample_eval agent_eval)

text \<open>Vectors are filled from their first entry.\<close>

lemma fill_loop_total:
  assumes "n \<le> length cs" and "\<And>cs' i. i < n \<Longrightarrow> length cs' = length cs \<Longrightarrow> f cs' i = Inr (cs'[i := g i])"
  shows "try_fold f cs [0..<n] = Inr (map g [0..<n] @ drop n cs)"
  using assms
proof (induction n)
  case (Suc n)
  then show ?case
    by (simp add: try_fold_append list_update_append Cons_nth_drop_Suc [symmetric])
qed simp

lemma faulty_assess:
  assumes "sa_proposals a 0 = Some q" "is_correct q = Some True" "sa_outputs a 1 = Some 101" "sa_outputs a 2 = Some 102"
    "sa_deployment a = sample_deployment" "case_ok s"
  shows "assess_correctness a (faulty_loaded s) = Inr ((faulty_judged s)\<lparr>pp_canonical := None\<rparr>, False)"
proof -
  let ?f = "\<lambda>cs i. update_vec cs i (Some (fc_trail s ! i = 0))" and ?n = "length (fc_trail s)"
  have "try_fold ?f (replicate ?n None) [0..<?n] = Inr (map (\<lambda>i. Some (fc_trail s ! i = 0)) [0..<?n] @ drop ?n (replicate ?n None))"
    by (rule fill_loop_total) (simp_all add: update_vec_def)
  also have "map (\<lambda>i. Some (fc_trail s ! i = 0)) [0..<?n] = map (\<lambda>fe. Some (fe = 0)) (fc_trail s)"
    by (rule nth_equalityI) simp_all
  finally have tr: "try_fold ?f (replicate ?n None) [0..<?n] = Inr (map (\<lambda>fe. Some (fe = 0)) (fc_trail s))" by simp
  have io: "try_fold (assess_io a (faulty_loaded s) 0) [None] [0..<1] = Inr [Some False]"
    using assms by (simp add: assess_io_def faulty_loaded_def sample_deployment_def add_u64_def mul_u64_def update_vec_def
        hash_to_fe_def BLS_MODULUS_def)
  show ?thesis
    using assms tr io
    by (simp add: case_ok_def assess_correctness_def has_parent_def faulty_loaded_def faulty_judged_def blocks_per_proposal_def mul_u64_def
        sample_deployment_def saturating_sub_u64_def is_correct_def Let_def)
qed

definition faulty_known :: "fault_case \<Rightarrow> sync_agent" where
  "faulty_known s = faulty_first\<lparr>sa_proposals := [0 \<mapsto> faulty_treasury\<lparr>pp_children := {1}\<rparr>, 1 \<mapsto> (faulty_judged s)],
     sa_eliminations := [2 \<mapsto> 1],
     sa_cursor := sample_cursor\<lparr>cu_next_factory_index := 2, cu_last_output_index := 2\<rparr>\<rparr>"

lemma faulty_settle:
  assumes "case_ok s"
  shows "settle_proposal faulty_first (faulty_loaded s) =
     (faulty_first\<lparr>sa_proposals := [0 \<mapsto> faulty_treasury\<lparr>pp_children := {1}\<rparr>, 1 \<mapsto> (faulty_judged s)]\<rparr>, Inr (SUCCESS 2 7))"
proof -
  let ?a = "faulty_first\<lparr>sa_proposals := [0 \<mapsto> faulty_treasury\<lparr>pp_children := {1}\<rparr>]\<rparr>"
  have part: "determine_tournament_participation faulty_first (faulty_loaded s) = (?a, Inr True)"
    by (simp add: faulty_first_def faulty_fetched_def faulty_treasury_def faulty_game_def faulty_loaded_def sample_eval agent_eval)
  have assess: "assess_correctness ?a (faulty_loaded s) = Inr ((faulty_judged s)\<lparr>pp_canonical := None\<rparr>, False)"
    by (rule faulty_assess [where q = "faulty_treasury\<lparr>pp_children := {1}\<rparr>"]) (use assms in \<open>simp_all add: faulty_first_def faulty_fetched_def faulty_treasury_def faulty_game_def sample_eval agent_eval\<close>)
  have "is_correct ((faulty_judged s)\<lparr>pp_canonical := None\<rparr>) = Some False"
    by (simp add: is_correct_def faulty_judged_def faulty_loaded_def)
  then have "determine_if_canonical ?a ((faulty_judged s)\<lparr>pp_canonical := None\<rparr>) = Some (faulty_judged s, False)"
    by (simp add: determine_if_canonical_def Let_def faulty_judged_def)
  with part assess show ?thesis
    by (simp add: settle_proposal_def store_proposal_def as_success_def faulty_judged_def faulty_loaded_def)
qed

lemma faulty_second_step:
  assumes "case_ok s"
  shows "sync_step (faulty_view s) 2 faulty_first [] = Inr (faulty_known s, [])"
proof -
  have index: "next_index (sa_cursor faulty_first) = (sa_cursor faulty_first, 1)"
    by (simp add: next_index_def faulty_first_def sample_cursor_def)
  have "note_elimination (faulty_view s) 2 faulty_first = faulty_first"
    by (simp add: note_elimination_def faulty_view_def sample_view_def)
  then have proposal: "sync_proposal (faulty_view s) faulty_first 1 =
      (faulty_first\<lparr>sa_proposals := [0 \<mapsto> faulty_treasury\<lparr>pp_children := {1}\<rparr>, 1 \<mapsto> (faulty_judged s)]\<rparr>, Inr (SUCCESS 2 7))"
    using faulty_load [OF assms] faulty_settle [OF assms]
    by (simp add: sync_proposal_def faulty_view_def sample_view_def KAILUA_GAME_TYPE_def faulty_loaded_def
        faulty_first_def faulty_fetched_def sample_eval add_u64_def)
  show ?thesis
    by (simp add: sync_step_def index proposal)
      (simp add: faulty_known_def faulty_first_def faulty_fetched_def sample_eval sync_l1_head_def faulty_view_def record_success_def
        faulty_judged_def faulty_loaded_def is_correct_def advance_def add_u64_def)
qed

lemma faulty_call:
  assumes "case_ok s"
  shows "sync (faulty_view s) 0 None sample_start = Some (faulty_known s, Inr [0, 1])"
proof -
  have n: "has_next (sa_cursor faulty_fetched) 2" "has_next (sa_cursor faulty_first) 2" "\<not> has_next (sa_cursor (faulty_known s)) 2"
    by (simp_all add: has_next_def faulty_known_def faulty_first_def faulty_fetched_def sample_cursor_def)
  have "sync_loop (faulty_view s) 2 2 faulty_fetched [] = (faulty_known s, Inr [])"
    by (subst sync_loop.simps, subst sync_loop.simps, subst sync_loop.simps)
      (use n in \<open>simp add: faulty_first_step faulty_second_step [OF assms]\<close>)
  moreover have "sync_resolutions (faulty_view s) (faulty_known s) = Some (faulty_known s, Inr ())"
    by (simp add: sync_resolutions.simps resolve_next_def faulty_known_def faulty_treasury_def sample_cursor_def load_treasury_def)
  moreover have "(faulty_known s)\<lparr>sa_cursor := load_delayed_indices (sa_cursor (faulty_known s)) []\<rparr> = (faulty_known s)"
    by (simp add: load_delayed_indices_def)
  moreover have "cv_safe_l2 (faulty_view s) = Some 2" "cv_game_count (faulty_view s) = 2" "saturating_sub_u64 2 0 = 2"
    by (simp_all add: faulty_view_def sample_view_def saturating_sub_u64_def)
  moreover have "[0..<2] = [0, Suc 0]" by (simp add: numeral_2_eq_2)
  moreover have "cu_next_factory_index (sa_cursor faulty_fetched) = 0" "cu_next_factory_index (sa_cursor (faulty_known s)) = 2"
    "sa_proposals (faulty_known s) 0 \<noteq> None" "sa_proposals (faulty_known s) 1 \<noteq> None"
    by (simp_all add: faulty_known_def faulty_first_def faulty_fetched_def sample_cursor_def)
  ultimately show ?thesis using faulty_new_outputs [of s] by (simp add: sync_def)
qed

lemma faulty_known_reach:
  assumes "case_ok s"
  shows "agent_reach sample_out sample_deployment (faulty_known s)"
proof (rule agent_reach.call [OF _ faulty_node_view faulty_call [OF assms]])
  show "agent_reach sample_out sample_deployment sample_start"
    unfolding sample_start_def by (rule agent_reach.start) (simp_all add: sample_cursor_def)
qed

definition sample_validator_view :: validator_view where
  "sample_validator_view = \<lparr>vv_now = 50, vv_random = (\<lambda>_. 3), vv_l2_block_hash = (\<lambda>n. Inr 5),
     vv_next_l1_block = (\<lambda>h. Inr \<lparr>bk_hash = 8, bk_number = 4, bk_parent_hash = h, bk_timestamp = 6\<rparr>),
     vv_proof_status = (\<lambda>_ _. 0), vv_valid_child_signature = (\<lambda>_. 0), vv_channel_open = True\<rparr>"

definition sample_validate_args :: validate_args where
  "sample_validate_args = \<lparr>va_final_l2_block = None, va_fast_forward_start = 1, va_fast_forward_target = 0,
     va_max_fault_proving_delay = 0, va_max_validity_proving_delay = 0\<rparr>"

text \<open>Two cases: an output fault under any wrong claim, and a trail that is not zero.\<close>

definition output_case :: "B256 \<Rightarrow> fault_case" where
  "output_case root = \<lparr>fc_root = root, fc_blob = empty_blob, fc_trail = replicate 4095 0\<rparr>"

definition trail_blob :: blob where
  "trail_blob = concat (map to_be_bytes [0, 5 :: U256]) @ replicate (32 * FIELD_ELEMENTS_PER_BLOB - 64) 0"

definition trail_case :: fault_case where
  "trail_case = \<lparr>fc_root = 9, fc_blob = trail_blob, fc_trail = 5 # replicate 4094 0\<rparr>"

lemma output_case_ok: "root \<noteq> 102 \<Longrightarrow> case_ok (output_case root)"
  using zero_blob_elements [of 1 0] zero_blob_elements [of FIELD_ELEMENTS_PER_BLOB 1]
  by (simp add: case_ok_def output_case_def intermediate_outputs_def trail_data_def empty_blob_def FIELD_ELEMENTS_PER_BLOB_def)

lemma field_elements_part:
  assumes "field_elements b [0..<n] = Inr fes" and "i \<le> j" "j \<le> n"
  shows "field_elements b [i..<j] = Inr (take (j - i) (drop i fes))"
  using assms by (auto simp: field_elements_def try_map_eq_Inr)

lemma trail_case_ok: "case_ok trail_case"
proof -
  have len: "length (concat (map to_be_bytes [0, 5 :: U256])) = 64" by simp
  then have "right_padding_from (concat (map to_be_bytes [0, 5 :: U256])) = Inr trail_blob"
    by (simp only: right_padding_from_def trail_blob_def) (simp add: FIELD_ELEMENTS_PER_BLOB_def)
  from padded_elements [OF _ _ this] have all: "field_elements trail_blob [0..<FIELD_ELEMENTS_PER_BLOB] =
      Inr ([0, 5] @ replicate (FIELD_ELEMENTS_PER_BLOB - 2) 0)"
    by (simp add: FIELD_ELEMENTS_PER_BLOB_def BLS_MODULUS_def)
  show ?thesis
    using field_elements_part [OF all, of 0 1] field_elements_part [OF all, of 1 FIELD_ELEMENTS_PER_BLOB]
    by (simp add: case_ok_def trail_case_def intermediate_outputs_def trail_data_def FIELD_ELEMENTS_PER_BLOB_def del: upt_Suc)
qed

end
