(* ===== verification/Disputes.thy ===== *)
theory Disputes
  imports Dispute_Sample
begin

text \<open>
  What the validator disputes. A request for a fault proof starts at a root that the proposal shares
  with the node and ends at one where they differ; exactly the proposals that do not agree with the
  node are disputed; and no request gets lost in a buffer.
\<close>

section \<open>Fault proofs\<close>

text \<open>
  What the contracts enforce of a proposal and its parent: it covers the blocks after its parent, and
  publishes all its outputs but the last.
\<close>

definition follows :: "sync_deployment \<Rightarrow> proposal \<Rightarrow> proposal \<Rightarrow> bool" where
  "follows d q p \<longleftrightarrow>
     length (pp_io_field_elements p) + 1 = unat (dp_proposal_output_count d) \<and>
     unat (pp_output_block_number p) =
       unat (pp_output_block_number q) + unat (dp_proposal_output_count d) * unat (dp_output_block_span d)"

lemma io_block_follows:
  assumes "follows d q p"
  shows "io_block d p i = pp_output_block_number q + (of_nat i + 1) * dp_output_block_span d"
    and "pp_output_block_number p = pp_output_block_number q + dp_proposal_output_count d * dp_output_block_span d"
proof -
  let ?n = "dp_proposal_output_count d" and ?s = "dp_output_block_span d"
  have bound: "unat ?n * unat ?s < 2 ^ 64"
    using assms unat_u64_bound [of "pp_output_block_number p"] unfolding follows_def by simp
  then have ns: "unat (?n * ?s) = unat ?n * unat ?s" by (simp add: unat_word_ariths)
  have "unat (pp_output_block_number q + ?n * ?s) = unat (pp_output_block_number p)"
    using assms unat_u64_bound [of "pp_output_block_number p"] by (simp add: unat_word_ariths ns follows_def)
  then show p: "pp_output_block_number p = pp_output_block_number q + ?n * ?s"
    by (metis word_eq_iff_unsigned)
  have "?n * ?s \<le> pp_output_block_number p" using assms by (simp add: word_le_nat_alt ns follows_def)
  then have "saturating_sub_u64 (pp_output_block_number p) (?n * ?s) = pp_output_block_number q"
    using p by (simp add: saturating_sub_u64_def)
  then show "io_block d p i = pp_output_block_number q + (of_nat i + 1) * ?s" by (simp add: io_block_def)
qed

lemma judged_io:
  assumes "judged out d p" and "i < length (pp_io_field_elements p)"
  shows "i < length (pp_correct_io p)" "pp_correct_io p ! i = Some (hash_to_fe (out (io_block d p i)) = pp_io_field_elements p ! i)"
  using assms by (auto simp: judged_def nth_append)

text \<open>The first output at which a judged proposal differs from the node.\<close>

lemma output_fault_at:
  assumes judged: "judged out d p" and fault: "fault_of p = Some (Output i)"
  shows "i \<le> length (pp_io_field_elements p)"
    and "\<forall>j < i. hash_to_fe (out (io_block d p j)) = pp_io_field_elements p ! j"
    and "i < length (pp_io_field_elements p) \<Longrightarrow> hash_to_fe (out (io_block d p i)) \<noteq> pp_io_field_elements p ! i"
    and "i = length (pp_io_field_elements p) \<Longrightarrow> out (pp_output_block_number p) \<noteq> pp_output_root p"
proof -
  let ?io = "pp_io_field_elements p"
  from fault consider (io) "first_false (pp_correct_io p) = Some i"
    | (claim) "Some False \<notin> set (pp_correct_io p)" "pp_correct_claim p = Some False" "i = length ?io"
    by (auto simp: fault_of_def first_false_None split: option.splits if_splits)
  then have all: "i \<le> length ?io \<and> (\<forall>j < i. hash_to_fe (out (io_block d p j)) = ?io ! j) \<and>
      (i < length ?io \<longrightarrow> hash_to_fe (out (io_block d p i)) \<noteq> ?io ! i) \<and>
      (i = length ?io \<longrightarrow> out (pp_output_block_number p) \<noteq> pp_output_root p)"
  proof cases
    case io
    then have f: "i < length (pp_correct_io p)" "pp_correct_io p ! i = Some False" "\<forall>j < i. pp_correct_io p ! j \<noteq> Some False"
      by (auto simp: first_false_Some)
    have "i < length ?io" using f judged by (auto simp: judged_def nth_append split: if_splits)
    then show ?thesis using f judged_io [OF judged] by auto
  next
    case claim
    then have "\<forall>j < i. hash_to_fe (out (io_block d p j)) = ?io ! j"
      using judged_io [OF judged] by (metis (full_types) nth_mem)
    with claim judged show ?thesis by (auto simp: judged_def)
  qed
  then show "i \<le> length ?io" and "\<forall>j < i. hash_to_fe (out (io_block d p j)) = ?io ! j"
    and "i < length ?io \<Longrightarrow> hash_to_fe (out (io_block d p i)) \<noteq> ?io ! i"
    and "i = length ?io \<Longrightarrow> out (pp_output_block_number p) \<noteq> pp_output_root p" by auto
qed

lemma request_fault_proof_parts:
  assumes "request_fault_proof w a q p l1_head = Inr m" and "fault_of p = Some fault"
  shows "mp_agreed_l2_output_root m \<in> ran (sa_outputs a)"
    and "sa_outputs a (pp_output_block_number q + dp_output_block_span (sa_deployment a) * of_nat (divergence_point fault)) =
      Some (mp_agreed_l2_output_root m)"
    and "mp_claimed_l2_block_number m =
      pp_output_block_number q + dp_output_block_span (sa_deployment a) * of_nat (divergence_point fault) +
      dp_output_block_span (sa_deployment a)"
    and "sa_outputs a (mp_claimed_l2_block_number m) = Some (mp_claimed_l2_output_root m)"
    and "mp_precondition_validation_data m = None" and "mp_index m = pp_index p" and "mp_l1_head m = l1_head"
  using assms by (auto simp: request_fault_proof_def send_def res_simps Let_def add_u64_def mul_u64_def ran_def
      split: option.splits if_splits)

section \<open>Decisions\<close>

text \<open>The proposals to dispute: those of the deployment's open tournaments that the node contradicts.\<close>

definition disputable :: "(u64 \<Rightarrow> B256) \<Rightarrow> validate_args \<Rightarrow> validator_view \<Rightarrow> sync_agent \<Rightarrow> u64 \<Rightarrow> bool" where
  "disputable out args w a i \<longleftrightarrow>
     (\<exists>p q. sa_proposals a i = Some p \<and> sa_proposals a (pp_parent p) = Some q \<and> has_parent p \<and> pp_resolved_at p = 0 \<and>
        \<not> honest_proposal out (sa_deployment a) p \<and>
        (\<forall>n. va_final_l2_block args = Some n \<longrightarrow> pp_output_block_number q < n) \<and>
        vv_valid_child_signature w (pp_contract q) = 0 \<and> vv_proof_status w (pp_contract q) (pp_signature p) = 0 \<and>
        \<not> prior_sibling a q i (\<lambda>r. pp_signature r = pp_signature p) \<and>
        dp_proposal_output_count (sa_deployment a) \<noteq> 1 \<and>
        (va_fast_forward_start args \<le> pp_output_block_number p \<and> pp_output_block_number p \<le> va_fast_forward_target args \<longrightarrow>
           pp_successor q = None))"

definition faulty_output :: "sync_agent \<Rightarrow> u64 \<Rightarrow> bool" where
  "faulty_output a i \<longleftrightarrow> (\<exists>p n. sa_proposals a i = Some p \<and> fault_of p = Some (Output n))"

lemma decide_fault_iff:
  assumes "stored_ok out (sa_deployment a) p" and "has_parent p"
  shows "decide_fault w a q p i = Prove_Output_Fault \<longleftrightarrow>
      \<not> prior_sibling a q i (\<lambda>r. pp_signature r = pp_signature p) \<and> vv_proof_status w (pp_contract q) (pp_signature p) = 0 \<and>
      \<not> honest_proposal out (sa_deployment a) p \<and> (\<exists>n. fault_of p = Some (Output n))"
    and "decide_fault w a q p i = Prove_Trail_Fault \<longleftrightarrow>
      \<not> prior_sibling a q i (\<lambda>r. pp_signature r = pp_signature p) \<and> vv_proof_status w (pp_contract q) (pp_signature p) = 0 \<and>
      \<not> honest_proposal out (sa_deployment a) p \<and> \<not> (\<exists>n. fault_of p = Some (Output n))"
proof -
  have verdict: "is_correct p = Some (honest_proposal out (sa_deployment a) p)"
    using assms judged_verdict [of out "sa_deployment a" p] by (auto simp: stored_ok_def)
  moreover have "fault_of p \<noteq> None" if "\<not> honest_proposal out (sa_deployment a) p"
    using that verdict is_correct_False [of p] assms(1) by (auto simp: stored_ok_def)
  ultimately show "decide_fault w a q p i = Prove_Output_Fault \<longleftrightarrow>
      \<not> prior_sibling a q i (\<lambda>r. pp_signature r = pp_signature p) \<and> vv_proof_status w (pp_contract q) (pp_signature p) = 0 \<and>
      \<not> honest_proposal out (sa_deployment a) p \<and> (\<exists>n. fault_of p = Some (Output n))"
    "decide_fault w a q p i = Prove_Trail_Fault \<longleftrightarrow>
      \<not> prior_sibling a q i (\<lambda>r. pp_signature r = pp_signature p) \<and> vv_proof_status w (pp_contract q) (pp_signature p) = 0 \<and>
      \<not> honest_proposal out (sa_deployment a) p \<and> \<not> (\<exists>n. fault_of p = Some (Output n))"
    by (auto simp: decide_fault_def is_output_def split: option.splits fault.splits)
qed

lemma decide_single_no_fault:
  "decide_single_output args a q p i \<noteq> Prove_Output_Fault" "decide_single_output args a q p i \<noteq> Prove_Trail_Fault"
  by (auto simp: decide_single_output_def Let_def split: option.splits)

text \<open>A proposal with its parent in an open tournament.\<close>

lemma decide_open:
  assumes "sa_proposals a i = Some p" and "sa_proposals a (pp_parent p) = Some q" and "pp_canonical p \<noteq> None"
  shows "decide args w a i =
     (if \<not> has_parent p \<or> pp_resolved_at p \<noteq> 0 \<or> (\<exists>n. va_final_l2_block args = Some n \<and> n \<le> pp_output_block_number q) \<or>
        vv_valid_child_signature w (pp_contract q) \<noteq> 0 then Skip
      else if va_fast_forward_start args \<le> pp_output_block_number p \<and> pp_output_block_number p \<le> va_fast_forward_target args \<and>
        pp_canonical p = Some True then Prove_Validity i (va_max_validity_proving_delay args)
      else if va_fast_forward_start args \<le> pp_output_block_number p \<and> pp_output_block_number p \<le> va_fast_forward_target args \<and>
        pp_successor q \<noteq> None then Skip
      else if dp_proposal_output_count (sa_deployment a) = 1 then decide_single_output args a q p i
      else decide_fault w a q p i)"
  using assms by (auto simp: decide_def fetch_is_successor_validity_proven_def Let_def split: option.splits)

lemma decide_faults:
  assumes ok: "agent_ok out d a"
  shows "decide args w a i = Prove_Output_Fault \<longleftrightarrow> disputable out args w a i \<and> faulty_output a i"
    and "decide args w a i = Prove_Trail_Fault \<longleftrightarrow> disputable out args w a i \<and> \<not> faulty_output a i"
proof -
  have "(decide args w a i = Prove_Output_Fault \<longleftrightarrow> disputable out args w a i \<and> faulty_output a i) \<and>
    (decide args w a i = Prove_Trail_Fault \<longleftrightarrow> disputable out args w a i \<and> \<not> faulty_output a i)"
  proof (cases "\<exists>p q. sa_proposals a i = Some p \<and> sa_proposals a (pp_parent p) = Some q \<and> has_parent p")
    case False
    then have "decide args w a i = Skip" by (auto simp: decide_def split: option.splits)
    with False show ?thesis by (auto simp: disputable_def)
  next
    case True
    then obtain p q where p: "sa_proposals a i = Some p" "sa_proposals a (pp_parent p) = Some q" "has_parent p" by auto
    have st: "stored_ok out (sa_deployment a) p"
      using ok proposals_okD(2) [of out d "sa_proposals a", OF _ p(1)] by (simp add: agent_ok_def)
    have "is_correct p = Some (honest_proposal out (sa_deployment a) p)"
      using st p(3) judged_verdict [of out "sa_deployment a" p] by (auto simp: stored_ok_def)
    then have canon: "pp_canonical p = Some True \<Longrightarrow> honest_proposal out (sa_deployment a) p" "pp_canonical p \<noteq> None"
      using st by (auto simp: stored_ok_def)
    have final: "(\<exists>n. va_final_l2_block args = Some n \<and> n \<le> pp_output_block_number q) \<longleftrightarrow>
        \<not> (\<forall>n. va_final_l2_block args = Some n \<longrightarrow> pp_output_block_number q < n)" by (auto simp: not_less)
    have disp: "disputable out args w a i \<longleftrightarrow> pp_resolved_at p = 0 \<and> \<not> honest_proposal out (sa_deployment a) p \<and>
        (\<forall>n. va_final_l2_block args = Some n \<longrightarrow> pp_output_block_number q < n) \<and>
        vv_valid_child_signature w (pp_contract q) = 0 \<and> vv_proof_status w (pp_contract q) (pp_signature p) = 0 \<and>
        \<not> prior_sibling a q i (\<lambda>r. pp_signature r = pp_signature p) \<and> dp_proposal_output_count (sa_deployment a) \<noteq> 1 \<and>
        (va_fast_forward_start args \<le> pp_output_block_number p \<and> pp_output_block_number p \<le> va_fast_forward_target args \<longrightarrow>
           pp_successor q = None)"
      using p by (simp add: disputable_def)
    have out: "faulty_output a i \<longleftrightarrow> (\<exists>n. fault_of p = Some (Output n))" using p by (simp add: faulty_output_def)
    show ?thesis
      unfolding decide_open [OF p(1,2) canon(2)] final disp out
      using decide_fault_iff [OF st p(3), of w q i] decide_single_no_fault canon(1) p(3) by auto
  qed
  then show "decide args w a i = Prove_Output_Fault \<longleftrightarrow> disputable out args w a i \<and> faulty_output a i"
    and "decide args w a i = Prove_Trail_Fault \<longleftrightarrow> disputable out args w a i \<and> \<not> faulty_output a i" by auto
qed

lemma process_proposal_queued:
  assumes "process_proposal args w a b i = Inr b'"
  shows "snd ` set (vb_output_fault b') = snd ` set (vb_output_fault b) \<union> {j. j = i \<and> decide args w a i = Prove_Output_Fault}"
    and "snd ` set (vb_trail_fault b') = snd ` set (vb_trail_fault b) \<union> {j. j = i \<and> decide args w a i = Prove_Trail_Fault}"
  using assms by (auto simp: process_proposal_def res_simps split: decision.splits)

lemma process_proposals_queued:
  assumes "process_proposals args w a ls b = Inr b'"
  shows "snd ` set (vb_output_fault b') = snd ` set (vb_output_fault b) \<union> {i \<in> set ls. decide args w a i = Prove_Output_Fault} \<and>
    snd ` set (vb_trail_fault b') = snd ` set (vb_trail_fault b) \<union> {i \<in> set ls. decide args w a i = Prove_Trail_Fault}"
  using assms unfolding process_proposals_def
proof (induction ls arbitrary: b)
  case (Cons i ls)
  from Cons.prems obtain b1 where b1: "process_proposal args w a b i = Inr b1"
      "try_fold (process_proposal args w a) b1 ls = Inr b'" by (auto simp: res_simps)
  from Cons.IH [OF b1(2)] process_proposal_queued [OF b1(1)] show ?case by auto
qed simp

section \<open>Requests in the buffers\<close>

text \<open>A request is dropped when its proposal or its parent was freed, or when it has been proven.\<close>

definition dropped :: "validator_view \<Rightarrow> sync_agent \<Rightarrow> u64 \<Rightarrow> bool" where
  "dropped w a i \<longleftrightarrow>
     (case sa_proposals a i of
        None \<Rightarrow> i \<le> cu_last_resolved_game (sa_cursor a)
      | Some p \<Rightarrow>
          (case sa_proposals a (pp_parent p) of
             None \<Rightarrow> pp_parent p \<le> cu_last_resolved_game (sa_cursor a)
           | Some q \<Rightarrow> vv_proof_status w (pp_contract q) (pp_signature p) \<noteq> 0))"

lemma heap_peek_in: "heap_peek b = Some x \<Longrightarrow> x \<in> set b"
  by (induction b arbitrary: x) (auto split: option.splits if_splits)

lemma request_index: "request_proof is_fault w a q p h = Inr m \<Longrightarrow> mp_index m = pp_index p"
  by (auto simp: request_proof_def request_fault_proof_def request_validity_proof_def send_def res_simps Let_def
      split: option.splits if_splits)

lemma dispatch_request_outcome:
  assumes "agent_ok out d a" and "dispatch_request is_fault w a heads i = Inr (heads', r)"
  shows "r = Drop \<Longrightarrow> dropped w a i" and "r = Sent m \<Longrightarrow> mp_index m = i"
proof -
  have P: "pp_index p = i" if "sa_proposals a i = Some p" for p
    using assms(1) proposals_okD(1) that by (auto simp: agent_ok_def)
  have "(r = Drop \<longrightarrow> dropped w a i) \<and> (r = Sent m \<longrightarrow> mp_index m = i)"
  proof (cases "\<exists>p q. sa_proposals a i = Some p \<and> sa_proposals a (pp_parent p) = Some q \<and>
      vv_proof_status w (pp_contract q) (pp_signature p) = 0")
    case False
    then show ?thesis using assms(2)
      by (auto simp: dispatch_request_def dropped_def not_less split: option.splits if_splits)
  next
    case True
    then obtain p q where p: "sa_proposals a i = Some p" "sa_proposals a (pp_parent p) = Some q"
        "vv_proof_status w (pp_contract q) (pp_signature p) = 0" by auto
    with assms(2) obtain h l where "get_next_l1_head a heads p = Inr (h, l)"
        and "(case l of None \<Rightarrow> Inr (h, Requeue) | Some l1_head \<Rightarrow>
          (case request_proof is_fault w a q p l1_head of Inl (Panic m) \<Rightarrow> Inl (Panic m)
           | Inl (Bail _) \<Rightarrow> Inr (h, Requeue) | Inr m \<Rightarrow> Inr (h, Sent m))) = Inr (heads', r)"
      by (auto simp: dispatch_request_def res_simps)
    then show ?thesis using P [OF p(1)] request_index
      by (cases l) (auto split: sum.splits failure.splits dest: request_index)
  qed
  then show "r = Drop \<Longrightarrow> dropped w a i" and "r = Sent m \<Longrightarrow> mp_index m = i" by auto
qed

lemma dispatch_loop_accounts:
  assumes ok: "agent_ok out d a" and "dispatch_loop n is_fault w a (b, heads, sent) = Inr (b', heads', sent')"
  shows "snd ` set b \<subseteq> snd ` set b' \<union> mp_index ` set sent' \<union> Collect (dropped w a) \<and>
    set sent \<subseteq> set sent' \<and> mp_index ` (set sent' - set sent) \<subseteq> snd ` set b \<and> snd ` set b' \<subseteq> snd ` set b"
  using assms(2)
proof (induction n arbitrary: b heads sent)
  case (Suc n)
  show ?case
  proof (cases "heap_peek b")
    case None
    then show ?thesis using Suc.prems by auto
  next
    case (Some x)
    obtain t i where x: "x = (t, i)" by fastforce
    let ?b = "remove1 (t, i) b"
    have b: "(t, i) \<in> set b" using heap_peek_in [OF Some] x by simp
    have rest: "snd ` set b = insert i (snd ` set ?b)"
    proof -
      have "set b = insert (t, i) (set ?b)" using b by (induction b) auto
      then show ?thesis by simp
    qed
    show ?thesis
    proof (cases "vv_now w < t")
      case True
      then show ?thesis using Suc.prems Some x by auto
    next
      case False
      with Suc.prems Some x obtain retry h r where
          r: "dispatch_request is_fault w a heads i = Inr (h, r)"
          and loop: "(case r of Requeue \<Rightarrow> dispatch_loop n is_fault w a ((retry, i) # ?b, h, sent)
            | Drop \<Rightarrow> dispatch_loop n is_fault w a (?b, h, sent)
            | Sent m \<Rightarrow> dispatch_loop n is_fault w a (?b, h, sent @ [m])) = Inr (b', heads', sent')"
        by (auto simp: res_simps Let_def)
      note outcome = dispatch_request_outcome [OF ok r]
      show ?thesis
      proof (cases r)
        case Requeue
        then show ?thesis using Suc.IH [of "(retry, i) # ?b" h sent] loop unfolding rest by auto
      next
        case Drop
        then show ?thesis using Suc.IH [of ?b h sent] loop outcome(1) unfolding rest by auto
      next
        case (Sent m)
        have IH: "snd ` set ?b \<subseteq> snd ` set b' \<union> mp_index ` set sent' \<union> Collect (dropped w a)"
            "set (sent @ [m]) \<subseteq> set sent'" "mp_index ` (set sent' - set (sent @ [m])) \<subseteq> snd ` set ?b"
            "snd ` set b' \<subseteq> snd ` set ?b"
          using Suc.IH [of ?b h "sent @ [m]"] loop Sent by auto
        have m: "mp_index m = i" using outcome(2) [OF Sent] .
        have "i \<in> mp_index ` set sent'" using IH(2) m by auto
        moreover have "mp_index ` (set sent' - set sent) \<subseteq> insert i (snd ` set ?b)"
        proof
          fix y assume "y \<in> mp_index ` (set sent' - set sent)"
          then obtain m' where "m' \<in> set sent'" "m' \<notin> set sent" "y = mp_index m'" by auto
          then show "y \<in> insert i (snd ` set ?b)" using IH(3) m by (cases "m' = m") auto
        qed
        ultimately show ?thesis using IH unfolding rest by auto
      qed
    qed
  qed
qed auto

lemma fault_request_sound:
  assumes reach: "agent_reach out d a" and p: "sa_proposals a k = Some p" "has_parent p"
    and q: "sa_proposals a (pp_parent p) = Some q" "is_correct q = Some True"
      "has_parent q \<or> out (pp_output_block_number q) = pp_output_root q"
    and follows: "follows d q p" and fault: "fault_of p = Some (Output i)"
    and request: "request_fault_proof w a q p l1_head = Inr m"
  shows "i < unat (dp_proposal_output_count d) \<and>
    (if i = 0 then mp_agreed_l2_output_root m = pp_output_root q
     else hash_to_fe (mp_agreed_l2_output_root m) = pp_io_field_elements p ! (i - 1)) \<and>
    mp_claimed_l2_block_number m = pp_output_block_number q + (of_nat i + 1) * dp_output_block_span d \<and>
    mp_claimed_l2_output_root m = out (mp_claimed_l2_block_number m) \<and>
    (if i = length (pp_io_field_elements p)
     then mp_claimed_l2_block_number m = pp_output_block_number p \<and> mp_claimed_l2_output_root m \<noteq> pp_output_root p
     else hash_to_fe (mp_claimed_l2_output_root m) \<noteq> pp_io_field_elements p ! i)"
proof -
  have ok: "agent_ok out d a" using reach_ok [OF reach] .
  then have P: "proposals_ok out d (sa_proposals a)" and dep: "sa_deployment a = d"
    and outs: "\<And>n h. sa_outputs a n = Some h \<Longrightarrow> h = out n" by (auto simp: agent_ok_def outputs_ok_def)
  have judged: "judged out d p" using proposals_okD(2) [OF P p(1)] p(2) by (simp add: stored_ok_def)
  note f = output_fault_at [OF judged fault] and parts = request_fault_proof_parts [OF request fault]
  note block = io_block_follows [OF follows]
  have "out (pp_output_block_number q) = pp_output_root q"
    using q(3) judged_verdict [of out d q] q(2) proposals_okD(2) [OF P q(1)]
    by (auto simp: stored_ok_def honest_proposal_def)
  moreover have agreed: "mp_agreed_l2_output_root m = out (pp_output_block_number q + dp_output_block_span d * of_nat i)"
    using parts(2) outs dep by (simp add: divergence_point_def)
  moreover have "pp_output_block_number q + dp_output_block_span d * of_nat i = io_block d p (i - 1)" if "0 < i"
    using that block(1) [of "i - 1"] by (cases i) (simp_all add: algebra_simps)
  ultimately have "if i = 0 then mp_agreed_l2_output_root m = pp_output_root q
      else hash_to_fe (mp_agreed_l2_output_root m) = pp_io_field_elements p ! (i - 1)"
    using f(2) by (cases i) auto
  moreover have n: "mp_claimed_l2_block_number m = pp_output_block_number q + (of_nat i + 1) * dp_output_block_span d"
    using parts(3) dep by (simp add: divergence_point_def algebra_simps)
  moreover have claimed: "mp_claimed_l2_output_root m = out (mp_claimed_l2_block_number m)" using parts(4) outs by simp
  moreover have "of_nat i + 1 = dp_proposal_output_count d" if "i = length (pp_io_field_elements p)"
    using arg_cong [of _ _ "of_nat :: nat \<Rightarrow> u64", OF follows [unfolded follows_def, THEN conjunct1]] that by (simp add: add.commute)
  then have "i = length (pp_io_field_elements p) \<Longrightarrow> mp_claimed_l2_block_number m = pp_output_block_number p"
    using n block(2) by simp
  ultimately show ?thesis
    using f follows block(1) [of i] by (auto simp: follows_def)
qed

section \<open>Properties\<close>

text \<open>
  C38. A fault proof disputes what it should. In every reachable state, the request for a proof of the
  output fault of a stored proposal, whose parent is correct, starts from a root the proposal shares
  with the node, its parent's claim or the published output before the fault, and ends at the node's
  root for the block of the fault, from which the proposal's own output differs, as a field element
  or, for the final output, as a root. These are the comparisons that the tournament contract makes.
\<close>

theorem fault_request_disputes:
  assumes reach: "agent_reach out d a" and p: "sa_proposals a k = Some p" "has_parent p"
    and q: "sa_proposals a (pp_parent p) = Some q" "is_correct q = Some True"
      "has_parent q \<or> out (pp_output_block_number q) = pp_output_root q"
    and follows: "follows d q p" and fault: "fault_of p = Some (Output i)"
    and request: "request_fault_proof w a q p l1_head = Inr m"
  shows "i < unat (dp_proposal_output_count d) \<and>
    (if i = 0 then mp_agreed_l2_output_root m = pp_output_root q
     else hash_to_fe (mp_agreed_l2_output_root m) = pp_io_field_elements p ! (i - 1)) \<and>
    mp_claimed_l2_block_number m = pp_output_block_number q + (of_nat i + 1) * dp_output_block_span d \<and>
    mp_claimed_l2_output_root m = out (mp_claimed_l2_block_number m) \<and>
    (if i = length (pp_io_field_elements p)
     then mp_claimed_l2_block_number m = pp_output_block_number p \<and> mp_claimed_l2_output_root m \<noteq> pp_output_root p
     else hash_to_fe (mp_claimed_l2_output_root m) \<noteq> pp_io_field_elements p ! i)"
  using assms by (rule fault_request_sound)

lemma faulty_known_proposals:
  "sa_proposals (faulty_known s) 1 = Some (faulty_judged s)" "sa_proposals (faulty_known s) 0 = Some (faulty_treasury\<lparr>pp_children := {1}\<rparr>)"
  by (simp_all add: faulty_known_def)

lemma faulty_judged_facts:
  "has_parent (faulty_judged s)" "pp_parent (faulty_judged s) = 0" "fault_of (faulty_judged (output_case root)) = Some (Output 0)"
proof -
  have "first_false (replicate 4095 (Some True)) = None" by (simp add: first_false_None)
  then show "has_parent (faulty_judged s)" "pp_parent (faulty_judged s) = 0"
    "fault_of (faulty_judged (output_case root)) = Some (Output 0)"
    by (simp_all add: faulty_judged_def faulty_loaded_def has_parent_def fault_of_def output_case_def)
qed

lemma faulty_treasury_facts:
  "is_correct (faulty_treasury\<lparr>pp_children := {1}\<rparr>) = Some True"
  "sample_out (pp_output_block_number (faulty_treasury\<lparr>pp_children := {1}\<rparr>)) = pp_output_root (faulty_treasury\<lparr>pp_children := {1}\<rparr>)"
  "follows sample_deployment (faulty_treasury\<lparr>pp_children := {1}\<rparr>) (faulty_judged s)"
  by (simp_all add: faulty_treasury_def load_treasury_def faulty_game_def sample_game_def is_correct_def sample_out_def
      follows_def faulty_judged_def faulty_loaded_def sample_deployment_def)

lemma faulty_request:
  "request_fault_proof sample_validator_view (faulty_known (output_case root)) (faulty_treasury\<lparr>pp_children := {1}\<rparr>) (faulty_judged (output_case root)) 7 =
     Inr (Proposal_Message 1 None 7 5 100 1 101)"
  using faulty_judged_facts(3) [of root]
  by (simp add: request_fault_proof_def divergence_point_def faulty_known_def faulty_first_def faulty_fetched_def sample_eval
      faulty_treasury_def load_treasury_def faulty_game_def mul_u64_def add_u64_def sample_validator_view_def send_def
      faulty_judged_def faulty_loaded_def)

theorem fault_request_disputes_witness:
  "request_fault_proof sample_validator_view (faulty_known (output_case 9)) (faulty_treasury\<lparr>pp_children := {1}\<rparr>) (faulty_judged (output_case 9)) 7 =
     Inr (Proposal_Message 1 None 7 5 100 1 101) \<and> hash_to_fe 101 \<noteq> pp_io_field_elements (faulty_judged (output_case 9)) ! 0"
  using fault_request_disputes [OF faulty_known_reach [OF output_case_ok [of 9, simplified]] faulty_known_proposals(1) faulty_judged_facts(1) _
      faulty_treasury_facts(1) disjI2 [OF faulty_treasury_facts(2)] faulty_treasury_facts(3) faulty_judged_facts(3)
      faulty_request]
    faulty_request faulty_known_proposals(2) faulty_judged_facts(2)
  by (simp add: faulty_judged_def faulty_loaded_def)

text \<open>
  C39. Exactly the faulty proposals are disputed. When the validator processes newly loaded proposals in
  a reachable state, with empty buffers, it queues fault proofs for precisely those that are open to
  dispute and contradict the node: an output fault proof for an output fault, a trail fault proof for
  any other. In particular no proposal that agrees with the node is ever disputed.
\<close>

theorem faults_disputed_exactly:
  assumes reach: "agent_reach out d a"
    and process: "process_proposals args w a loaded \<lparr>vb_validity = [], vb_output_fault = [], vb_trail_fault = []\<rparr> = Inr b"
  shows "snd ` set (vb_output_fault b) = {i \<in> set loaded. disputable out args w a i \<and> faulty_output a i} \<and>
    snd ` set (vb_trail_fault b) = {i \<in> set loaded. disputable out args w a i \<and> \<not> faulty_output a i}"
  using process_proposals_queued [OF process] decide_faults [OF reach_ok [OF reach]] by simp

theorem faults_disputed_exactly_witness:
  "\<exists>b. process_proposals sample_validate_args sample_validator_view (faulty_known (output_case 9)) [0, 1]
     \<lparr>vb_validity = [], vb_output_fault = [], vb_trail_fault = []\<rparr> = Inr b \<and> vb_output_fault b = [(50, 1)] \<and>
     disputable sample_out sample_validate_args sample_validator_view (faulty_known (output_case 9)) 1"
proof -
  let ?b = "\<lparr>vb_validity = [], vb_output_fault = [(50, 1)], vb_trail_fault = []\<rparr>"
  have treasury: "decide sample_validate_args sample_validator_view (faulty_known (output_case 9)) 0 = Skip"
    using faulty_known_proposals(2)
    by (simp add: decide_def faulty_treasury_def load_treasury_def faulty_game_def sample_game_def has_parent_def)
  have canon: "pp_canonical (faulty_judged (output_case 9)) = Some False" "pp_resolved_at (faulty_judged (output_case 9)) = 0"
      "is_correct (faulty_judged (output_case 9)) = Some False"
    by (simp_all add: faulty_judged_def faulty_loaded_def is_correct_def)
  have "decide sample_validate_args sample_validator_view (faulty_known (output_case 9)) 1 =
      decide_fault sample_validator_view (faulty_known (output_case 9)) (faulty_treasury\<lparr>pp_children := {1}\<rparr>) (faulty_judged (output_case 9)) 1"
    using faulty_judged_facts faulty_known_proposals canon
    by (subst decide_open [of _ _ "faulty_judged (output_case 9)" "faulty_treasury\<lparr>pp_children := {1}\<rparr>"])
      (auto simp: sample_validate_args_def sample_validator_view_def faulty_known_def faulty_first_def faulty_fetched_def sample_eval
        faulty_judged_def faulty_loaded_def)
  also have "\<dots> = Prove_Output_Fault"
    using faulty_judged_facts(3) canon
    by (simp add: decide_fault_def prior_sibling_def sample_validator_view_def is_output_def)
  finally have process: "process_proposals sample_validate_args sample_validator_view (faulty_known (output_case 9)) [0, 1]
      \<lparr>vb_validity = [], vb_output_fault = [], vb_trail_fault = []\<rparr> = Inr ?b"
    using treasury
    by (simp add: process_proposals_def process_proposal_def random_processing_time_def sample_validator_view_def
        sample_validate_args_def add_u64_def)
  have "1 \<in> snd ` set (vb_output_fault ?b)" by simp
  then have "disputable sample_out sample_validate_args sample_validator_view (faulty_known (output_case 9)) 1"
    unfolding conjunct1 [OF faults_disputed_exactly [OF faulty_known_reach [OF output_case_ok [of 9, simplified]] process]] by blast
  with process show ?thesis by (intro exI [of _ ?b]) simp
qed

text \<open>
  C40. No request is lost. Dispatching a buffer in a reachable state leaves each requested proposal in
  the buffer, or sends a request for it, or drops it because it or its parent has been freed or
  because a proof of it is posted already; and requests are sent only for what was in the buffer.
\<close>

theorem requests_accounted:
  assumes reach: "agent_reach out d a" and "dispatch_proof_requests is_fault w a b heads = Inr (b', heads', sent)"
  shows "snd ` set b \<subseteq> snd ` set b' \<union> mp_index ` set sent \<union> Collect (dropped w a) \<and> mp_index ` set sent \<subseteq> snd ` set b"
  using dispatch_loop_accounts [OF reach_ok [OF reach] assms(2) [unfolded dispatch_proof_requests_def]] by auto

theorem requests_accounted_witness:
  "\<exists>b' heads' sent. dispatch_proof_requests True sample_validator_view (faulty_known (output_case 9)) [(50, 1), (60, 0)] Map.empty =
     Inr (b', heads', sent :: unit message list) \<and> 1 \<in> mp_index ` set sent"
proof -
  have head: "get_next_l1_head (faulty_known (output_case 9)) Map.empty (faulty_judged (output_case 9)) = Inr ([1 \<mapsto> 3], Some 7)"
    by (simp add: get_next_l1_head_def faulty_judged_def faulty_loaded_def faulty_known_def faulty_first_def unwrap_opt_def)
  have status: "vv_proof_status sample_validator_view c h = 0" for c h by (simp add: sample_validator_view_def)
  have now: "vv_now sample_validator_view = 50" by (simp add: sample_validator_view_def)
  have "dispatch_request True sample_validator_view (faulty_known (output_case 9)) Map.empty 1 =
      Inr ([1 \<mapsto> 3], Sent (Proposal_Message 1 None 7 5 100 1 101 :: unit message))"
    using faulty_known_proposals faulty_judged_facts(2) head status
    by (simp add: dispatch_request_def request_proof_def faulty_request)
  then have dispatch: "dispatch_proof_requests True sample_validator_view (faulty_known (output_case 9)) [(50, 1), (60, 0)] Map.empty =
      Inr ([(60, 0)], [1 \<mapsto> 3], [Proposal_Message 1 None 7 5 100 1 101 :: unit message])"
    using now by (simp add: dispatch_proof_requests_def heap_before_def add_u64_def Let_def)
  have "\<not> dropped sample_validator_view (faulty_known (output_case 9)) 1"
    using faulty_known_proposals faulty_judged_facts(2) by (simp add: dropped_def sample_validator_view_def)
  with requests_accounted [OF faulty_known_reach [OF output_case_ok [of 9, simplified]] dispatch] dispatch show ?thesis by auto
qed

end
