(* ===== verification/Settlement.thy ===== *)
theory Settlement
  imports Submission Disputes
begin

text \<open>
  The validator against the contract: the transaction made of a receipt for a requested fault proof
  passes the checks of the tournament contract, which asks for exactly the journal of that receipt and
  records the fault, if the game it takes the L1 head from is one of the treasury's; a trail fault
  likewise. One case is excepted: the proof of a fault in the first output is taken for a validity
  proof when the claimed root is the correct root of the first output.
\<close>

section \<open>The contracts of a proposal\<close>

definition tournament_of :: "sync_deployment \<Rightarrow> proposal \<Rightarrow> B256 \<Rightarrow> B256 \<Rightarrow> tournament_contract \<Rightarrow> bool" where
  "tournament_of d q config image_id t \<longleftrightarrow>
     kt_root_claim t = pp_output_root q \<and> kt_l2_block_number t = pp_output_block_number q \<and>
     kt_proposal_output_count t = dp_proposal_output_count d \<and> kt_output_block_span t = dp_output_block_span d \<and>
     kt_config_hash t = config \<and> kt_fpvm_image_id t = image_id"

text \<open>The precompiles do what the KZG library does.\<close>

definition child_of :: "point_kzg \<Rightarrow> proposal \<Rightarrow> child_contract \<Rightarrow> bool" where
  "child_of K p c \<longleftrightarrow>
     kc_game_index c = pp_index p \<and> kc_signature c = pp_signature p \<and>
     kc_root_claim c = pp_output_root p \<and> kc_blob_hashes c = map fst (pp_io_blobs p) \<and> kc_point c = root_of_unity \<and>
     kc_versioned_hash c = kzg_to_versioned_hash K \<and>
     (\<forall>z fe commitment kzg_proof. kc_point_evaluation c z fe commitment kzg_proof \<longleftrightarrow>
        verify_kzg_proof K commitment z fe kzg_proof = Inr True)"

text \<open>
  The state of the tournament when the validator submits: the children the agent knows of are the first
  to have joined, in the order of their games; the child of the proposal is the proposal's contract and
  in progress; no contender has won; the proof statuses are those the validator has read.
\<close>

definition tournament_open ::
  "point_kzg \<Rightarrow> validator_view \<Rightarrow> proposal \<Rightarrow> proposal \<Rightarrow> tournament_contract \<Rightarrow> bool" where
  "tournament_open K w q p t \<longleftrightarrow>
     (\<exists>later. map kc_game_index (kt_children t) = sorted_list_of_set (pp_children q) @ later) \<and>
     (\<forall>c \<in> set (kt_children t). kc_game_index c = pp_index p \<longrightarrow> child_of K p c \<and> kc_status c = 0) \<and>
     (kt_contender_index t < length (kt_children t) \<longrightarrow> kc_status (kt_children t ! kt_contender_index t) \<noteq> 2) \<and>
     kt_proof_status t = vv_proof_status w (pp_contract q)"

lemma index_in_Some: "index_in xs x = Some i \<Longrightarrow> i < length xs \<and> xs ! i = x"
  by (induction xs arbitrary: i) (auto split: if_splits)

lemma index_of_child:
  assumes "child_index q k = Some child"
  shows "unat child < length (sorted_list_of_set (pp_children q))" "sorted_list_of_set (pp_children q) ! unat child = k"
proof -
  let ?cs = "sorted_list_of_set (pp_children q)"
  from assms obtain i where i: "index_in ?cs k = Some i" "child = of_nat i" by (auto simp: child_index_def)
  have "length ?cs \<le> card (UNIV :: u64 set)" by (simp add: card_mono del: card_word)
  then have "unat child = i" using index_in_Some [OF i(1)] i(2) by (simp add: unat_of_nat card_word)
  with index_in_Some [OF i(1)] show "unat child < length ?cs" "?cs ! unat child = k" by simp_all
qed

lemma playing_child_of:
  assumes t: "tournament_open K w q p t" and i: "child_index q (pp_index p) = Some child"
  obtains c where "playing_child t child = Inr c" "child_of K p c"
proof -
  let ?n = "unat child" and ?cs = "sorted_list_of_set (pp_children q)"
  from t obtain later where games: "map kc_game_index (kt_children t) = ?cs @ later" by (auto simp: tournament_open_def)
  have n: "?n < length (kt_children t)"
    using index_of_child(1) [OF i] arg_cong [OF games, of length] by simp
  have "kc_game_index (kt_children t ! ?n) = pp_index p"
    using index_of_child [OF i] arg_cong [OF games, of "\<lambda>xs. xs ! ?n"] n by (simp add: nth_append)
  then have "child_of K p (kt_children t ! ?n)" "kc_status (kt_children t ! ?n) = 0"
    using t n by (simp_all add: tournament_open_def)
  moreover have "playing_child t child = Inr (kt_children t ! ?n)"
    using t n \<open>kc_status (kt_children t ! ?n) = 0\<close> by (auto simp: playing_child_def index_vec_def tournament_open_def)
  ultimately show ?thesis using that by blast
qed

text \<open>The blob of a position is authentic, and the library opens it there as the given element.\<close>

definition opens_at :: "point_kzg \<Rightarrow> proposal \<Rightarrow> u64 \<Rightarrow> U256 \<Rightarrow> bool" where
  "opens_at K p position fe \<longleftrightarrow>
     (\<exists>b kzg_proof. io_blob_for p position = Inr b \<and>
        blob_fe_proof K (bd_blob (snd b)) (unat position mod FIELD_ELEMENTS_PER_BLOB) = Inr (kzg_proof, fe) \<and>
        blob_to_kzg_commitment K (bd_blob (snd b)) = Inr (bd_kzg_commitment (snd b)) \<and>
        kzg_to_versioned_hash K (bd_kzg_commitment (snd b)) = fst b)"

lemma unat_position:
  "as_usize host (position div of_nat FIELD_ELEMENTS_PER_BLOB) = unat position div FIELD_ELEMENTS_PER_BLOB"
  "as_usize host (position mod of_nat FIELD_ELEMENTS_PER_BLOB) = unat position mod FIELD_ELEMENTS_PER_BLOB"
proof -
  have F: "unat (of_nat FIELD_ELEMENTS_PER_BLOB :: u64) = FIELD_ELEMENTS_PER_BLOB" by (simp add: FIELD_ELEMENTS_PER_BLOB_def)
  have eq: "as_usize host w = unat w" for w using unat_u64_bound [of w] by (simp only: as_usize_def build_simps) simp
  show "as_usize host (position div of_nat FIELD_ELEMENTS_PER_BLOB) = unat position div FIELD_ELEMENTS_PER_BLOB"
    "as_usize host (position mod of_nat FIELD_ELEMENTS_PER_BLOB) = unat position mod FIELD_ELEMENTS_PER_BLOB"
    by (simp_all add: eq unat_div_distrib unat_mod_distrib F)
qed

lemma opened_position:
  assumes "opens_at K p position fe" and c: "child_of K p c"
  obtains commitment kzg_proof where "io_commitment_for p position = Inr commitment" "io_proof_for K p position = Inr kzg_proof"
    "verifyIntermediateOutput c position fe commitment kzg_proof"
proof -
  from assms(1) obtain b kzg_proof where b: "io_blob_for p position = Inr b"
    and fe: "blob_fe_proof K (bd_blob (snd b)) (unat position mod FIELD_ELEMENTS_PER_BLOB) = Inr (kzg_proof, fe)"
    and auth: "blob_to_kzg_commitment K (bd_blob (snd b)) = Inr (bd_kzg_commitment (snd b))"
      "kzg_to_versioned_hash K (bd_kzg_commitment (snd b)) = fst b" by (auto simp: opens_at_def)
  have at: "unat position div FIELD_ELEMENTS_PER_BLOB < length (pp_io_blobs p)"
      "b = pp_io_blobs p ! (unat position div FIELD_ELEMENTS_PER_BLOB)"
    using b by (auto simp: io_blob_for_def unat_position index_vec_def split: if_splits)
  have "verify_kzg_proof K (bd_kzg_commitment (snd b)) (root_of_unity (unat position mod FIELD_ELEMENTS_PER_BLOB)) fe kzg_proof = Inr True"
    using fe auth(1) by (auto simp: blob_fe_proof_def res_simps Let_def bail_def split: if_splits)
  then have "verifyIntermediateOutput c position fe (bd_kzg_commitment (snd b)) kzg_proof"
    using c at auth(2) by (simp add: verifyIntermediateOutput_def child_of_def)
  moreover have "io_commitment_for p position = Inr (bd_kzg_commitment (snd b))" by (simp add: io_commitment_for_def b)
  moreover have "io_proof_for K p position = Inr kzg_proof" by (simp add: io_proof_for_def b unat_position fe)
  ultimately show ?thesis using that by blast
qed

lemma open_output_verifies:
  assumes "opens_at K p position fe" and "child_of K p c"
  obtains commitment kzg_proof where "open_output K p position = Inr ([commitment], [kzg_proof])"
    "verifyIntermediateOutput c position fe commitment kzg_proof"
proof -
  obtain commitment kzg_proof where "io_commitment_for p position = Inr commitment" "io_proof_for K p position = Inr kzg_proof"
    "verifyIntermediateOutput c position fe commitment kzg_proof" using assms by (rule opened_position)
  then show ?thesis by (intro that [of commitment kzg_proof]) (simp_all add: open_output_def)
qed

section \<open>Blocks of a proposal\<close>

lemma claimed_block_inner:
  assumes follows: "follows d q p" and span: "0 < dp_output_block_span d" and i: "i < length (pp_io_field_elements p)"
  shows "pp_output_block_number q + (of_nat i + 1) * dp_output_block_span d \<noteq> pp_output_block_number p"
proof -
  let ?s = "unat (dp_output_block_span d)" and ?n = "unat (dp_proposal_output_count d)"
  have f: "length (pp_io_field_elements p) + 1 = ?n" "unat (pp_output_block_number p) = unat (pp_output_block_number q) + ?n * ?s"
    using follows by (auto simp: follows_def)
  have s: "0 < ?s" using span by (simp add: unat_gt_0 word_neq_0_conv [symmetric])
  then have less: "(i + 1) * ?s < ?n * ?s" using i f(1) by (intro mult_strict_right_mono) simp_all
  have sum: "unat (pp_output_block_number q) + ?n * ?s < 18446744073709551616"
    using f(2) unat_u64_bound [of "pp_output_block_number p"] by simp
  have ib: "i + 1 < 18446744073709551616" using i f(1) unat_u64_bound [of "dp_proposal_output_count d"] by linarith
  then have "unat (of_nat i + 1 :: u64) = i + 1" by (simp add: unat_word_ariths unat_of_nat)
  moreover have "(i + 1) * ?s < 18446744073709551616" using less sum by linarith
  ultimately have "unat ((of_nat i + 1) * dp_output_block_span d) = (i + 1) * ?s" by (simp add: unat_word_ariths)
  then have "unat (pp_output_block_number q + (of_nat i + 1) * dp_output_block_span d) = unat (pp_output_block_number q) + (i + 1) * ?s"
    using less sum by (simp add: unat_word_ariths)
  then show ?thesis using less f(2) by auto
qed

section \<open>Output faults\<close>

text \<open>A validity proof is accepted only with a seal for the journal of the whole proposal.\<close>

lemma proveValidity_verified:
  assumes "proveValidity N t payout l1_head_source child seal_bytes = Inr t'"
  shows "\<exists>c. te_verify N seal_bytes (kt_fpvm_image_id t)
    (te_sha N (encode_packed (validity_journal (te_sha N) t c (te_l1_head_of N) payout l1_head_source)))"
  using assms
  by (auto simp: proveValidity_def tournament_prove_def validity_journal_def contract_journal_def Let_def res_simps bail_def
      split: if_splits)

lemma output_fe_at_io:
  assumes "i < length (pp_io_field_elements p)" and "length (pp_io_field_elements p) < 2 ^ 64"
  shows "output_fe_at p (of_nat i) = Inr (pp_io_field_elements p ! i)"
  using assms by (simp add: output_fe_at_def word_less_nat_alt unat_of_nat as_usize_def index_vec_def)

text \<open>The openings that go with a fault: of the output before it, and of the faulty one unless it is the last.\<close>

lemma fault_openings_verify:
  assumes n: "length (pp_io_field_elements p) < 2 ^ 64" and i: "i \<le> length (pp_io_field_elements p)"
    and block: "number = pp_output_block_number p \<longleftrightarrow> i = length (pp_io_field_elements p)"
    and opens: "\<forall>j < length (pp_io_field_elements p). opens_at K p (of_nat j) (pp_io_field_elements p ! j)"
    and c: "child_of K p c"
  obtains cs ps where "fault_openings K p number (of_nat i) = Inr (cs, ps)"
    "i \<noteq> 0 \<Longrightarrow> cs \<noteq> [] \<and> ps \<noteq> [] \<and> verifyIntermediateOutput c (of_nat i - 1) (pp_io_field_elements p ! (i - 1)) (hd cs) (hd ps)"
    "i \<noteq> length (pp_io_field_elements p) \<Longrightarrow>
       cs \<noteq> [] \<and> ps \<noteq> [] \<and> verifyIntermediateOutput c (of_nat i) (pp_io_field_elements p ! i) (last cs) (last ps)"
proof -
  let ?io = "pp_io_field_elements p"
  have pos: "(0 < (of_nat i :: u64)) \<longleftrightarrow> i \<noteq> 0" "(of_nat i :: u64) = 0 \<longleftrightarrow> i = 0"
    using i n by (auto simp: word_less_nat_alt unat_of_nat word_of_nat_eq_0_iff dvd_def)
  have before: "(of_nat i - 1 :: u64) = of_nat (i - 1)" if "i \<noteq> 0" using that by (simp add: of_nat_diff)
  obtain cs ps where one: "(if 0 < (of_nat i :: u64) then open_output K p (of_nat i - 1) else Inr ([], [])) = Inr (cs, ps)"
      "i \<noteq> 0 \<Longrightarrow> length cs = 1 \<and> length ps = 1 \<and> verifyIntermediateOutput c (of_nat i - 1) (?io ! (i - 1)) (hd cs) (hd ps)"
      "i = 0 \<Longrightarrow> cs = [] \<and> ps = []"
  proof (cases "i = 0")
    case False
    then have "i - 1 < length ?io" using i by simp
    with opens have "opens_at K p (of_nat (i - 1)) (?io ! (i - 1))" by blast
    then have "opens_at K p (of_nat i - 1) (?io ! (i - 1))" by (simp only: before [OF False])
    from open_output_verifies [OF this c] obtain cm pr where
      "open_output K p (of_nat i - 1) = Inr ([cm], [pr])" "verifyIntermediateOutput c (of_nat i - 1) (?io ! (i - 1)) cm pr" by blast
    with False show ?thesis by (intro that [of "[cm]" "[pr]"]) (simp_all only: pos, simp_all)
  qed (use that pos in auto)
  obtain cs' ps' where two: "(if number \<noteq> pp_output_block_number p then open_output K p (of_nat i) else Inr ([], [])) = Inr (cs', ps')"
      "i \<noteq> length ?io \<Longrightarrow> length cs' = 1 \<and> length ps' = 1 \<and> verifyIntermediateOutput c (of_nat i) (?io ! i) (hd cs') (hd ps')"
      "i = length ?io \<Longrightarrow> cs' = [] \<and> ps' = []"
  proof (cases "i = length ?io")
    case False
    then have "opens_at K p (of_nat i) (?io ! i)" using opens i by auto
    from open_output_verifies [OF this c] False block that show ?thesis by fastforce
  qed (use block that in auto)
  have some: "\<not> ((number \<noteq> pp_output_block_number p \<or> (of_nat i :: u64) \<noteq> 0) \<and> ps @ ps' = [])"
    using one(2) two(2) block pos(2) by (cases "i = 0"; cases "i = length ?io") auto
  have "fault_openings K p number (of_nat i) = Inr (cs @ cs', ps @ ps')"
    unfolding fault_openings_def one(1) two(1) using some by simp
  moreover have "cs @ cs' \<noteq> [] \<and> ps @ ps' \<noteq> [] \<and>
      verifyIntermediateOutput c (of_nat i - 1) (?io ! (i - 1)) (hd (cs @ cs')) (hd (ps @ ps'))" if "i \<noteq> 0"
    using one(2) that by (auto simp: hd_append length_Suc_conv)
  moreover have "cs @ cs' \<noteq> [] \<and> ps @ ps' \<noteq> [] \<and>
      verifyIntermediateOutput c (of_nat i) (?io ! i) (last (cs @ cs')) (last (ps @ ps'))" if "i \<noteq> length ?io"
    using two(2) that by (auto simp: length_Suc_conv)
  ultimately show ?thesis using that [of "cs @ cs'" "ps @ ps'"] by blast
qed

text \<open>
  The situation of a requested proof of an output fault: the agent is reachable, the proposal is stored
  with a correct parent, and the receipt's journal is the one that was requested.
\<close>

definition fault_proof_requested ::
  "(u64 \<Rightarrow> B256) \<Rightarrow> sync_deployment \<Rightarrow> sync_agent \<Rightarrow> validator_view \<Rightarrow> proposal \<Rightarrow> proposal \<Rightarrow> nat \<Rightarrow> receipt message \<Rightarrow> bool" where
  "fault_proof_requested out d a w q p i m \<longleftrightarrow>
     agent_reach out d a \<and> sa_proposals a (pp_index p) = Some p \<and> has_parent p \<and>
     sa_proposals a (pp_parent p) = Some q \<and> is_correct q = Some True \<and>
     (has_parent q \<or> out (pp_output_block_number q) = pp_output_root q) \<and> follows d q p \<and> 0 < dp_output_block_span d \<and>
     fault_of p = Some (Output i) \<and> (\<exists>l1_head. request_fault_proof w a q p l1_head = Inr m)"

lemma fault_proof_facts:
  assumes "fault_proof_requested out d a w q p i m"
  shows "i < unat (dp_proposal_output_count d)" "i \<le> length (pp_io_field_elements p)"
    "i = 0 \<Longrightarrow> mp_agreed_l2_output_root m = pp_output_root q"
    "i \<noteq> 0 \<Longrightarrow> hash_to_fe (mp_agreed_l2_output_root m) = pp_io_field_elements p ! (i - 1)"
    "mp_claimed_l2_block_number m = pp_output_block_number q + (of_nat i + 1) * dp_output_block_span d"
    "mp_claimed_l2_output_root m = out (mp_claimed_l2_block_number m)"
    "mp_claimed_l2_block_number m = pp_output_block_number p \<longleftrightarrow> i = length (pp_io_field_elements p)"
    "i = length (pp_io_field_elements p) \<Longrightarrow> mp_claimed_l2_output_root m \<noteq> pp_output_root p"
    "i \<noteq> length (pp_io_field_elements p) \<Longrightarrow> hash_to_fe (mp_claimed_l2_output_root m) \<noteq> pp_io_field_elements p ! i"
    "mp_precondition_validation_data m = None" "length (pp_io_field_elements p) < 2 ^ 64"
    "fault_of p = Some (Output i)" "sa_deployment a = d" "length (pp_io_field_elements p) + 1 = unat (dp_proposal_output_count d)"
proof -
  from assms obtain h where r: "request_fault_proof w a q p h = Inr m" by (auto simp: fault_proof_requested_def)
  have fl: "follows d q p" "0 < dp_output_block_span d" and fo: "fault_of p = Some (Output i)"
    and reach: "agent_reach out d a" using assms by (auto simp: fault_proof_requested_def)
  have s: "i < unat (dp_proposal_output_count d) \<and>
    (if i = 0 then mp_agreed_l2_output_root m = pp_output_root q
     else hash_to_fe (mp_agreed_l2_output_root m) = pp_io_field_elements p ! (i - 1)) \<and>
    mp_claimed_l2_block_number m = pp_output_block_number q + (of_nat i + 1) * dp_output_block_span d \<and>
    mp_claimed_l2_output_root m = out (mp_claimed_l2_block_number m) \<and>
    (if i = length (pp_io_field_elements p)
     then mp_claimed_l2_block_number m = pp_output_block_number p \<and> mp_claimed_l2_output_root m \<noteq> pp_output_root p
     else hash_to_fe (mp_claimed_l2_output_root m) \<noteq> pp_io_field_elements p ! i)"
    using assms by (intro fault_request_sound [OF _ _ _ _ _ _ _ fo r]) (auto simp: fault_proof_requested_def)
  show n: "length (pp_io_field_elements p) + 1 = unat (dp_proposal_output_count d)" using fl by (simp add: follows_def)
  then have "length (pp_io_field_elements p) < 18446744073709551616"
    using unat_u64_bound [of "dp_proposal_output_count d"] by linarith
  then show "length (pp_io_field_elements p) < 2 ^ 64" by simp
  show i: "i \<le> length (pp_io_field_elements p)" using s n by auto
  show "mp_claimed_l2_block_number m = pp_output_block_number p \<longleftrightarrow> i = length (pp_io_field_elements p)"
    using s i claimed_block_inner [OF fl, of i] by (auto simp: le_less split: if_splits)
  show "mp_precondition_validation_data m = None" by (rule request_fault_proof_parts(5) [OF r fo])
  show "sa_deployment a = d" using reach_ok [OF reach] by (simp add: agent_ok_def)
  show "fault_of p = Some (Output i)" by (rule fo)
  show "i < unat (dp_proposal_output_count d)" "i = 0 \<Longrightarrow> mp_agreed_l2_output_root m = pp_output_root q"
    "i \<noteq> 0 \<Longrightarrow> hash_to_fe (mp_agreed_l2_output_root m) = pp_io_field_elements p ! (i - 1)"
    "mp_claimed_l2_block_number m = pp_output_block_number q + (of_nat i + 1) * dp_output_block_span d"
    "mp_claimed_l2_output_root m = out (mp_claimed_l2_block_number m)"
    "i = length (pp_io_field_elements p) \<Longrightarrow> mp_claimed_l2_output_root m \<noteq> pp_output_root p"
    "i \<noteq> length (pp_io_field_elements p) \<Longrightarrow> hash_to_fe (mp_claimed_l2_output_root m) \<noteq> pp_io_field_elements p ! i"
    using s by auto
qed

text \<open>The fault that the agent's proposal names is one that the contract sees.\<close>

lemma published_fault:
  assumes req: "fault_proof_requested out d a w q p i m" and t: "tournament_of d q config image_id t" and c: "child_of K p c"
    and opens: "\<forall>j < length (pp_io_field_elements p). opens_at K p (of_nat j) (pp_io_field_elements p ! j)"
    and publish: "publish_output_fault K w a q p (requested_journal sha payout config image_id m) l1_contract child seal_bytes =
      Inr (Submit tx)"
  obtains fe kzg where "tx = Prove_Output_Fault_Tx (pp_contract q) (payout, l1_contract) (child, of_nat i) seal_bytes
      (mp_agreed_l2_output_root m, mp_claimed_l2_output_root m) fe kzg"
    "\<not> kt_proposal_output_count t \<le> of_nat i"
    "check_accepted t c (of_nat i) (mp_agreed_l2_output_root m) kzg = Inr ()"
    "check_conflict t c (of_nat i) (mp_claimed_l2_output_root m) fe kzg = Inr ()"
    "vv_proof_status w (pp_contract q) (pp_signature p) = 0"
proof -
  note facts = fault_proof_facts [OF req]
  let ?io = "pp_io_field_elements p"
  obtain cs ps where kzg: "fault_openings K p (mp_claimed_l2_block_number m) (of_nat i) = Inr (cs, ps)"
    "i \<noteq> 0 \<Longrightarrow> cs \<noteq> [] \<and> ps \<noteq> [] \<and> verifyIntermediateOutput c (of_nat i - 1) (?io ! (i - 1)) (hd cs) (hd ps)"
    "i \<noteq> length ?io \<Longrightarrow> cs \<noteq> [] \<and> ps \<noteq> [] \<and> verifyIntermediateOutput c (of_nat i) (?io ! i) (last cs) (last ps)"
    using fault_openings_verify [OF facts(11,2,7) opens c] by blast
  from publish obtain fe where fe: "output_fe_at p (of_nat i) = Inr fe"
    and tx: "tx = Prove_Output_Fault_Tx (pp_contract q) (payout, l1_contract) (child, of_nat i) seal_bytes
      (mp_agreed_l2_output_root m, mp_claimed_l2_output_root m) fe (cs, ps)"
    and unproven: "vv_proof_status w (pp_contract q) (pp_signature p) = 0"
    using kzg(1) facts(12)
    by (auto simp: publish_output_fault_def divergence_point_def Let_def res_simps requested_journal_def split: if_splits)
  have i: "unat (of_nat i :: u64) = i" using facts(2,11) by (simp add: unat_of_nat)
  have last: "(of_nat i :: u64) = kt_proposal_output_count t - 1 \<longleftrightarrow> i = length ?io"
  proof -
    have "(1 :: u64) \<le> kt_proposal_output_count t" using facts(14) t by (simp add: tournament_of_def word_le_nat_alt)
    then have "unat (kt_proposal_output_count t - 1) = length ?io" using facts(14) t by (simp add: tournament_of_def unat_sub)
    then show ?thesis using i by (metis word_eq_iff_unsigned)
  qed
  have zero: "(of_nat i :: u64) = 0 \<longleftrightarrow> i = 0"
  proof
    assume "(of_nat i :: u64) = 0"
    then have "unat (of_nat i :: u64) = 0" by simp
    then show "i = 0" using i by simp
  qed simp
  have fe': "i \<noteq> length ?io \<Longrightarrow> fe = ?io ! i" using fe output_fe_at_io [of i p] facts(2,11) by auto
  have "\<not> kt_proposal_output_count t \<le> of_nat i" using facts(1) t i by (simp add: tournament_of_def word_le_nat_alt)
  moreover have "check_accepted t c (of_nat i) (mp_agreed_l2_output_root m) (cs, ps) = Inr ()"
  proof (cases "i = 0")
    case True
    with facts(3) t show ?thesis by (simp add: check_accepted_def tournament_of_def)
  next
    case False
    with kzg(2) have "cs \<noteq> []" "ps \<noteq> []"
      and "verifyIntermediateOutput c (of_nat i - 1) (hash_to_fe (mp_agreed_l2_output_root m)) (hd cs) (hd ps)"
      unfolding facts(4) [OF False] by simp_all
    with False zero show ?thesis by (simp add: check_accepted_def index_vec_def hd_conv_nth)
  qed
  moreover have "check_conflict t c (of_nat i) (mp_claimed_l2_output_root m) fe (cs, ps) = Inr ()"
  proof (cases "i = length ?io")
    case True
    with facts(8) c last show ?thesis by (simp add: check_conflict_def child_of_def)
  next
    case False
    with kzg(3) have "cs \<noteq> []" "ps \<noteq> []" "verifyIntermediateOutput c (of_nat i) fe (last cs) (last ps)"
      unfolding fe' [OF False] by simp_all
    moreover have "hash_to_fe (mp_claimed_l2_output_root m) \<noteq> fe" unfolding fe' [OF False] by (rule facts(9) [OF False])
    ultimately show ?thesis using False last by (simp add: check_conflict_def index_vec_def last_conv_nth)
  qed
  ultimately show ?thesis using that tx unproven by blast
qed

text \<open>The journal that the contract asks for is the requested one, and its block number does not overflow.\<close>

lemma fault_journal:
  assumes req: "fault_proof_requested out d a w q p i m" and t: "tournament_of d q config image_id t"
    and l1: "l1_head_of l1_contract = mp_l1_head m"
  shows "contract_journal t l1_head_of l1_contract payout 0 (mp_agreed_l2_output_root m) (mp_claimed_l2_output_root m) (of_nat i + 1) =
      requested_journal sha payout config image_id m"
    "unat (of_nat i + 1 :: u64) * unat (kt_output_block_span t) < 2 ^ 64"
proof -
  note facts = fault_proof_facts [OF req]
  show "contract_journal t l1_head_of l1_contract payout 0 (mp_agreed_l2_output_root m) (mp_claimed_l2_output_root m) (of_nat i + 1) =
      requested_journal sha payout config image_id m"
    using facts(5,10) l1 t by (simp add: contract_journal_def requested_journal_def tournament_of_def)
  have "(i + 1) * unat (dp_output_block_span d) \<le> unat (dp_proposal_output_count d) * unat (dp_output_block_span d)"
    using facts(1) by (intro mult_right_mono) simp_all
  also have "\<dots> \<le> unat (pp_output_block_number p)" using req by (simp add: fault_proof_requested_def follows_def)
  finally have "(i + 1) * unat (dp_output_block_span d) < 18446744073709551616"
    using unat_u64_bound [of "pp_output_block_number p"] by linarith
  moreover have "unat (of_nat i + 1 :: u64) \<le> i + 1" by (simp add: unat_word_ariths unat_of_nat)
  ultimately show "unat (of_nat i + 1 :: u64) * unat (kt_output_block_span t) < 2 ^ 64"
    using t mult_right_mono [of "unat (of_nat i + 1 :: u64)" "i + 1" "unat (dp_output_block_span d)"]
    by (simp add: tournament_of_def)
qed

section \<open>Trail faults\<close>

lemma trail_fault_at:
  assumes judged: "judged out d p" and fault: "fault_of p = Some (Trail k)"
  obtains j where "k = length (pp_io_field_elements p) + j + 1" "j < length (pp_trail_field_elements p)"
    "pp_trail_field_elements p ! j \<noteq> 0"
proof -
  from fault obtain j where "first_false (pp_correct_trail p) = Some j" "k = length (pp_io_field_elements p) + j + 1"
    by (auto simp: fault_of_def split: option.splits if_splits)
  moreover have "pp_correct_trail p = map (\<lambda>fe. Some (fe = 0)) (pp_trail_field_elements p)" using judged by (simp add: judged_def)
  ultimately show ?thesis using that by (auto simp: first_false_Some)
qed

lemma output_fe_at_trail:
  assumes "j < length (pp_trail_field_elements p)" and "length (pp_io_field_elements p) + j + 1 < 2 ^ 64"
  shows "output_fe_at p (of_nat (length (pp_io_field_elements p) + j + 1)) = Inr (pp_trail_field_elements p ! j)"
proof -
  let ?n = "length (pp_io_field_elements p)"
  have n: "unat (of_nat (?n + j + 1) :: u64) = ?n + j + 1" "unat (of_nat ?n :: u64) = ?n"
    using assms(2) by (simp_all only: unat_of_nat) simp_all
  have "(of_nat (?n + j + 1) - of_nat ?n - 1 :: u64) = of_nat j" by simp
  moreover have "as_usize host (of_nat j) = j" using assms(2) by (simp add: as_usize_def unat_of_nat)
  moreover have "\<not> (of_nat (?n + j + 1) :: u64) < of_nat ?n" "(of_nat (?n + j + 1) :: u64) \<noteq> of_nat ?n"
    using n by (auto simp only: word_less_nat_alt dest: arg_cong [of _ _ unat])
  ultimately show ?thesis using assms(1) by (simp only: output_fe_at_def Let_def if_False index_vec_def if_True expect_def sum.case)
qed

section \<open>A concrete dispute\<close>

definition toy_points :: point_kzg where
  "toy_points = \<lparr>blob_to_kzg_commitment = (\<lambda>b. Inr 0), compute_blob_kzg_proof = (\<lambda>b c. Inr 0),
     verify_blob_kzg_proof_batch = (\<lambda>bs cs ps. Inr True), kzg_to_versioned_hash = (\<lambda>c. 0),
     compute_kzg_proof = (\<lambda>b z. Inr (0, if b = empty_blob then 0 else 5)), verify_kzg_proof = (\<lambda>c z fe pr. Inr True)\<rparr>"

definition sample_child :: "fault_case \<Rightarrow> child_contract" where
  "sample_child s = \<lparr>kc_game_index = 1, kc_status = 0, kc_signature = 6, kc_root_claim = fc_root s, kc_blob_hashes = [0],
     kc_point = root_of_unity, kc_point_evaluation = (\<lambda>z fe c pr. True), kc_versioned_hash = (\<lambda>c. 0)\<rparr>"

definition sample_contract :: "fault_case \<Rightarrow> tournament_contract" where
  "sample_contract s = \<lparr>kt_root_claim = 100, kt_l2_block_number = 0, kt_proposal_output_count = 2, kt_output_block_span = 1,
     kt_proposal_blobs = 1, kt_config_hash = 8, kt_fpvm_image_id = 7, kt_children = [sample_child s], kt_contender_index = 0,
     kt_valid_child_signature = 0, kt_proof_status = (\<lambda>_. 0), kt_prover = (\<lambda>_. 0), kt_proven_at = (\<lambda>_. 0)\<rparr>"

abbreviation sample_parent :: proposal where
  "sample_parent \<equiv> faulty_treasury\<lparr>pp_children := {1}\<rparr>"

abbreviation sample_request :: "receipt message" where
  "sample_request \<equiv> Proposal_Message 1 None 7 5 100 1 101"

definition sample_receipt :: receipt where
  "sample_receipt = \<lparr>rc_inner = Groth16 3 [1, 2], rc_journal = encode_packed (requested_journal (\<lambda>_. 0) 4 8 7 sample_request)\<rparr>"

text \<open>A verifier that accepts the digest of this receipt's journal, and a treasury with one proposer.\<close>

definition sample_env :: "Address \<Rightarrow> tournament_env" where
  "sample_env proposer = \<lparr>te_proposer_of = (\<lambda>_. proposer), te_l1_head_of = (\<lambda>_. 7),
     te_verify = (\<lambda>seal_bytes image digest. image = 7 \<and> digest = sample_hash (rc_journal sample_receipt)),
     te_sha = sample_hash, te_timestamp = 60\<rparr>"

lemma sample_requested:
  assumes "root \<noteq> 102"
  shows "fault_proof_requested sample_out sample_deployment (faulty_known (output_case root)) sample_validator_view sample_parent
    (faulty_judged (output_case root)) 0 sample_request"
proof -
  have "pp_index (faulty_judged s) = 1" for s by (simp add: faulty_judged_def faulty_loaded_def)
  moreover have "0 < dp_output_block_span sample_deployment" by (simp add: sample_deployment_def)
  ultimately show ?thesis
    using faulty_known_reach [OF output_case_ok [OF assms]] faulty_known_proposals faulty_judged_facts faulty_treasury_facts
      faulty_request by (simp add: fault_proof_requested_def) blast
qed

lemma sample_contracts:
  "tournament_of sample_deployment sample_parent 8 7 (sample_contract s)"
  "tournament_open toy_points sample_validator_view sample_parent (faulty_judged s) (sample_contract s)"
  by (simp_all add: tournament_of_def tournament_open_def sample_contract_def faulty_treasury_def load_treasury_def sample_game_def
      sample_deployment_def child_of_def sample_child_def faulty_judged_def faulty_loaded_def toy_points_def sample_validator_view_def)

lemma sample_blob: "io_blob_for (faulty_judged s) position =
    (if unat position < FIELD_ELEMENTS_PER_BLOB then Inr (0, sample_blob_data (fc_blob s)) else Inl (Panic ''index out of bounds''))"
proof -
  have "unat position div FIELD_ELEMENTS_PER_BLOB = 0 \<longleftrightarrow> unat position < FIELD_ELEMENTS_PER_BLOB"
    by (auto simp: div_eq_0_iff FIELD_ELEMENTS_PER_BLOB_def)
  then show ?thesis by (auto simp: io_blob_for_def unat_position index_vec_def faulty_judged_def faulty_loaded_def)
qed

lemma sample_opens:
  "unat position < FIELD_ELEMENTS_PER_BLOB \<Longrightarrow>
     opens_at toy_points (faulty_judged s) position (if fc_blob s = empty_blob then 0 else 5)"
  by (simp add: opens_at_def sample_blob blob_fe_proof_def toy_points_def sample_blob_data_def)

lemma sample_openings:
  "unat position < FIELD_ELEMENTS_PER_BLOB \<Longrightarrow> io_commitment_for (faulty_judged s) position = Inr 0"
  "unat position < FIELD_ELEMENTS_PER_BLOB \<Longrightarrow> io_proof_for toy_points (faulty_judged s) position = Inr 0"
  by (simp_all add: io_commitment_for_def io_proof_for_def sample_blob blob_fe_proof_def toy_points_def sample_blob_data_def)

lemma sample_child_index: "child_index sample_parent (pp_index (faulty_judged s)) = Some 0"
  by (simp add: child_index_def faulty_judged_def faulty_loaded_def)

lemma sample_decoded: "decode_packed (rc_journal sample_receipt) = Inr (requested_journal (\<lambda>_. 0) 4 8 7 sample_request)"
  using decode_encode_append [of "requested_journal (\<lambda>_. 0) 4 8 7 sample_request" "[]"] by (simp add: sample_receipt_def)

lemma sample_heads: "sa_l1_heads_inv (faulty_known s) = [7 \<mapsto> (1, 3)]" "sa_deployment (faulty_known s) = sample_deployment"
  by (simp_all add: faulty_known_def faulty_first_def faulty_fetched_def sample_start_def agent_new_def)

lemma sample_seal: "encode_seal sample_receipt = Inr (take 4 (to_be_bytes (3 :: B256)) @ [1, 2])"
  by (simp add: encode_seal_def sample_receipt_def)

section \<open>Properties\<close>

text \<open>
  C32. A submitted fault proof is accepted when its L1 head is taken from a known game. Take a receipt
  whose journal is that of a requested proof of an output fault and whose seal verifies for that
  journal, the parent's contract with an open tournament and the proof statuses the validator has read,
  authentic blobs that the KZG library opens at the published outputs, and a recorded L1 head whose game
  has that head. Unless the proven roots happen to be the roots of parent and proposal, a transaction
  made of the receipt calls \<open>proveOutputFault\<close> for the recorded game, and the transaction goes through:
  the child index names the proposal, every check of the arguments is passed, the seal proves the
  journal that the contract puts together, and the proposal's signature is marked as faulty, to the
  credit of the journal's recipient. The one way to fail is that the treasury has never heard of
  the recorded game: then the contract reverts.
\<close>

theorem submitted_fault_accepted:
  assumes req: "fault_proof_requested out d a w q p i m" and t: "tournament_of d q config image_id t"
    and playing: "tournament_open K w q p t"
    and opens: "\<forall>j < length (pp_io_field_elements p). opens_at K p (of_nat j) (pp_io_field_elements p ! j)"
    and l1: "\<forall>source n. sa_l1_heads_inv a (mp_l1_head m) = Some (source, n) \<longrightarrow> te_l1_head_of N source = mp_l1_head m"
    and journal: "rc_journal r = encode_packed (requested_journal sha payout config image_id m)"
    and verified: "\<forall>seal_bytes. encode_seal r = Inr seal_bytes \<longrightarrow> te_verify N seal_bytes image_id (te_sha N (rc_journal r))"
    and roots: "\<not> (mp_agreed_l2_output_root m = pp_output_root q \<and> mp_claimed_l2_output_root m = pp_output_root p)"
    and publish: "publish_receipt K w a q p r = Inr (Submit tx)"
  shows "\<exists>l1_contract n child seal_bytes fe kzg.
    sa_l1_heads_inv a (mp_l1_head m) = Some (l1_contract, n) \<and>
    tx = Prove_Output_Fault_Tx (pp_contract q) (payout, l1_contract) (child, of_nat i) seal_bytes
      (mp_agreed_l2_output_root m, mp_claimed_l2_output_root m) fe kzg \<and>
    proveOutputFault N t (payout, l1_contract) (child, of_nat i) seal_bytes
      (mp_agreed_l2_output_root m, mp_claimed_l2_output_root m) fe kzg =
      (if te_proposer_of N l1_contract = 0 then bail ''UnknownGame''
       else Inr (mark_proven (te_timestamp N) payout (pp_signature p) 1 t))"
proof -
  let ?j = "requested_journal sha payout config image_id m"
  have decoded: "decode_packed (rc_journal r) = Inr ?j" using decode_encode_append [of ?j "[]"] journal by simp
  have j: "pj_l1_head ?j = mp_l1_head m" "pj_agreed_l2_output_root ?j = mp_agreed_l2_output_root m"
    "pj_claimed_l2_output_root ?j = mp_claimed_l2_output_root m" by (simp_all add: requested_journal_def)
  from publish obtain source n where inv: "sa_l1_heads_inv a (mp_l1_head m) = Some (source, n)"
    by (auto simp: publish_receipt_def decoded j split: option.splits)
  from publish obtain child seal_bytes where child: "child_index q (pp_index p) = Some child"
    and seal_bytes: "encode_seal r = Inr seal_bytes"
    and fault: "publish_output_fault K w a q p ?j source child seal_bytes = Inr (Submit tx)"
    using roots by (auto simp: publish_receipt_def decoded j inv res_simps unwrap_opt_def split: sum.splits if_splits option.splits)
  obtain c where c: "playing_child t child = Inr c" "child_of K p c" using playing child by (rule playing_child_of)
  obtain fe kzg where f: "tx = Prove_Output_Fault_Tx (pp_contract q) (payout, source) (child, of_nat i) seal_bytes
        (mp_agreed_l2_output_root m, mp_claimed_l2_output_root m) fe kzg"
      "\<not> kt_proposal_output_count t \<le> of_nat i"
      "check_accepted t c (of_nat i) (mp_agreed_l2_output_root m) kzg = Inr ()"
      "check_conflict t c (of_nat i) (mp_claimed_l2_output_root m) fe kzg = Inr ()"
      "vv_proof_status w (pp_contract q) (pp_signature p) = 0"
    using req t c(2) opens fault by (rule published_fault)
  note J = fault_journal [OF req t, of "te_l1_head_of N" source, OF l1 [rule_format, OF inv]]
  have "tournament_prove N source payout 0 (mp_agreed_l2_output_root m, mp_claimed_l2_output_root m) (of_nat i + 1)
      seal_bytes (pp_signature p) 1 t =
      (if te_proposer_of N source = 0 then bail ''UnknownGame''
       else Inr (mark_proven (te_timestamp N) payout (pp_signature p) 1 t))"
    using J(2) verified seal_bytes journal f(5) playing t
    by (simp add: tournament_prove_def J(1) [of payout sha] updateProofStatus_def tournament_of_def tournament_open_def)
  then have "proveOutputFault N t (payout, source) (child, of_nat i) seal_bytes
      (mp_agreed_l2_output_root m, mp_claimed_l2_output_root m) fe kzg =
      (if te_proposer_of N source = 0 then bail ''UnknownGame''
       else Inr (mark_proven (te_timestamp N) payout (pp_signature p) 1 t))"
    using c f(2-4) by (simp add: proveOutputFault_def child_of_def)
  with inv f(1) show ?thesis by blast
qed

theorem submitted_fault_accepted_witness:
  "\<exists>tx child seal_bytes fe kzg.
     publish_receipt toy_points sample_validator_view (faulty_known (output_case 9)) sample_parent
       (faulty_judged (output_case 9)) sample_receipt = Inr (Submit tx) \<and>
     tx = Prove_Output_Fault_Tx (pp_contract sample_parent) (4, 1) (child, 0) seal_bytes (100, 101) fe kzg \<and>
     proveOutputFault (sample_env 9) (sample_contract (output_case 9)) (4, 1) (child, 0) seal_bytes (100, 101) fe kzg =
       Inr (mark_proven 60 4 6 1 (sample_contract (output_case 9))) \<and>
     proveOutputFault (sample_env 0) (sample_contract (output_case 9)) (4, 1) (child, 0) seal_bytes (100, 101) fe kzg =
       bail ''UnknownGame''"
proof -
  let ?p = "faulty_judged (output_case 9)" and ?a = "faulty_known (output_case 9)"
  have ne: "(9 :: B256) \<noteq> 102" by simp
  have facts: "pp_output_root sample_parent = 100" "pp_output_block_number sample_parent = 0" "pp_output_root ?p = 9"
    "pp_output_block_number ?p = 2" "pp_io_field_elements ?p = [0]"
    by (simp_all add: faulty_treasury_def load_treasury_def sample_game_def faulty_judged_def faulty_loaded_def output_case_def)
  have kzg: "fault_openings toy_points ?p 1 0 = Inr ([0], [0])"
    using sample_openings [of 0] facts(4) by (simp add: fault_openings_def open_output_def FIELD_ELEMENTS_PER_BLOB_def)
  have publish: "publish_receipt toy_points sample_validator_view ?a sample_parent ?p sample_receipt =
      Inr (Submit (Prove_Output_Fault_Tx (pp_contract sample_parent) (4, 1) (0, 0) (take 4 (to_be_bytes (3 :: B256)) @ [1, 2])
        (100, 101) 0 ([0], [0])))"
    using facts faulty_judged_facts(3) [of 9] kzg
    by (simp add: publish_receipt_def sample_decoded requested_journal_def sample_heads sample_seal sample_child_index unwrap_opt_def
        publish_output_fault_def divergence_point_def output_fe_at_def index_vec_def as_usize_def expect_def add_u64_def mul_u64_def
        sample_deployment_def sample_validator_view_def)
  have opens: "\<forall>j < length (pp_io_field_elements ?p). opens_at toy_points ?p (of_nat j) (pp_io_field_elements ?p ! j)"
    using sample_opens [of 0 "output_case 9"] facts(5) by (simp add: output_case_def FIELD_ELEMENTS_PER_BLOB_def)
  have journal: "rc_journal sample_receipt = encode_packed (requested_journal (\<lambda>_. 0) 4 8 7 sample_request)"
    by (simp add: sample_receipt_def)
  have env: "te_proposer_of (sample_env x) y = x" "te_timestamp (sample_env x) = 60" "te_l1_head_of (sample_env x) y = 7"
    "te_verify (sample_env x) seal_bytes 7 (te_sha (sample_env x) (rc_journal sample_receipt))" for x y seal_bytes
    by (simp_all add: sample_env_def)
  have sig: "pp_signature ?p = 6" by (simp add: faulty_judged_def faulty_loaded_def)
  have "proveOutputFault (sample_env x) (sample_contract (output_case 9)) (4, 1) (0, 0) (take 4 (to_be_bytes (3 :: B256)) @ [1, 2])
      (100, 101) 0 ([0], [0]) =
      (if x = 0 then bail ''UnknownGame'' else Inr (mark_proven 60 4 6 1 (sample_contract (output_case 9))))" for x
    using submitted_fault_accepted [OF sample_requested [OF ne] sample_contracts opens _ journal _ _ publish, of "sample_env x"]
      facts env sig by auto
  then show ?thesis using publish by simp
qed

text \<open>
  C33. A faulty proposal may escape the validator. When a deployment has several outputs per proposal and
  a proposal with a faulty first output claims the correct root of its first output block as its final
  root, the validator takes the receipt of the fault proof for a validity proof: every transaction it
  makes of it calls \<open>proveValidity\<close>, for which the contract expects another journal, whatever the child:
  if the transaction goes through, the seal was accepted for a journal other than the receipt's.
\<close>

theorem first_fault_misrouted:
  assumes req: "fault_proof_requested out d a w q p 0 m" and t: "tournament_of d q config image_id t"
    and count: "1 < dp_proposal_output_count d"
    and claim: "pp_output_root p = out (pp_output_block_number q + dp_output_block_span d)"
    and journal: "rc_journal r = encode_packed (requested_journal sha payout config image_id m)"
    and publish: "publish_receipt K w a q p r = Inr (Submit tx)"
  shows "\<exists>l1_contract child seal_bytes. tx = Prove_Validity_Tx (pp_contract q) payout l1_contract child seal_bytes \<and>
    (\<forall>sha c l1_head_of. validity_journal sha t c l1_head_of payout l1_contract \<noteq> requested_journal sha payout config image_id m) \<and>
    (\<forall>N t'. proveValidity N t payout l1_contract child seal_bytes = Inr t' \<longrightarrow>
       (\<exists>J. J \<noteq> requested_journal sha payout config image_id m \<and> te_verify N seal_bytes image_id (te_sha N (encode_packed J))))"
proof -
  let ?j = "requested_journal sha payout config image_id m"
  note facts = fault_proof_facts [OF req]
  have decoded: "decode_packed (rc_journal r) = Inr ?j" using decode_encode_append [of ?j "[]"] journal by simp
  have roots: "pj_agreed_l2_output_root ?j = pp_output_root q" "pj_claimed_l2_output_root ?j = pp_output_root p"
    "pj_payout_recipient ?j = payout"
    using facts(3,5,6) claim by (simp_all add: requested_journal_def)
  from publish obtain source child seal_bytes where "publish_validity a q ?j source child seal_bytes = Inr (Submit tx)"
    by (auto simp: publish_receipt_def decoded roots res_simps split: option.splits sum.splits)
  then have tx: "tx = Prove_Validity_Tx (pp_contract q) payout source child seal_bytes"
    by (auto simp: publish_validity_def res_simps roots)
  have "pp_io_field_elements p \<noteq> []" using facts(14) count by (auto simp: word_less_nat_alt)
  then have "mp_claimed_l2_block_number m \<noteq> pp_output_block_number p" using facts(7) by auto
  moreover have "pp_output_block_number p = kt_l2_block_number t + kt_proposal_output_count t * kt_output_block_span t"
    using req t io_block_follows(2) [of d q p] by (simp add: fault_proof_requested_def tournament_of_def)
  ultimately have other: "validity_journal sha' t c l1_head_of payout source \<noteq> requested_journal sha'' payout config image_id m"
    for sha' sha'' c l1_head_of
    by (auto simp: validity_journal_def contract_journal_def requested_journal_def)
  have "\<exists>J. J \<noteq> ?j \<and> te_verify N seal_bytes image_id (te_sha N (encode_packed J))"
    if accepted: "proveValidity N t payout source child seal_bytes = Inr t'" for N t'
  proof -
    obtain c where "te_verify N seal_bytes (kt_fpvm_image_id t)
        (te_sha N (encode_packed (validity_journal (te_sha N) t c (te_l1_head_of N) payout source)))"
      using proveValidity_verified [OF accepted] by blast
    moreover have "kt_fpvm_image_id t = image_id" using t by (simp add: tournament_of_def)
    ultimately show ?thesis using other [of "te_sha N" c "te_l1_head_of N" sha] by metis
  qed
  with tx other show ?thesis by blast
qed

theorem first_fault_misrouted_witness:
  "\<exists>tx. publish_receipt toy_points sample_validator_view (faulty_known (output_case 101)) sample_parent
       (faulty_judged (output_case 101)) sample_receipt = Inr (Submit tx) \<and>
     (\<exists>l1_contract child seal_bytes. tx = Prove_Validity_Tx (pp_contract sample_parent) 4 l1_contract child seal_bytes \<and>
       validity_journal (\<lambda>_. 0) (sample_contract (output_case 101)) (sample_child (output_case 101)) (\<lambda>_. 7) 4 l1_contract \<noteq>
         requested_journal (\<lambda>_. 0) 4 8 7 sample_request)"
proof -
  let ?p = "faulty_judged (output_case 101)" and ?a = "faulty_known (output_case 101)"
  have ne: "(101 :: B256) \<noteq> 102" by simp
  have facts: "pp_output_root sample_parent = 100" "pp_output_block_number sample_parent = 0" "pp_output_root ?p = 101"
    by (simp_all add: faulty_treasury_def load_treasury_def sample_game_def faulty_judged_def faulty_loaded_def output_case_def)
  have publish: "publish_receipt toy_points sample_validator_view ?a sample_parent ?p sample_receipt =
      Inr (Submit (Prove_Validity_Tx (pp_contract sample_parent) 4 1 0 (take 4 (to_be_bytes (3 :: B256)) @ [1, 2])))"
    using facts
    by (simp add: publish_receipt_def sample_decoded requested_journal_def sample_heads sample_seal sample_child_index unwrap_opt_def
        publish_validity_def add_u64_def mul_u64_def sample_deployment_def)
  have "1 < dp_proposal_output_count sample_deployment" "pp_output_root ?p =
      sample_out (pp_output_block_number sample_parent + dp_output_block_span sample_deployment)"
    "rc_journal sample_receipt = encode_packed (requested_journal (\<lambda>_. 0) 4 8 7 sample_request)"
    using facts by (simp_all add: sample_deployment_def sample_out_def sample_receipt_def)
  from first_fault_misrouted [OF sample_requested [OF ne] sample_contracts(1) this publish] publish show ?thesis by blast
qed

text \<open>
  C34. A submitted trail fault is accepted. In every reachable state, a transaction made for a stored
  proposal whose trail is faulty calls \<open>proveTrailFault\<close> and goes through, when the parent's contract has
  an open tournament with the proof statuses the validator has read, the contract expects the published
  outputs in as few blobs as possible, and the KZG library opens the authentic blob at the faulty
  element: the child index names the proposal, every check is passed, and the proposal's signature is
  marked as faulty, to the credit of the validator.
\<close>

theorem submitted_trail_accepted:
  assumes reach: "agent_reach out d a" and p: "sa_proposals a k = Some p" "has_parent p" and q: "sa_proposals a (pp_parent p) = Some q"
    and fault: "fault_of p = Some (Trail n)" and t: "tournament_of d q config image_id t"
    and playing: "tournament_open K w q p t"
    and outputs: "length (pp_io_field_elements p) + 1 = unat (dp_proposal_output_count d)"
    and elements: "length (pp_io_field_elements p @ pp_trail_field_elements p) = unat (kt_proposal_blobs t) * FIELD_ELEMENTS_PER_BLOB"
    and fewest: "(unat (kt_proposal_blobs t) - 1) * FIELD_ELEMENTS_PER_BLOB \<le> length (pp_io_field_elements p)"
    and bounded: "unat (kt_proposal_blobs t) * FIELD_ELEMENTS_PER_BLOB < 2 ^ 64"
    and opens: "opens_at K p (of_nat n - 1) ((pp_io_field_elements p @ pp_trail_field_elements p) ! (n - 1))"
    and publish: "publish_trail_proof K w a validator k = Inr (Submit tx)"
  shows "\<exists>child fe commitment kzg_proof. tx = Prove_Trail_Fault_Tx (pp_contract q) validator (child, of_nat n) fe commitment kzg_proof \<and>
    proveTrailFault N t validator (child, of_nat n) fe commitment kzg_proof =
      Inr (mark_proven (te_timestamp N) validator (pp_signature p) 1 t)"
proof -
  let ?io = "pp_io_field_elements p" and ?tr = "pp_trail_field_elements p" and ?F = FIELD_ELEMENTS_PER_BLOB
  have "judged out d p" using reach_ok [OF reach] proposals_okD(2) [of out d "sa_proposals a", OF _ p(1)] p(2)
    by (simp add: agent_ok_def stored_ok_def)
  then obtain j where j: "n = length ?io + j + 1" "j < length ?tr" "?tr ! j \<noteq> 0" using fault by (rule trail_fault_at)
  have "length ?io + length ?tr < 2 ^ 64" using elements bounded by simp
  then have small: "length ?io + j + 1 < 2 ^ 64" using j(2) by linarith
  have n: "unat (of_nat n :: u64) = n" "(of_nat n - 1 :: u64) = of_nat (length ?io + j)"
    using small j(1) by (simp_all only: unat_of_nat) simp_all
  have pos: "unat (of_nat n - 1 :: u64) = length ?io + j"
    unfolding n(2) using small by (simp only: unat_of_nat) simp
  have at: "(?io @ ?tr) ! (n - 1) = ?tr ! j" using j(1) by (simp add: nth_append)
  have fe: "output_fe_at p (of_nat n) = Inr (?tr ! j)" using output_fe_at_trail [OF j(2) small] j(1) by simp
  obtain cm pr where open1: "io_commitment_for p (of_nat n - 1) = Inr cm" "io_proof_for K p (of_nat n - 1) = Inr pr"
    using opens by (auto simp: opens_at_def io_commitment_for_def io_proof_for_def unat_position)
  from publish obtain child where child: "child_index q (pp_index p) = Some child"
    and unproven: "vv_proof_status w (pp_contract q) (pp_signature p) = 0"
    and tx: "tx = Prove_Trail_Fault_Tx (pp_contract q) validator (child, of_nat n) (?tr ! j) cm pr"
    by (auto simp: publish_trail_proof_def p(1) q fault divergence_point_def Let_def fe open1 res_simps unwrap_opt_def
        sub_u64_def split: if_splits option.splits)
  obtain c where c: "playing_child t child = Inr c" "child_of K p c" using playing child by (rule playing_child_of)
  have opened: "verifyIntermediateOutput c (of_nat n - 1) (?tr ! j) cm pr"
    using opened_position [OF opens c(2)] open1 unfolding at by (metis sum.inject(2))
  have blob: "(length ?io + j) div ?F + 1 = unat (kt_proposal_blobs t)"
  proof -
    obtain b where b: "unat (kt_proposal_blobs t) = Suc b" using j(2) elements by (cases "unat (kt_proposal_blobs t)") auto
    have "b * ?F \<le> length ?io + j" "length ?io + j < b * ?F + ?F" using fewest elements j(2) b by auto
    moreover have "length ?io + j = b * ?F + (length ?io + j - b * ?F)" using \<open>b * ?F \<le> length ?io + j\<close> by simp
    ultimately have "(length ?io + j) div ?F = b" by (simp add: div_nat_eqI mult.commute)
    with b show ?thesis by simp
  qed
  have "kt_proposal_output_count t \<le> of_nat n" using outputs t n(1) j(1) by (simp add: word_le_nat_alt tournament_of_def)
  moreover have "(of_nat n :: u64) \<noteq> 0" using n(1) j(1) by (metis unat_0 add_is_0 zero_neq_one)
  moreover have some: "kt_proposal_blobs t \<noteq> 0" using blob by auto
  moreover have "(length ?io + j) div ?F = unat (kt_proposal_blobs t - 1)"
    using blob by (simp add: unat_minus_one [OF some])
  ultimately have "proveTrailFault N t validator (child, of_nat n) (?tr ! j) cm pr =
      Inr (mark_proven (te_timestamp N) validator (pp_signature p) 1 t)"
    using j(3) opened c unproven playing
    by (simp add: proveTrailFault_def pos updateProofStatus_def child_of_def tournament_open_def leD)
  with tx show ?thesis by blast
qed

theorem submitted_trail_accepted_witness:
  "\<exists>child fe commitment kzg_proof.
     publish_trail_proof toy_points sample_validator_view (faulty_known trail_case) 3 1 =
       Inr (Submit (Prove_Trail_Fault_Tx (pp_contract sample_parent) 3 (child, 2) fe commitment kzg_proof)) \<and>
     proveTrailFault (sample_env 9) (sample_contract trail_case) 3 (child, 2) fe commitment kzg_proof =
       Inr (mark_proven 60 3 6 1 (sample_contract trail_case))"
proof -
  let ?p = "faulty_judged trail_case" and ?a = "faulty_known trail_case"
  have facts: "pp_io_field_elements ?p = [0]" "pp_trail_field_elements ?p = 5 # replicate 4094 0"
    "pp_correct_trail ?p = Some False # replicate 4094 (Some True)"
    by (simp_all add: faulty_judged_def faulty_loaded_def trail_case_def)
  have fault: "fault_of ?p = Some (Trail 2)" using facts by (simp add: fault_of_def)
  have blob: "fc_blob trail_case \<noteq> empty_blob"
  proof
    assume "fc_blob trail_case = empty_blob"
    then have "trail_data (fc_blob trail_case) 1 = Inr (replicate 4095 0)"
      using output_case_ok [of 0] by (simp add: case_ok_def output_case_def)
    then have "replicate 4095 0 = 5 # replicate 4094 (0 :: U256)" using trail_case_ok by (simp add: case_ok_def trail_case_def)
    then have "hd (replicate 4095 (0 :: U256)) = 5" by simp
    then show False by (simp add: hd_replicate)
  qed
  have opens: "opens_at toy_points ?p (of_nat 2 - 1) ((pp_io_field_elements ?p @ pp_trail_field_elements ?p) ! (2 - 1))"
    using sample_opens [of 1 trail_case] blob facts by (simp add: FIELD_ELEMENTS_PER_BLOB_def)
  have fe: "output_fe_at ?p 2 = Inr 5"
    using facts by (simp add: output_fe_at_def index_vec_def as_usize_def expect_def)
  have publish: "publish_trail_proof toy_points sample_validator_view ?a 3 1 =
      Inr (Submit (Prove_Trail_Fault_Tx (pp_contract sample_parent) 3 (0, 2) 5 0 0))"
    using fault fe faulty_known_proposals [of trail_case] faulty_judged_facts(2) [of trail_case] sample_openings [of 1 trail_case]
      sample_child_index [of trail_case]
    by (simp add: publish_trail_proof_def divergence_point_def sub_u64_def unwrap_opt_def sample_validator_view_def
        FIELD_ELEMENTS_PER_BLOB_def)
  have parent: "sa_proposals ?a (pp_parent ?p) = Some sample_parent"
    using faulty_known_proposals faulty_judged_facts(2) by simp
  have sizes: "length (pp_io_field_elements ?p) + 1 = unat (dp_proposal_output_count sample_deployment)"
    "length (pp_io_field_elements ?p @ pp_trail_field_elements ?p) = unat (kt_proposal_blobs (sample_contract trail_case)) * FIELD_ELEMENTS_PER_BLOB"
    "(unat (kt_proposal_blobs (sample_contract trail_case)) - 1) * FIELD_ELEMENTS_PER_BLOB \<le> length (pp_io_field_elements ?p)"
    "unat (kt_proposal_blobs (sample_contract trail_case)) * FIELD_ELEMENTS_PER_BLOB < 2 ^ 64"
    using facts by (simp_all add: sample_deployment_def sample_contract_def FIELD_ELEMENTS_PER_BLOB_def)
  from submitted_trail_accepted [OF faulty_known_reach [OF trail_case_ok] faulty_known_proposals(1) faulty_judged_facts(1) parent
      fault sample_contracts sizes opens publish, of "sample_env 9"] publish
  have "proveTrailFault (sample_env 9) (sample_contract trail_case) 3 (0, of_nat 2) 5 0 0 =
      Inr (mark_proven (te_timestamp (sample_env 9)) 3 (pp_signature ?p) 1 (sample_contract trail_case))" by auto
  moreover have "te_timestamp (sample_env 9) = 60" "pp_signature ?p = 6"
    by (simp_all add: sample_env_def faulty_judged_def faulty_loaded_def)
  ultimately show ?thesis using publish by simp
qed

end
