(* ===== verification/Proposer.thy ===== *)
theory Proposer
  imports Sync_Verdicts
begin

text \<open>
  The proposer (\<open>src/crates/proposer/src/propose.rs\<close> and \<open>resolve.rs\<close>): when and what it proposes to extend
  the canonical chain, and when it resolves the next proposal of that chain.

  The answers of the chain during one iteration are a \<open>proposer_view\<close>; for the resolution, which changes
  the parent's tournament while it prunes, the tournament is a state with a simulated call and a
  transaction. Waiting, metrics and the wallet are left out.
\<close>

section \<open>Proposing\<close>

record proposer_view =
  pw_game_impl :: Address
  pw_chain_time :: u64
  pw_vanguard :: Address
  pw_vanguard_advantage :: u64
  pw_games :: "B256 \<Rightarrow> bytes \<Rightarrow> Address"
  pw_game_index :: "Address \<Rightarrow> u64"
  pw_participation_bond :: U256
  pw_paid_bond :: "Address \<Rightarrow> U256"
  pw_balance :: "Address \<Rightarrow> U256"

record proposal_transaction =
  pt_output_root :: B256
  pt_extra_data :: bytes
  pt_value :: U256
  pt_sidecar :: blob_transaction_sidecar

text \<open>Finished chains, nodes that are behind and clocks that are early.\<close>

definition proposing_time :: "proposer_view \<Rightarrow> Address \<Rightarrow> sync_agent \<Rightarrow> proposal \<Rightarrow> u64 \<Rightarrow> bool result" where
  "proposing_time w proposer a tip proposed_block_number =
     and_then (min_proposal_time (sa_deployment a) proposed_block_number) (\<lambda>min_time.
     if pw_chain_time w < min_time then Inr False
     else and_then (if requires_vanguard_advantage tip proposer (pw_vanguard w)
                    then add_u64 host min_time (pw_vanguard_advantage w) else Inr min_time) (\<lambda>timeout.
       Inr (timeout \<le> pw_chain_time w)))"

definition extension_ready ::
  "proposer_view \<Rightarrow> u64 option \<Rightarrow> Address \<Rightarrow> sync_agent \<Rightarrow> proposal \<Rightarrow> u64 option result" where
  "extension_ready w final_l2_block proposer a tip =
     (if (case final_l2_block of None \<Rightarrow> False | Some n \<Rightarrow> n \<le> pp_output_block_number tip) then Inr None
      else and_then (blocks_per_proposal (sa_deployment a)) (\<lambda>blocks.
        and_then (add_u64 host (pp_output_block_number tip) blocks) (\<lambda>proposed_block_number.
        if cu_last_output_index (sa_cursor a) < pp_output_block_number tip then Inr None
        else if cu_last_output_index (sa_cursor a) < proposed_block_number then Inr None
        else and_then (proposing_time w proposer a tip proposed_block_number) (\<lambda>ready.
          Inr (if ready then Some proposed_block_number else None)))))"

text \<open>The intermediate outputs, up to the first that is not in memory.\<close>

fun gather_outputs :: "sync_agent \<Rightarrow> u64 \<Rightarrow> nat list \<Rightarrow> U256 list result" where
  "gather_outputs a start [] = Inr []"
| "gather_outputs a start (i # is) =
     and_then (mul_u64 host (of_nat i) (dp_output_block_span (sa_deployment a))) (\<lambda>offset.
     and_then (add_u64 host start offset) (\<lambda>io_block_number.
     case sa_outputs a io_block_number of
       None \<Rightarrow> Inr []
     | Some output_hash \<Rightarrow> and_then (gather_outputs a start is) (\<lambda>fes. Inr (hash_to_fe output_hash # fes))))"

text \<open>The first duplication counter that is free; none when the proposal was already made honestly.\<close>

definition extra_data :: "u64 \<Rightarrow> u64 \<Rightarrow> u64 \<Rightarrow> bytes" where
  "extra_data block_number parent_index dupe_counter =
     to_be_bytes block_number @ to_be_bytes parent_index @ to_be_bytes dupe_counter"

function unique_extra_data ::
  "proposer_view \<Rightarrow> sync_agent \<Rightarrow> B256 \<Rightarrow> u64 \<Rightarrow> u64 \<Rightarrow> u64 \<Rightarrow> bytes option result" where
  "unique_extra_data w a root block_number parent_index dupe_counter =
     (let data = extra_data block_number parent_index dupe_counter;
          dupe_game = pw_games w root data;
          dupe_game_index = pw_game_index w dupe_game
      in if dupe_game = 0 then Inr (Some data)
         else if cu_next_factory_index (sa_cursor a) \<le> dupe_game_index then Inr None
         else if (case sa_proposals a dupe_game_index of
                    None \<Rightarrow> False
                  | Some p \<Rightarrow> is_correct p = Some True \<and> \<not> was_proposer_eliminated_before a p) then Inr None
         else case add_u64 host dupe_counter 1 of
                Inl e \<Rightarrow> Inl e
              | Inr n \<Rightarrow> unique_extra_data w a root block_number parent_index n)"
  by pat_completeness auto
termination
proof (relation "measure (\<lambda>(_, _, _, _, _, n). 2 ^ 64 - unat n)", goal_cases)
  case (2 w a root block_number parent_index dupe_counter data dupe_game dupe_game_index n)
  then have "unat n = unat dupe_counter + 1" by (auto simp: add_u64_def unat_word_ariths split: if_splits)
  then show ?case using unat_u64_bound [of n] by simp
qed simp

declare unique_extra_data.simps [simp del]

text \<open>One attempt to extend the canonical chain: \<open>None\<close> when there is nothing to propose now.\<close>

definition prepare_proposal ::
  "kzg \<Rightarrow> proposer_view \<Rightarrow> u64 option \<Rightarrow> Address \<Rightarrow> sync_agent \<Rightarrow> proposal_transaction option result" where
  "prepare_proposal K w final_l2_block proposer a =
     (if pw_game_impl w \<noteq> dp_game (sa_deployment a) then Inr None
      else case canonical_tip a of
        None \<Rightarrow> bail ''Canonical tip proposal missing from database!''
      | Some tip \<Rightarrow>
          and_then (extension_ready w final_l2_block proposer a tip) (\<lambda>ready.
          case ready of
            None \<Rightarrow> Inr None
          | Some block_number \<Rightarrow>
              (case sa_outputs a block_number of
                 None \<Rightarrow> Inr None
               | Some root \<Rightarrow>
                   and_then (gather_outputs a (pp_output_block_number tip)
                     [1..<unat (dp_proposal_output_count (sa_deployment a))]) (\<lambda>fes.
                   and_then (sub_u64 host (dp_proposal_output_count (sa_deployment a)) 1) (\<lambda>io_count.
                   if of_nat (length fes) \<noteq> io_count then Inr None
                   else case create_sidecar K fes of
                       Inl (Panic m) \<Rightarrow> Inl (Panic m)
                     | Inl (Bail _) \<Rightarrow> Inr None
                     | Inr sidecar \<Rightarrow>
                         and_then (unique_extra_data w a root block_number (pp_index tip) 0) (\<lambda>data.
                         case data of
                           None \<Rightarrow> Inr None
                         | Some data \<Rightarrow>
                             let bond = pw_participation_bond w; paid = pw_paid_bond w proposer;
                                 owed = (if paid \<le> bond then bond - paid else 0)
                             in if pw_balance w proposer < owed then Inr None
                                else Inr (Some \<lparr>pt_output_root = root, pt_extra_data = data, pt_value = owed,
                                       pt_sidecar = sidecar\<rparr>)))))))"

section \<open>Resolving\<close>

record 'c tournament_state =
  ts_prune_call :: "'c \<Rightarrow> Address result"
  ts_survivor_call :: "'c \<Rightarrow> Address result"
  ts_prune_agent :: "'c \<Rightarrow> 'c option"
  ts_prune_proposer :: "'c \<Rightarrow> 'c option"
  ts_resolve :: "'c \<Rightarrow> bool"

record resolve_view =
  rw_status :: "Address \<Rightarrow> byte"
  rw_challenger_duration :: "Address \<Rightarrow> u64"
  rw_valid_child_signature :: "Address \<Rightarrow> B256"

text \<open>
  Two simulated calls of \<open>pruneChildren\<close>: the one of the pruning loops, with \<open>ELIMINATIONS_LIMIT\<close> steps, and
  the one of the survivor check, with twice as many steps as there are children.

  Opponents are pruned until the simulated call returns a survivor. The loop of
  \<open>resolve_next_pending_proposal\<close> sends its transactions through the provider of the agent, that of
  \<open>resolve_proposal\<close> through the provider with the proposer's wallet.
\<close>

partial_function (option) prune_children ::
  "('c \<Rightarrow> Address result) \<Rightarrow> ('c \<Rightarrow> 'c option) \<Rightarrow> 'c \<Rightarrow> ('c \<times> bool) option" where
  "prune_children call transact c =
     (case call c of
        Inl _ \<Rightarrow> Some (c, False)
      | Inr survivor \<Rightarrow>
          if survivor \<noteq> 0 then Some (c, True)
          else (case transact c of
              None \<Rightarrow> Some (c, False)
            | Some c \<Rightarrow> prune_children call transact c))"

text \<open>The next proposal to resolve, once its tournament is over.\<close>

definition resolvable :: "resolve_view \<Rightarrow> sync_agent \<Rightarrow> (proposal \<times> proposal) option result" where
  "resolvable w a =
     (case sa_proposals a (cu_last_resolved_game (sa_cursor a)) of
        None \<Rightarrow> bail ''Last resolved proposal missing from database.''
      | Some parent \<Rightarrow>
          (case pp_successor parent of
             None \<Rightarrow> Inr None
           | Some index \<Rightarrow>
               (case sa_proposals a index of
                  None \<Rightarrow> bail ''Unresolved successor missing from database.''
                | Some p \<Rightarrow>
                    and_then (err_context (parse_finality (rw_status w (pp_contract p))) ''Proposal::fetch_finality'') (\<lambda>finality.
                    if finality = Some True then Inr None
                    else if rw_valid_child_signature w (pp_contract parent) = 0 \<and> 0 < rw_challenger_duration w (pp_contract p)
                    then Inr None
                    else Inr (Some (parent, p))))))"

definition resolve_proposal :: "'c tournament_state \<Rightarrow> 'c \<Rightarrow> ('c \<times> bool) option" where
  "resolve_proposal T c =
     map_option (\<lambda>(c, pruned). (c, pruned \<and> ts_resolve T c)) (prune_children (ts_prune_call T) (ts_prune_proposer T) c)"

definition resolve_next_pending_proposal ::
  "'c tournament_state \<Rightarrow> resolve_view \<Rightarrow> sync_agent \<Rightarrow> 'c \<Rightarrow> ('c \<times> bool result) option" where
  "resolve_next_pending_proposal T w a c =
     (case resolvable w a of
        Inl e \<Rightarrow> Some (c, Inl e)
      | Inr None \<Rightarrow> Some (c, Inr False)
      | Inr (Some (parent, p)) \<Rightarrow>
          Option.bind (if has_parent p then prune_children (ts_prune_call T) (ts_prune_agent T) c else Some (c, True)) (\<lambda>(c, can_resolve).
          if \<not> can_resolve then Some (c, Inr False)
          else if (case fetch_parent_tournament_survivor_status p (ts_survivor_call T c) of
                     Inr (Some True) \<Rightarrow> False | _ \<Rightarrow> True) then Some (c, Inr False)
          else map_option (\<lambda>(c, ok). (c, Inr ok)) (resolve_proposal T c)))"

lemma prune_children_done: "call c = Inr survivor \<Longrightarrow> survivor \<noteq> 0 \<Longrightarrow> prune_children call transact c = Some (c, True)"
  by (subst prune_children.simps) simp

lemma prune_children_survivor:
  assumes "prune_children call transact c = Some (c', True)"
  shows "\<exists>survivor. call c' = Inr survivor \<and> survivor \<noteq> 0"
proof -
  have "pruned \<longrightarrow> (\<exists>survivor. call c' = Inr survivor \<and> survivor \<noteq> 0)"
    if "prune_children call transact c = Some (c', pruned)" for pruned
    using prune_children.raw_induct [of "\<lambda>call transact c (c', pruned). pruned \<longrightarrow> (\<exists>survivor. call c' = Inr survivor \<and> survivor \<noteq> 0)",
        OF _ that]
    by (fastforce split: sum.splits if_splits option.splits)
  with assms show ?thesis by blast
qed

lemma survivor_status:
  "fetch_parent_tournament_survivor_status p call = Inr (Some True) \<longleftrightarrow> \<not> has_parent p \<or> call = Inr (pp_contract p) \<and> pp_contract p \<noteq> 0"
  by (cases call) (auto simp: fetch_parent_tournament_survivor_status_def fetch_parent_tournament_survivor_def err_context_def
      split: if_splits failure.splits)

end
