(* ===== verification/Lineage.thy ===== *)
theory Lineage
  imports Sync_Runs
begin

text \<open>
  The successors the agent records. A proposal that the agent names as successor of another one, and
  still stores, is canonical and a child of that one: the indices that are stored or named are never
  loaded again, so no later verdict can replace them. The invariant is one more instance of
  \<open>sync_invariant\<close>.
\<close>

section \<open>Stored proposals\<close>

definition named_indices :: "(u64 \<rightharpoonup> proposal) \<Rightarrow> u64 set" where
  "named_indices P = dom P \<union> {s. \<exists>k p. P k = Some p \<and> pp_successor p = Some s}"

definition lineage :: "(u64 \<rightharpoonup> proposal) \<Rightarrow> bool" where
  "lineage P \<longleftrightarrow>
     (\<forall>k p s q. P k = Some p \<longrightarrow> pp_successor p = Some s \<longrightarrow> P s = Some q \<longrightarrow> pp_canonical q = Some True \<and> pp_parent q = k)"

lemma lineageD:
  "lineage P \<Longrightarrow> P k = Some p \<Longrightarrow> pp_successor p = Some s \<Longrightarrow> P s = Some q \<Longrightarrow> pp_canonical q = Some True \<and> pp_parent q = k"
  by (auto simp: lineage_def)

lemma named_stored: "P k = Some p \<Longrightarrow> k \<in> named_indices P"
  by (auto simp: named_indices_def)

lemma named_successor: "P k = Some p \<Longrightarrow> pp_successor p = Some s \<Longrightarrow> s \<in> named_indices P"
  by (auto simp: named_indices_def)

text \<open>A change of the other fields, a new successor, a new proposal, less proposals.\<close>

lemma named_upd: "named_indices (P(k \<mapsto> p)) = insert k (set_option (pp_successor p) \<union> named_indices (P(k := None)))"
proof -
  have "x \<in> named_indices (P(k \<mapsto> p)) \<longleftrightarrow> x \<in> insert k (set_option (pp_successor p) \<union> named_indices (P(k := None)))" for x
    unfolding named_indices_def by (cases "x = k") (auto split: if_splits)
  then show ?thesis by blast
qed

lemma lineage_bookkeeping:
  assumes "lineage P" and "P k = Some p" and "pp_successor p' = pp_successor p" and "pp_canonical p' = pp_canonical p"
    and "pp_parent p' = pp_parent p"
  shows "lineage (P(k \<mapsto> p'))" "named_indices (P(k \<mapsto> p')) = named_indices P"
proof -
  show "lineage (P(k \<mapsto> p'))" using assms unfolding lineage_def by (auto split: if_splits)
  have "named_indices (P(k \<mapsto> p')) = named_indices (P(k \<mapsto> p))" using assms(3) by (simp only: named_upd)
  then show "named_indices (P(k \<mapsto> p')) = named_indices P" using assms(2) by (simp add: fun_upd_idem)
qed

lemma named_forget: "named_indices (P(k := None)) \<subseteq> named_indices P"
  by (auto simp: named_indices_def split: if_splits)

lemma lineage_store:
  assumes "lineage P" and "i \<notin> named_indices P" and "pp_successor p = None"
  shows "lineage (P(i \<mapsto> p))" "named_indices (P(i \<mapsto> p)) \<subseteq> insert i (named_indices P)"
proof -
  show "lineage (P(i \<mapsto> p))" using assms by (auto simp: lineage_def named_indices_def)
  show "named_indices (P(i \<mapsto> p)) \<subseteq> insert i (named_indices P)"
    using named_forget [of P i] assms(3) by (auto simp: named_upd)
qed

lemma lineage_succeed:
  assumes lin: "lineage P" and i: "i \<notin> named_indices P" and p: "pp_successor p = None" "pp_canonical p = Some True"
    and parent: "pp_parent p = k" "P k = Some q"
  shows "lineage (P(k \<mapsto> q\<lparr>pp_successor := Some i\<rparr>, i \<mapsto> p))"
    "named_indices (P(k \<mapsto> q\<lparr>pp_successor := Some i\<rparr>, i \<mapsto> p)) \<subseteq> insert i (named_indices P)"
proof -
  let ?P = "P(k \<mapsto> q\<lparr>pp_successor := Some i\<rparr>)"
  have ik: "k \<noteq> i" using i named_stored [of P k q] parent by auto
  show "lineage (?P(i \<mapsto> p))" unfolding lineage_def
  proof (intro allI impI)
    fix l x s y
    assume x: "(?P(i \<mapsto> p)) l = Some x" "pp_successor x = Some s" and y: "(?P(i \<mapsto> p)) s = Some y"
    show "pp_canonical y = Some True \<and> pp_parent y = l"
    proof (cases "l = k")
      case True
      then have "s = i" using x ik by auto
      then show ?thesis using y p parent True by simp
    next
      case False
      then have l: "P l = Some x" using x p by (auto split: if_splits)
      then have "s \<noteq> i" using named_successor [of P l x s] l x(2) i by auto
      then obtain z where "P s = Some z" "pp_canonical z = pp_canonical y" "pp_parent z = pp_parent y"
        using y parent(2) by (cases "s = k") auto
      then show ?thesis using lineageD [OF lin, of l x s z] l x(2) by simp
    qed
  qed
  have "named_indices ?P \<subseteq> insert i (named_indices P)"
    using named_forget [of P k] named_stored [of P k q] parent(2) by (auto simp: named_upd)
  moreover have "named_indices (?P(i := None)) \<subseteq> named_indices ?P" by (rule named_forget)
  ultimately show "named_indices (?P(i \<mapsto> p)) \<subseteq> insert i (named_indices P)"
    using p(1) by (auto simp: named_upd [of ?P])
qed

lemma lineage_restrict:
  assumes "lineage P" and "P' \<subseteq>\<^sub>m P"
  shows "lineage P'" "named_indices P' \<subseteq> named_indices P"
proof -
  have le: "P' k = Some p \<Longrightarrow> P k = Some p" for k p using assms(2) unfolding map_le_def by (metis domI)
  show "lineage P'" using assms(1) le unfolding lineage_def by blast
  show "named_indices P' \<subseteq> named_indices P" using le unfolding named_indices_def by blast
qed

section \<open>Settling\<close>

lemma settle_lineage:
  assumes lin: "lineage (sa_proposals a)" and i: "pp_index p \<notin> named_indices (sa_proposals a)"
    and fresh: "fresh_proposal p" and settle: "settle_proposal a p = (a', r)"
  shows "lineage (sa_proposals a') \<and>
    named_indices (sa_proposals a') \<subseteq> named_indices (sa_proposals a) \<union> (if succeeded r then {pp_index p} else {})"
proof -
  have part: "lineage (sa_proposals b) \<and> named_indices (sa_proposals b) = named_indices (sa_proposals a)"
    if "determine_tournament_participation a p = (b, x)" for b x
    using that lin by (cases rule: participation_cases) (auto intro!: lineage_bookkeeping simp: lineage_bookkeeping)
  from settle show ?thesis
  proof (cases rule: settle_proposal_cases)
    case (stored p' p'' a2 correct c)
    have a2: "lineage (sa_proposals a2)" "named_indices (sa_proposals a2) = named_indices (sa_proposals a)"
      using part [OF stored(1)] by auto
    have p': "pp_index p' = pp_index p" "pp_parent p' = pp_parent p" "pp_successor p' = None"
      using stored(2) fresh by (auto simp: assess_correctness_def fresh_proposal_def res_simps Let_def split: if_splits option.splits)
    have p'': "p'' = p'\<lparr>pp_canonical := Some c\<rparr>" using determine_if_canonical_Some(1) [OF stored(3)] .
    show ?thesis
    proof (cases "c \<and> sa_proposals a2 (pp_parent p) \<noteq> None")
      case True
      then obtain q where "sa_proposals a2 (pp_parent p) = Some q" by auto
      with lineage_succeed [OF a2(1), of "pp_index p" p''] i a2(2) True p' p'' show ?thesis
        by (auto simp: store_proposal_def stored(4,5) as_success_def)
    next
      case False
      with lineage_store [OF a2(1), of "pp_index p" p''] i a2(2) p' p'' show ?thesis
        by (auto simp: store_proposal_def stored(4,5) as_success_def split: bool.splits option.splits)
    qed
  qed (use part in auto)
qed

lemma sync_proposal_lineage:
  assumes v: "factory_view v" and lin: "lineage (sa_proposals a)" and i: "i \<notin> named_indices (sa_proposals a)"
    and sp: "sync_proposal v a i = (a', r)"
  shows "lineage (sa_proposals a')"
    "named_indices (sa_proposals a') \<subseteq> named_indices (sa_proposals a) \<union> (if succeeded r then {i} else {})"
proof -
  have "lineage (sa_proposals a') \<and>
      named_indices (sa_proposals a') \<subseteq> named_indices (sa_proposals a) \<union> (if succeeded r then {i} else {})"
    using sp
  proof (cases rule: sync_proposal_cases)
    case (settled p)
    have "pp_index p = i" "fresh_proposal p"
      using load_proposal_fresh [OF settled(1)] v by (auto simp: factory_view_def Let_def)
    with settle_lineage [OF _ _ _ settled(3)] lin i show ?thesis by (auto split: if_splits)
  qed (use lin in auto)
  then show "lineage (sa_proposals a')"
    "named_indices (sa_proposals a') \<subseteq> named_indices (sa_proposals a) \<union> (if succeeded r then {i} else {})" by auto
qed

section \<open>The invariant\<close>

definition lineage_ok :: "sync_agent \<Rightarrow> u64 list \<Rightarrow> bool" where
  "lineage_ok a ds \<longleftrightarrow>
     queue_ok a ds \<and> lineage (sa_proposals a) \<and> distinct (cu_delayed_factory_indices (sa_cursor a) @ ds) \<and>
     (\<forall>k \<in> named_indices (sa_proposals a).
        k < cu_next_factory_index (sa_cursor a) \<and> k \<notin> set (cu_delayed_factory_indices (sa_cursor a) @ ds))"

lemma lineage_ok_less: "lineage_ok a (ds @ ds') \<Longrightarrow> lineage_ok a ds"
  using queue_ok_less by (auto simp: lineage_ok_def)

lemma lineage_ok_shrunk:
  assumes "lineage_ok a []" and "shrunk a a'"
  shows "lineage_ok a' []"
proof -
  have sub: "sa_proposals a' \<subseteq>\<^sub>m sa_proposals a" using assms(2) by (simp add: shrunk_def)
  have "lineage (sa_proposals a)" using assms(1) by (simp add: lineage_ok_def)
  from lineage_restrict [OF this sub] assms queue_ok_shrunk [OF assms(2)] show ?thesis
    unfolding lineage_ok_def shrunk_def by auto
qed

lemma lineage_step:
  assumes ok: "lineage_ok a ds" and v: "factory_view v" and hn: "has_next (sa_cursor a) n"
    and ni: "next_index (sa_cursor a) = (c, i)" and sp: "sync_proposal v (a\<lparr>sa_cursor := c\<rparr>) i = (a1, res)"
    and kept: "kept a1 a2"
  shows "i \<noteq> cu_next_factory_index (sa_cursor a2) \<or> \<not> succeeded res \<Longrightarrow> lineage_ok a2 ds"
    "advance i a2 = Inr a3 \<Longrightarrow> lineage_ok a3 ds"
    "advance i a2 = Inr a3 \<Longrightarrow> \<not> succeeded res \<Longrightarrow> lineage_ok a3 (ds @ [i])"
proof -
  have q: "queue_ok a ds" using ok by (simp add: lineage_ok_def)
  note qs = queue_step [OF q v hn ni sp kept]
  have c: "cu_next_factory_index c = cu_next_factory_index (sa_cursor a)"
      "set (cu_delayed_factory_indices c) \<subseteq> set (cu_delayed_factory_indices (sa_cursor a))"
      "distinct (i # cu_delayed_factory_indices c @ ds)" "i \<notin> named_indices (sa_proposals a)"
    using ni hn ok q by (auto elim!: next_index_cases simp: lineage_ok_def queue_ok_def)
  have cur: "cu_next_factory_index (sa_cursor a2) = cu_next_factory_index c"
      "cu_delayed_factory_indices (sa_cursor a2) = cu_delayed_factory_indices c"
    using sync_proposal_keeps [OF sp] kept by (simp_all add: kept_def)
  have lin: "lineage (sa_proposals a2)"
      "named_indices (sa_proposals a2) \<subseteq> named_indices (sa_proposals a) \<union> (if succeeded res then {i} else {})"
    using sync_proposal_lineage [OF v _ _ sp] ok c(4) kept by (simp_all add: lineage_ok_def kept_def)
  have free: "k \<notin> set (cu_delayed_factory_indices c @ ds)" "succeeded res \<or> k \<noteq> i" "k < cu_next_factory_index c \<or> k = i"
    if "k \<in> named_indices (sa_proposals a2)" for k
    using that lin(2) ok c by (auto simp: lineage_ok_def split: if_splits)
  show "lineage_ok a2 ds" if "i \<noteq> cu_next_factory_index (sa_cursor a2) \<or> \<not> succeeded res"
  proof -
    have "queue_ok a2 ds" using qs(1,2) that queue_ok_less by blast
    moreover have "i \<noteq> cu_next_factory_index c \<Longrightarrow> i < cu_next_factory_index c"
      using ni hn q c by (auto elim!: next_index_cases simp: queue_ok_def)
    ultimately show ?thesis using that lin(1) cur c(3) free by (auto simp: lineage_ok_def)
  qed
  {
    assume adv: "advance i a2 = Inr a3"
    have q3: "queue_ok a3 (ds @ [i])" by (rule qs(3) [OF adv])
    have a3: "sa_proposals a3 = sa_proposals a2"
        "cu_delayed_factory_indices (sa_cursor a3) = cu_delayed_factory_indices c"
      using adv cur by (auto simp: advance_def res_simps split: if_splits)
    have next3: "k < cu_next_factory_index (sa_cursor a3)" if "k \<in> named_indices (sa_proposals a2)" for k
    proof -
      have "cu_next_factory_index c \<le> cu_next_factory_index (sa_cursor a3)"
        using adv cur by (auto simp: advance_def res_simps add_u64_def word_le_nat_alt unat_word_ariths split: if_splits)
      moreover have "i < cu_next_factory_index (sa_cursor a3)" using q3 by (simp add: queue_ok_def)
      ultimately show ?thesis using free(3) [OF that] by auto
    qed
    show "lineage_ok a3 ds"
      using queue_ok_less [OF q3] lin(1) a3 c(3) free(1) next3 by (auto simp: lineage_ok_def)
    show "lineage_ok a3 (ds @ [i])" if "\<not> succeeded res"
      using q3 lin(1) a3 c(3) free(1,2) next3 that by (auto simp: lineage_ok_def)
  }
qed

interpretation successors: sync_invariant factory_view lineage_ok
proof unfold_locales
  fix v a safe a' u
  assume v: "factory_view v" and ok: "lineage_ok a []" and outs: "sync_new_outputs v safe a = (a', u)"
  have "queue_ok a' []" using queue.fetching [OF v _ outs] ok by (simp add: lineage_ok_def)
  then show "lineage_ok a' []"
    using new_outputs_fetches [of v a safe] ok outs by (simp add: fetched_outputs_def lineage_ok_def)
next
  fix v a ds safe a' r
  assume v: "factory_view v" and ok: "lineage_ok a ds" and n: "has_next (sa_cursor a) (cv_game_count v)"
    and step: "sync_step v safe a ds = Inl (a', r)"
  have q: "queue_ok a ds" using ok by (simp add: lineage_ok_def)
  obtain c i where ni: "next_index (sa_cursor a) = (c, i)" by fastforce
  from step ni show "lineage_ok a' ds"
  proof (cases rule: sync_step_cases)
    case (ends a1 res b x)
    have "i \<in> dom (sa_proposals a1)" if "succeeded res" using sync_proposal_dom [OF v ends(1)] that by auto
    moreover have "cu_next_factory_index (sa_cursor a1) = cu_next_factory_index c"
      using sync_proposal_keeps [OF ends(1)] by simp
    ultimately have "i \<noteq> cu_next_factory_index (sa_cursor a1) \<or> \<not> succeeded res"
      using ends(5) queue_step(4) [OF q v n ni ends(1) kept_simps(1)] by auto
    then have "i \<noteq> cu_next_factory_index (sa_cursor b) \<or> \<not> succeeded res" using ends(2) by (simp add: kept_def)
    then show ?thesis using lineage_step(1) [OF ok v n ni ends(1,2)] ends(3) by simp
  qed simp
next
  fix v a ds safe a' ds'
  assume v: "factory_view v" and ok: "lineage_ok a ds" and n: "has_next (sa_cursor a) (cv_game_count v)"
    and step: "sync_step v safe a ds = Inr (a', ds')"
  obtain c i where ni: "next_index (sa_cursor a) = (c, i)" by fastforce
  from step ni show "lineage_ok a' ds'"
    by (cases rule: sync_step_cases) (auto intro: lineage_step(2,3) [OF ok v n ni])
next
  fix a ds
  assume "lineage_ok a ds"
  then show "lineage_ok (a\<lparr>sa_cursor := load_delayed_indices (sa_cursor a) ds\<rparr>) []"
    using queue.requeueing by (auto simp: lineage_ok_def load_delayed_indices_def)
next
  fix a ds
  assume "lineage_ok a ds"
  then show "lineage_ok a []" using lineage_ok_less [of a "[]" ds] by simp
next
  fix a i p t a' x
  assume ok: "lineage_ok a []" and p: "sa_proposals a i = Some p" and
    prune: "prune_data (a\<lparr>sa_proposals := (sa_proposals a)(i \<mapsto> p\<lparr>pp_resolved_at := t\<rparr>),
        sa_cursor := (sa_cursor a)\<lparr>cu_last_resolved_game := i\<rparr>\<rparr>) = (a', x)" (is "prune_data ?a = _")
  have "shrunk ?a a'" using prune_data_shrinks [of ?a] by (simp add: prune)
  moreover have "lineage_ok ?a []"
    using ok p lineage_bookkeeping [of "sa_proposals a" i p "p\<lparr>pp_resolved_at := t\<rparr>"]
    by (auto simp: lineage_ok_def queue_ok_def)
  ultimately show "lineage_ok a' []" by (rule lineage_ok_shrunk [rotated])
qed

lemma reach_lineage: "agent_reach out d a \<Longrightarrow> lineage_ok a []"
proof (induction rule: agent_reach.induct)
  case (start db c)
  then show ?case by (simp add: lineage_ok_def queue_ok_def lineage_def named_indices_def agent_new_def)
next
  case (call a v delay final a' r)
  then show ?case using successors.keeps_sync by (auto simp: node_view_def)
qed

text \<open>The successor of a stored proposal, when it is stored too, is an honest child of it.\<close>

lemma successor_honest:
  assumes reach: "agent_reach out d a" and "sa_proposals a k = Some p" and "pp_successor p = Some s" and "sa_proposals a s = Some q"
  shows "pp_parent q = k" "has_parent q" "pp_canonical q = Some True" "honest_proposal out d q"
proof -
  have "lineage (sa_proposals a)" using reach_lineage [OF reach] by (simp add: lineage_ok_def)
  from lineageD [OF this, of k p s q] assms(2-4) show "pp_parent q = k" and c: "pp_canonical q = Some True" by auto
  have ps: "proposals_ok out d (sa_proposals a)" using reach_ok [OF reach] by (simp add: agent_ok_def)
  have "k < s" "pp_index q = s" using proposals_okD [OF ps] assms(2-4) by auto
  then show h: "has_parent q" using \<open>pp_parent q = k\<close> by (auto simp: has_parent_def)
  have "stored_ok out d q" using proposals_okD(2) [OF ps assms(4)] .
  then have "is_correct q = Some True" "is_correct q = Some (honest_proposal out d q)"
    using c h judged_verdict [of out d q] by (auto simp: stored_ok_def)
  then show "honest_proposal out d q" by simp
qed

end
