(* ===== verification/Proposing.thy ===== *)
theory Proposing
  imports Proposer Lineage Dispute_Sample
begin

text \<open>
  What the proposer proposes with an agent that follows a node: the outputs of that node, where every
  reader of the game expects them.
\<close>

section \<open>The proposal\<close>

lemma gather_outputs_elements:
  assumes "gather_outputs a start is = Inr fes"
  shows "length fes \<le> length is"
    "j < length fes \<Longrightarrow> \<exists>h. sa_outputs a (start + of_nat (is ! j) * dp_output_block_span (sa_deployment a)) = Some h \<and>
       fes ! j = hash_to_fe h"
proof -
  have "length fes \<le> length is \<and> (\<forall>j < length fes.
      \<exists>h. sa_outputs a (start + of_nat (is ! j) * dp_output_block_span (sa_deployment a)) = Some h \<and> fes ! j = hash_to_fe h)"
    using assms
  proof (induction "is" arbitrary: fes)
    case (Cons i "is")
    from Cons.prems have nums: "mul_u64 host (of_nat i) (dp_output_block_span (sa_deployment a)) =
        Inr (of_nat i * dp_output_block_span (sa_deployment a))"
      "add_u64 host start (of_nat i * dp_output_block_span (sa_deployment a)) =
        Inr (start + of_nat i * dp_output_block_span (sa_deployment a))"
      by (auto simp: res_simps mul_u64_def add_u64_def split: if_splits)
    show ?case
    proof (cases "sa_outputs a (start + of_nat i * dp_output_block_span (sa_deployment a))")
      case None
      then show ?thesis using Cons.prems nums by simp
    next
      case (Some h)
      then obtain fes' where fes': "gather_outputs a start is = Inr fes'" "fes = hash_to_fe h # fes'"
        using Cons.prems nums by (auto simp: res_simps)
      show ?thesis using Cons.IH [OF fes'(1)] Some fes'(2) by (auto simp: nth_Cons split: nat.splits)
    qed
  qed simp
  then show "length fes \<le> length is"
    "j < length fes \<Longrightarrow> \<exists>h. sa_outputs a (start + of_nat (is ! j) * dp_output_block_span (sa_deployment a)) = Some h \<and>
       fes ! j = hash_to_fe h" by auto
qed

lemma unique_extra_data_counter:
  "unique_extra_data w a root block parent_index n = Inr (Some data) \<Longrightarrow>
     \<exists>k. data = extra_data block parent_index k \<and> pw_games w root data = 0"
proof (induction w a root block parent_index n rule: unique_extra_data.induct)
  case (1 w a root block parent_index n)
  show ?case
    using "1.prems" "1.IH" by (subst (asm) unique_extra_data.simps) (auto simp: Let_def split: if_splits sum.splits)
qed

lemma extension_ready_Some:
  assumes "extension_ready w final proposer a tip = Inr (Some n)"
  shows "blocks_per_proposal (sa_deployment a) = Inr (n - pp_output_block_number tip)"
    "add_u64 host (pp_output_block_number tip) (n - pp_output_block_number tip) = Inr n"
  using assms by (auto simp: extension_ready_def res_simps add_u64_def split: if_splits)

lemma prepare_proposal_parts:
  assumes "prepare_proposal K w final proposer a = Inr (Some tx)"
  obtains tip block fes k where "canonical_tip a = Some tip"
    "extension_ready w final proposer a tip = Inr (Some block)"
    "sa_outputs a block = Some (pt_output_root tx)"
    "gather_outputs a (pp_output_block_number tip) [1..<unat (dp_proposal_output_count (sa_deployment a))] = Inr fes"
    "dp_proposal_output_count (sa_deployment a) \<noteq> 0"
    "of_nat (length fes) = dp_proposal_output_count (sa_deployment a) - 1"
    "create_sidecar K fes = Inr (pt_sidecar tx)"
    "pt_extra_data tx = extra_data block (pp_index tip) k" "pw_games w (pt_output_root tx) (pt_extra_data tx) = 0"
proof -
  from assms obtain tip where tip: "canonical_tip a = Some tip"
    by (auto simp: prepare_proposal_def bail_def split: if_splits option.splits)
  from assms tip obtain block where ready: "extension_ready w final proposer a tip = Inr (Some block)"
    by (auto simp: prepare_proposal_def res_simps split: if_splits option.splits)
  from assms tip ready obtain root fes sidecar data where parts: "sa_outputs a block = Some root"
      "gather_outputs a (pp_output_block_number tip) [1..<unat (dp_proposal_output_count (sa_deployment a))] = Inr fes"
      "sub_u64 host (dp_proposal_output_count (sa_deployment a)) 1 = Inr (of_nat (length fes))"
      "create_sidecar K fes = Inr sidecar" "unique_extra_data w a root block (pp_index tip) 0 = Inr (Some data)"
      "tx = \<lparr>pt_output_root = root, pt_extra_data = data, pt_value = pt_value tx, pt_sidecar = sidecar\<rparr>"
    by (auto simp: prepare_proposal_def res_simps Let_def split: if_splits option.splits sum.splits failure.splits)
  moreover have "pt_output_root tx = root" "pt_sidecar tx = sidecar" "pt_extra_data tx = data"
    by (subst parts(6), simp)+
  moreover obtain k where "data = extra_data block (pp_index tip) k" "pw_games w root data = 0"
    using unique_extra_data_counter [OF parts(5)] by auto
  ultimately show ?thesis using tip ready
    by (intro that [of tip block fes k]) (auto simp: sub_u64_def split: if_splits)
qed

text \<open>The outputs a proposal needs are those of the node at the blocks where a game expects them.\<close>

lemma gathered_outputs:
  assumes ok: "agent_ok out d a" and d: "dp_proposal_output_count d \<noteq> 0"
    and gather: "gather_outputs a start [1..<unat (dp_proposal_output_count d)] = Inr fes"
    and count: "of_nat (length fes) = dp_proposal_output_count d - 1"
  shows "length fes + 1 = unat (dp_proposal_output_count d)"
    "j < length fes \<Longrightarrow> fes ! j = hash_to_fe (out (start + (of_nat j + 1) * dp_output_block_span d))"
proof -
  have n: "unat (dp_proposal_output_count d) \<ge> 1" using d by (simp add: unat_gt_0 Suc_le_eq)
  have le: "length fes \<le> unat (dp_proposal_output_count d) - 1" using gather_outputs_elements(1) [OF gather] by simp
  then have "length fes < 18446744073709551616" using unat_u64_bound [of "dp_proposal_output_count d"] by linarith
  then have "length fes = unat (of_nat (length fes) :: u64)" by (simp add: unat_of_nat)
  also have "\<dots> = unat (dp_proposal_output_count d) - 1" using d by (simp add: count unat_minus_one)
  finally show "length fes + 1 = unat (dp_proposal_output_count d)" using n by linarith
  show "fes ! j = hash_to_fe (out (start + (of_nat j + 1) * dp_output_block_span d))" if "j < length fes"
  proof -
    have "[1..<unat (dp_proposal_output_count d)] ! j = Suc j" using that le by simp
    then show ?thesis
      using gather_outputs_elements(2) [OF gather that] ok by (auto simp: agent_ok_def outputs_ok_def add.commute)
  qed
qed

section \<open>Properties\<close>

text \<open>
  C35. The proposer proposes what its node says. When an attempt prepares a proposal, any game created
  with it (whose contract has the claim, the block number and the parent index of the transaction, the
  deployment's number of outputs and the blobs of the sidecar) loads to a proposal that extends the
  canonical tip by exactly one proposal's worth of blocks and that agrees with the node everywhere: in its root claim, at
  every intermediate output and in its zero trail. And no game existed yet under the proposed claim and data.
\<close>

theorem own_proposal_honest:
  assumes reach: "agent_reach out d a" and tip: "canonical_tip a = Some tip"
    and prepared: "prepare_proposal K w final proposer a = Inr (Some tx)"
    and claim: "tc_root_claim t = pt_output_root tx"
    and data: "\<exists>k. pt_extra_data tx = extra_data (tc_l2_block_number t) (tc_parent_game_index t) k"
    and count: "tc_proposal_output_count t = dp_proposal_output_count d"
    and blobs: "unat (tc_proposal_blobs t) = length (bts_blobs (pt_sidecar tx))"
    and served: "\<forall>i < length (bts_blobs (pt_sidecar tx)). \<exists>b. get_blob (tc_created_at t) (tc_proposal_blob_hashes t i) = Inr b \<and>
      bd_blob b = bts_blobs (pt_sidecar tx) ! i"
  shows "(\<exists>p. load_game get_blob address t = Inr p \<and> honest_proposal out d p \<and> pp_parent p = pp_index tip \<and>
      unat (pp_output_block_number p) = unat (pp_output_block_number tip) +
        unat (dp_proposal_output_count d) * unat (dp_output_block_span d)) \<and>
    pw_games w (pt_output_root tx) (pt_extra_data tx) = 0"
proof -
  have ok: "agent_ok out d a" using reach_ok [OF reach] .
  then have d: "sa_deployment a = d" by (simp add: agent_ok_def)
  from prepared obtain tip' block fes k where parts: "canonical_tip a = Some tip'"
    "extension_ready w final proposer a tip' = Inr (Some block)" "sa_outputs a block = Some (pt_output_root tx)"
    "gather_outputs a (pp_output_block_number tip') [1..<unat (dp_proposal_output_count d)] = Inr fes"
    "dp_proposal_output_count d \<noteq> 0" "of_nat (length fes) = dp_proposal_output_count d - 1"
    "create_sidecar K fes = Inr (pt_sidecar tx)" "pt_extra_data tx = extra_data block (pp_index tip') k"
    "pw_games w (pt_output_root tx) (pt_extra_data tx) = 0"
    unfolding d [symmetric] by (rule prepare_proposal_parts)
  have [simp]: "tip' = tip" using tip parts(1) by simp
  note gathered = gathered_outputs [OF ok parts(5,4,6)]
  have fields: "tc_l2_block_number t = block" "tc_parent_game_index t = pp_index tip"
    using data parts(8) by (auto simp: extra_data_def to_be_bytes_inj)
  have "\<forall>fe \<in> set fes. fe < BLS_MODULUS" using gathered(2) by (auto simp: in_set_conv_nth hash_to_fe_less)
  from sidecar_game [OF parts(7) this, of t get_blob address] blobs served gathered(1) count
  obtain p where p: "load_game get_blob address t = Inr p" "pp_io_field_elements p = fes" "set (pp_trail_field_elements p) \<subseteq> {0}"
    by auto
  have more: "pp_output_root p = pt_output_root tx" "pp_output_block_number p = block" "pp_parent p = pp_index tip"
    using p(1) claim fields by (auto simp: load_game_def res_simps)
  have bpp: "blocks_per_proposal d = Inr (block - pp_output_block_number tip)"
    "add_u64 host (pp_output_block_number tip) (block - pp_output_block_number tip) = Inr block"
    using extension_ready_Some [OF parts(2)] d by simp_all
  have span: "block - pp_output_block_number tip = dp_proposal_output_count d * dp_output_block_span d"
    "unat (dp_proposal_output_count d * dp_output_block_span d) = unat (dp_proposal_output_count d) * unat (dp_output_block_span d)"
    using bpp(1) by (auto simp: blocks_per_proposal_def mul_u64_def unat_word_ariths split: if_splits)
  have height: "unat block = unat (pp_output_block_number tip) + unat (block - pp_output_block_number tip)"
    using bpp(2) unat_add_lem [of "pp_output_block_number tip" "block - pp_output_block_number tip"]
    by (auto simp: add_u64_def split: if_splits)
  then have start: "saturating_sub_u64 block (dp_proposal_output_count d * dp_output_block_span d) = pp_output_block_number tip"
    by (auto simp: span(1) [symmetric] saturating_sub_u64_def word_le_nat_alt)
  have "honest_proposal out d p"
    using ok parts(3) gathered(2) p(2,3)
    by (auto simp: honest_proposal_def more io_block_def start agent_ok_def outputs_ok_def)
  with p(1) more height span parts(9) show ?thesis by auto
qed

section \<open>A proposer at work\<close>

text \<open>
  The proposer answers the faulty game of theory \<open>Dispute_Sample\<close> with a proposal of its own, whose only
  intermediate output is 101.
\<close>

definition sample_proposer_view :: proposer_view where
  "sample_proposer_view = \<lparr>pw_game_impl = 5, pw_chain_time = 10, pw_vanguard = 0, pw_vanguard_advantage = 0,
     pw_games = (\<lambda>_ _. 0), pw_game_index = (\<lambda>_. 0), pw_participation_bond = 1, pw_paid_bond = (\<lambda>_. 0), pw_balance = (\<lambda>_. 5)\<rparr>"

lemma output_101_sidecar:
  "\<exists>b sc. create_sidecar toy_kzg [101] = Inr sc \<and> bts_blobs sc = [b] \<and>
     field_elements b [0..<FIELD_ELEMENTS_PER_BLOB] = Inr ([101] @ replicate (FIELD_ELEMENTS_PER_BLOB - 1) 0)"
proof -
  have "1 \<le> FIELD_ELEMENTS_PER_BLOB" by (simp add: FIELD_ELEMENTS_PER_BLOB_def)
  then show ?thesis using one_blob_sidecar [of "[101]"] by (simp add: BLS_MODULUS_def)
qed

lemma sample_gathered: "gather_outputs (faulty_known s) 0 [1..<unat (dp_proposal_output_count sample_deployment)] = Inr [101]"
proof -
  have "unat (dp_proposal_output_count sample_deployment) = Suc 1" by (simp add: sample_deployment_def)
  then have "[1..<unat (dp_proposal_output_count sample_deployment)] = [1]" by simp
  then show ?thesis
    by (simp add: faulty_known_def faulty_first_def faulty_fetched_def sample_eval mul_u64_def add_u64_def hash_to_fe_def BLS_MODULUS_def)
qed

lemma sample_ready:
  "extension_ready sample_proposer_view None 3 (faulty_known s) (faulty_treasury\<lparr>pp_children := {1}\<rparr>) = Inr (Some 2)"
  by (simp add: extension_ready_def proposing_time_def sample_proposer_view_def faulty_known_def faulty_first_def faulty_fetched_def
      faulty_treasury_def sample_eval load_treasury_def blocks_per_proposal_def min_proposal_time_def mul_u64_def add_u64_def
      requires_vanguard_advantage_def)

lemma sample_prepared:
  assumes "create_sidecar toy_kzg [101] = Inr sc"
  shows "prepare_proposal toy_kzg sample_proposer_view None 3 (faulty_known s) =
    Inr (Some \<lparr>pt_output_root = 102, pt_extra_data = extra_data 2 0 0, pt_value = 1, pt_sidecar = sc\<rparr>)"
proof -
  have tip: "canonical_tip (faulty_known s) = Some (faulty_treasury\<lparr>pp_children := {1}\<rparr>)"
    by (simp add: canonical_tip_def faulty_known_def faulty_first_def faulty_fetched_def sample_eval)
  have fields: "sa_deployment (faulty_known s) = sample_deployment" "sa_outputs (faulty_known s) 2 = Some 102"
    "pp_index faulty_treasury = 0" "pp_output_block_number faulty_treasury = 0"
    by (simp_all add: faulty_known_def faulty_first_def faulty_fetched_def faulty_treasury_def sample_eval load_treasury_def)
  have "unique_extra_data sample_proposer_view (faulty_known s) 102 2 0 0 = Inr (Some (extra_data 2 0 0))"
    by (subst unique_extra_data.simps) (simp add: sample_proposer_view_def)
  moreover have "sub_u64 host (dp_proposal_output_count sample_deployment) 1 = Inr 1" "pw_game_impl sample_proposer_view = dp_game sample_deployment"
    by (simp_all add: sample_deployment_def sub_u64_def sample_proposer_view_def)
  ultimately show ?thesis
    using assms sample_gathered [of s] sample_ready [of s]
    by (simp add: prepare_proposal_def tip fields Let_def) (simp add: sample_proposer_view_def)
qed

theorem own_proposal_honest_witness:
  "\<exists>sc b p. prepare_proposal toy_kzg sample_proposer_view None 3 (faulty_known (output_case 9)) =
      Inr (Some \<lparr>pt_output_root = 102, pt_extra_data = extra_data 2 0 0, pt_value = 1, pt_sidecar = sc\<rparr>) \<and>
    load_game (\<lambda>_ _. Inr (sample_blob_data b)) 3 ((sample_game 3)\<lparr>tc_root_claim := 102, tc_l2_block_number := 2, tc_proposal_blobs := 1\<rparr>) = Inr p \<and>
    honest_proposal sample_out sample_deployment p"
proof -
  obtain b sc where sc: "create_sidecar toy_kzg [101] = Inr sc" "bts_blobs sc = [b]" using output_101_sidecar by blast
  have reach: "agent_reach sample_out sample_deployment (faulty_known (output_case 9))"
    by (rule faulty_known_reach) (simp add: output_case_ok)
  have tip: "canonical_tip (faulty_known (output_case 9)) = Some (faulty_treasury\<lparr>pp_children := {1}\<rparr>)"
    by (simp add: canonical_tip_def faulty_known_def faulty_first_def faulty_fetched_def sample_eval)
  from own_proposal_honest [OF reach tip sample_prepared [OF sc(1)],
      of "(sample_game 3)\<lparr>tc_root_claim := 102, tc_l2_block_number := 2, tc_proposal_blobs := 1\<rparr>" "\<lambda>_ _. Inr (sample_blob_data b)" 3]
  show ?thesis using sample_prepared [OF sc(1)] sc(2)
    by (auto simp: sample_game_def sample_deployment_def sample_blob_data_def)
qed

end
