(* ===== verification/Elimination.thy ===== *)
theory Elimination
  imports Proposer
begin

text \<open>
  The tournament of a proposal, as the contracts play it (\<open>pruneChildren\<close> and the views it uses in
  \<open>src/crates/contracts/foundry/src/KailuaTournament.sol\<close>, \<open>eliminate\<close> of \<open>KailuaTreasury.sol\<close>,
  \<open>resolve\<close> and \<open>getChallengerDuration\<close> of \<open>KailuaGame.sol\<close>), and the proposer that drives it. A revert is
  an error value: it leaves the state as it was. Positions of children are natural numbers; they stay
  far below the bound of their type.
\<close>

section \<open>State\<close>

record contestant =
  ct_contract :: Address
  ct_game_index :: nat
  ct_proposer :: Address
  ct_signature :: B256
  ct_created_at :: u64
  ct_status :: byte

record arena =
  ar_status :: byte
  ar_children :: "contestant list"
  ar_contender_index :: nat
  ar_opponent_index :: nat
  ar_contender_duplicates :: "nat list"
  ar_valid_child_signature :: B256
  ar_proof_status :: "B256 \<Rightarrow> byte"
  ar_prover :: "B256 \<Rightarrow> Address"
  ar_elimination_round :: "Address \<Rightarrow> nat"
  ar_eliminations :: "Address \<Rightarrow> Address list"
  ar_max_clock :: u64

definition is_viable_signature :: "arena \<Rightarrow> B256 \<Rightarrow> bool" where
  "is_viable_signature A signature =
     (if ar_valid_child_signature A \<noteq> 0 then signature = ar_valid_child_signature A
      else ar_proof_status A signature \<noteq> 1)"

definition get_payout_recipient :: "arena \<Rightarrow> B256 \<Rightarrow> Address" where
  "get_payout_recipient A signature =
     (if ar_prover A signature = 0 then ar_prover A (ar_valid_child_signature A) else ar_prover A signature)"

definition is_child_eliminated :: "arena \<Rightarrow> contestant \<Rightarrow> bool" where
  "is_child_eliminated A child \<longleftrightarrow>
     ar_elimination_round A (ct_proposer child) \<noteq> 0 \<and> ar_elimination_round A (ct_proposer child) \<le> ct_game_index child"

definition eliminate :: "contestant \<Rightarrow> Address \<Rightarrow> arena \<Rightarrow> arena result" where
  "eliminate child prover A =
     (if ct_proposer child = 0 then bail ''NotProposed''
      else if 0 < ar_elimination_round A (ct_proposer child) then bail ''AlreadyEliminated''
      else Inr (A\<lparr>ar_elimination_round := (ar_elimination_round A)(ct_proposer child := ct_game_index child),
                 ar_eliminations := (ar_eliminations A)(prover := ar_eliminations A prover @ [ct_proposer child])\<rparr>))"

definition get_challenger_duration :: "arena \<Rightarrow> contestant \<Rightarrow> u64 \<Rightarrow> u64 result" where
  "get_challenger_duration A child as_of =
     (if ct_status child \<noteq> 0 then bail ''GameNotInProgress''
      else if as_of < ct_created_at child then Inl (Panic ''arithmetic underflow'')
      else Inr (if ar_max_clock A \<le> as_of - ct_created_at child then 0
                else ar_max_clock A - (as_of - ct_created_at child)))"

section \<open>Pruning\<close>

text \<open>The duplicates of a beaten contender, from the last one; the remaining steps are returned.\<close>

fun eliminate_duplicates :: "Address \<Rightarrow> nat \<Rightarrow> arena \<Rightarrow> (nat \<times> arena) result" where
  "eliminate_duplicates recipient 0 A = Inr (0, A)"
| "eliminate_duplicates recipient (Suc n) A =
     (if ar_contender_duplicates A = [] then Inr (Suc n, A)
      else and_then (index_vec (ar_children A) (last (ar_contender_duplicates A))) (\<lambda>duplicate.
        and_then (if is_child_eliminated A duplicate then Inr A else eliminate duplicate recipient A) (\<lambda>A.
        eliminate_duplicates recipient n
          (A\<lparr>ar_contender_duplicates := butlast (ar_contender_duplicates A)\<rparr>))))"

text \<open>The next viable contender from position \<open>u\<close>, with the contender and the signature last looked at.\<close>

fun next_contender ::
  "nat \<Rightarrow> nat \<Rightarrow> contestant \<times> B256 \<Rightarrow> arena \<Rightarrow> (nat \<times> nat \<times> (contestant \<times> B256) \<times> arena) result" where
  "next_contender 0 u c A = Inr (u, 0, c, A)"
| "next_contender (Suc n) u c A =
     (if length (ar_children A) \<le> u then Inr (u, Suc n, c, A)
      else let contender = ar_children A ! u
           in if is_child_eliminated A contender then next_contender n (Suc u) (contender, snd c) A
              else let signature = ct_signature contender
                   in if is_viable_signature A signature then Inr (u, Suc n, (contender, signature), A)
                      else and_then (eliminate contender (get_payout_recipient A signature) A)
                             (next_contender n (Suc u) (contender, signature)))"

fun prune_opponents :: "nat \<Rightarrow> nat \<Rightarrow> contestant \<times> B256 \<Rightarrow> arena \<Rightarrow> (nat \<times> nat \<times> arena) result" where
  "prune_opponents 0 v c A = Inr (v, 0, A)"
| "prune_opponents (Suc n) v c A =
     (if length (ar_children A) \<le> v then Inr (v, Suc n, A)
      else let opponent = ar_children A ! v
           in and_then (get_challenger_duration A (fst c) (ct_created_at opponent)) (\<lambda>duration.
              if duration = 0 then Inr (v, Suc n, A)
              else if is_child_eliminated A opponent then prune_opponents n (Suc v) c A
              else if ct_signature opponent = snd c
              then prune_opponents n (Suc v) c (A\<lparr>ar_contender_duplicates := ar_contender_duplicates A @ [v]\<rparr>)
              else if is_viable_signature A (ct_signature opponent) then bail ''NotProven''
              else and_then (eliminate opponent (get_payout_recipient A (ct_signature opponent)) A)
                     (prune_opponents n (Suc v) c)))"

text \<open>A beaten contender is eliminated with its duplicates, \<open>None\<close> when the steps do not suffice for these.\<close>

definition replace_contender ::
  "nat \<Rightarrow> nat \<Rightarrow> contestant \<times> B256 \<Rightarrow> arena \<Rightarrow> (arena \<times> (nat \<times> nat \<times> (contestant \<times> B256)) option) result" where
  "replace_contender step_limit v c A =
     (let recipient = get_payout_recipient A (snd c)
      in and_then (eliminate_duplicates recipient step_limit A) (\<lambda>(n, A).
         if n = 0 then Inr (A, None)
         else and_then (if is_child_eliminated A (fst c) then Inr A else eliminate (fst c) recipient A) (\<lambda>A.
           and_then (next_contender (n - 1) v c A) (\<lambda>(u, n, c, A).
           Inr (A\<lparr>ar_contender_index := u\<rparr>, Some (u, n, c))))))"

definition prune_match ::
  "nat \<Rightarrow> nat \<Rightarrow> nat \<Rightarrow> contestant \<times> B256 \<Rightarrow> arena \<Rightarrow> (arena \<times> Address) result" where
  "prune_match step_limit u v c A =
     (if u < length (ar_children A) \<and> is_viable_signature A (ct_signature (ar_children A ! u))
      then and_then (prune_opponents step_limit v c A) (\<lambda>(v, n, A).
        Inr (A\<lparr>ar_opponent_index := v\<rparr>,
             if v = length (ar_children A) \<or> 0 < n then ct_contract (fst c) else 0))
      else Inr (A, 0))"

definition pruneChildren :: "nat \<Rightarrow> arena \<Rightarrow> (arena \<times> Address) result" where
  "pruneChildren step_limit A =
     (if ar_status A \<noteq> 2 then bail ''GameNotResolved''
      else if ar_children A = [] then bail ''NotProposed''
      else let u = ar_contender_index A; v = ar_opponent_index A
           in if u = length (ar_children A) then Inr (A, 0)
              else let v = (if v \<le> u then u + 1 else v)
                   in and_then (index_vec (ar_children A) u) (\<lambda>contender.
                      if ct_status contender = 2 then Inr (A, ct_contract contender)
                      else if \<not> is_viable_signature A (ct_signature contender) \<or> is_child_eliminated A contender
                      then and_then (replace_contender step_limit v (contender, ct_signature contender) A) (\<lambda>(A, r).
                        case r of
                          None \<Rightarrow> Inr (A, 0)
                        | Some (u, n, c) \<Rightarrow> prune_match n u (u + 1) c A)
                      else prune_match step_limit u v (contender, ct_signature contender) A))"

section \<open>Resolution\<close>

text \<open>\<open>resolve\<close> of the child at a position, at the time of the block that calls it.\<close>

definition resolve_child :: "nat \<Rightarrow> u64 \<Rightarrow> arena \<Rightarrow> arena result" where
  "resolve_child i now A =
     and_then (index_vec (ar_children A) i) (\<lambda>child.
     if ct_status child \<noteq> 0 then bail ''GameNotInProgress''
     else if ar_status A \<noteq> 2 then bail ''OutOfOrderResolution''
     else and_then
       (if ar_valid_child_signature A \<noteq> 0
        then (if ct_signature child \<noteq> ar_valid_child_signature A then bail ''ProvenFaulty'' else Inr ())
        else and_then (get_challenger_duration A child now) (\<lambda>duration.
          if 0 < duration then bail ''ClockNotExpired'' else Inr ())) (\<lambda>_.
       and_then (pruneChildren (length (ar_children A) * 2) A) (\<lambda>(A, survivor).
       if survivor \<noteq> ct_contract child then bail ''NotProven''
       else Inr (A\<lparr>ar_children := (ar_children A)[i := child\<lparr>ct_status := 2\<rparr>]\<rparr>))))"

definition ELIMINATIONS_LIMIT :: nat where
  "ELIMINATIONS_LIMIT = 128"

text \<open>
  The chain as the proposer finds it, when it wants to resolve the child at a position. Transactions
  through the agent's provider need a provider that signs.
\<close>

definition arena_chain :: "bool \<Rightarrow> nat \<Rightarrow> u64 \<Rightarrow> arena tournament_state" where
  "arena_chain agent_signs i now =
     \<lparr>ts_prune_call = (\<lambda>A. and_then (pruneChildren ELIMINATIONS_LIMIT A) (\<lambda>(_, survivor). Inr survivor)),
      ts_survivor_call = (\<lambda>A. and_then (pruneChildren (length (ar_children A) * 2) A) (\<lambda>(_, survivor). Inr survivor)),
      ts_prune_agent = (\<lambda>A. if agent_signs
        then (case pruneChildren ELIMINATIONS_LIMIT A of Inl _ \<Rightarrow> None | Inr (A, _) \<Rightarrow> Some A) else None),
      ts_prune_proposer = (\<lambda>A. case pruneChildren ELIMINATIONS_LIMIT A of Inl _ \<Rightarrow> None | Inr (A, _) \<Rightarrow> Some A),
      ts_resolve = (\<lambda>A. case resolve_child i now A of Inl _ \<Rightarrow> False | Inr _ \<Rightarrow> True)\<rparr>"

section \<open>Runs of eliminations\<close>

definition beaten :: "arena \<Rightarrow> contestant \<Rightarrow> bool" where
  "beaten A b \<longleftrightarrow> ct_proposer b \<noteq> 0 \<and> ar_elimination_round A (ct_proposer b) = 0 \<and> \<not> is_viable_signature A (ct_signature b)"

text \<open>Eliminations change the record of eliminations only, at the proposers in question.\<close>

definition eliminated_within :: "Address set \<Rightarrow> arena \<Rightarrow> arena \<Rightarrow> bool" where
  "eliminated_within Q A A' \<longleftrightarrow>
     (\<exists>r e. A' = A\<lparr>ar_elimination_round := r, ar_eliminations := e\<rparr>) \<and>
     (\<forall>q. q \<notin> Q \<longrightarrow> ar_elimination_round A' q = ar_elimination_round A q)"

lemma eliminated_within_refl [simp]: "eliminated_within Q A A"
proof -
  have "A = A\<lparr>ar_elimination_round := ar_elimination_round A, ar_eliminations := ar_eliminations A\<rparr>" by simp
  then show ?thesis unfolding eliminated_within_def by blast
qed

lemma eliminated_within_trans:
  assumes "eliminated_within Q A B" and "eliminated_within R B C"
  shows "eliminated_within (Q \<union> R) A C"
proof -
  obtain r e r' e' where eqs: "B = A\<lparr>ar_elimination_round := r, ar_eliminations := e\<rparr>"
      "C = B\<lparr>ar_elimination_round := r', ar_eliminations := e'\<rparr>"
    using assms by (auto simp: eliminated_within_def)
  have "C = A\<lparr>ar_elimination_round := r', ar_eliminations := e'\<rparr>" by (simp add: eqs)
  then show ?thesis using assms unfolding eliminated_within_def by auto
qed

lemma eliminated_within_frame:
  assumes "eliminated_within Q A A'"
  shows "ar_children A' = ar_children A" "ar_status A' = ar_status A" "is_viable_signature A' = is_viable_signature A"
    "ar_contender_duplicates A' = ar_contender_duplicates A" "ar_max_clock A' = ar_max_clock A"
    "ct_proposer b \<notin> Q \<Longrightarrow> is_child_eliminated A' b = is_child_eliminated A b"
    "ct_proposer b \<notin> Q \<Longrightarrow> beaten A' b = beaten A b"
  using assms by (auto simp: eliminated_within_def is_viable_signature_def is_child_eliminated_def beaten_def fun_eq_iff)

lemma viable_cursor [simp]: "is_viable_signature (A\<lparr>ar_contender_index := u\<rparr>) = is_viable_signature A"
  by (simp add: is_viable_signature_def fun_eq_iff)

lemma eliminate_beaten:
  assumes "beaten A b"
  shows "\<not> is_child_eliminated A b" "\<exists>A'. eliminate b prover A = Inr A' \<and> eliminated_within {ct_proposer b} A A'"
  using assms by (auto simp: beaten_def is_child_eliminated_def eliminate_def eliminated_within_def)

lemma beaten_others:
  assumes "eliminated_within {ct_proposer b} A B" and "\<forall>x \<in> set (b # bs). beaten A x" and "distinct (map ct_proposer (b # bs))"
  shows "\<forall>x \<in> set bs. beaten B x"
proof
  fix x
  assume x: "x \<in> set bs"
  then have "ct_proposer x \<notin> {ct_proposer b}" using assms(3) by (auto simp: image_iff)
  then show "beaten B x" using eliminated_within_frame(7) [OF assms(1)] assms(2) x by simp
qed

lemma next_contender_run:
  assumes "drop u (ar_children A) = bs @ rest" and "\<forall>b \<in> set bs. beaten A b" and "distinct (map ct_proposer bs)"
  shows "\<exists>A'. next_contender (length bs + m) u c A =
      next_contender m (u + length bs) (if bs = [] then c else (last bs, ct_signature (last bs))) A' \<and>
    eliminated_within (ct_proposer ` set bs) A A'"
  using assms
proof (induction bs arbitrary: u c A)
  case Nil
  then show ?case by (auto intro: exI [of _ A])
next
  case (Cons b bs)
  have u: "u < length (ar_children A)" "ar_children A ! u = b" "drop (Suc u) (ar_children A) = bs @ rest"
  proof -
    show "u < length (ar_children A)" using Cons.prems(1) by (cases "u < length (ar_children A)") auto
    then show "ar_children A ! u = b" "drop (Suc u) (ar_children A) = bs @ rest"
      using Cons.prems(1) by (auto simp: Cons_nth_drop_Suc [symmetric])
  qed
  have b: "beaten A b" using Cons.prems(2) by simp
  then obtain B where B: "eliminate b (get_payout_recipient A (ct_signature b)) A = Inr B" "eliminated_within {ct_proposer b} A B"
    using eliminate_beaten(2) by blast
  note frame = eliminated_within_frame [OF B(2)]
  have "\<forall>x \<in> set bs. beaten B x" using beaten_others [OF B(2) Cons.prems(2,3)] .
  with Cons.IH [of "Suc u" B "(b, ct_signature b)"] u(3) Cons.prems(3) obtain C where
    C: "next_contender (length bs + m) (Suc u) (b, ct_signature b) B =
      next_contender m (Suc u + length bs) (if bs = [] then (b, ct_signature b) else (last bs, ct_signature (last bs))) C"
      "eliminated_within (ct_proposer ` set bs) B C"
    by (auto simp: frame)
  have "next_contender (length (b # bs) + m) u c A = next_contender (length bs + m) (Suc u) (b, ct_signature b) B"
    using u(1,2) b B(1) eliminate_beaten(1) [OF b] by (simp add: Let_def beaten_def)
  then show ?case using C eliminated_within_trans [OF B(2) C(2)] by auto
qed

text \<open>A contender that loses to children that are all beaten, with steps for some of them.\<close>

lemma prune_beaten:
  assumes status: "ar_status A = 2" and children: "ar_children A = b # bs @ rest"
    and fresh: "ar_contender_index A = 0" "ar_opponent_index A = 0" "ar_contender_duplicates A = []"
    and beaten: "\<forall>x \<in> set (b # bs). beaten A x" "distinct (map ct_proposer (b # bs))" and "ct_status b \<noteq> 2"
  shows "\<exists>B. eliminated_within (ct_proposer ` set (b # bs)) A B \<and>
    pruneChildren (Suc (length bs + m)) A =
      and_then (next_contender m (Suc (length bs)) (last (b # bs), ct_signature (last (b # bs))) B) (\<lambda>(u, n, c, C).
      prune_match n u (u + 1) c (C\<lparr>ar_contender_index := u\<rparr>))"
proof -
  obtain B where B: "eliminate b (get_payout_recipient A (ct_signature b)) A = Inr B" "eliminated_within {ct_proposer b} A B"
    using eliminate_beaten(2) beaten(1) by (metis list.set_intros(1))
  note frame = eliminated_within_frame [OF B(2)]
  have ok: "\<not> is_viable_signature A (ct_signature b)" "\<not> is_child_eliminated A b"
    using beaten(1) eliminate_beaten(1) by (auto simp: beaten_def)
  have "\<forall>x \<in> set bs. beaten B x" using beaten_others [OF B(2) beaten] .
  with next_contender_run [of 1 B bs rest m "(b, ct_signature b)"] beaten(2) obtain C where
    C: "next_contender (length bs + m) 1 (b, ct_signature b) B =
      next_contender m (1 + length bs) (if bs = [] then (b, ct_signature b) else (last bs, ct_signature (last bs))) C"
      "eliminated_within (ct_proposer ` set bs) B C"
    by (auto simp: frame children)
  have "pruneChildren (Suc (length bs + m)) A =
      and_then (next_contender (length bs + m) 1 (b, ct_signature b) B) (\<lambda>(u, n, c, C).
      prune_match n u (u + 1) c (C\<lparr>ar_contender_index := u\<rparr>))"
    using status children fresh ok B(1) \<open>ct_status b \<noteq> 2\<close>
    by (simp add: pruneChildren_def replace_contender_def Let_def index_vec_def and_then_def split: sum.splits prod.splits)
  then show ?thesis using C eliminated_within_trans [OF B(2) C(2)] by auto
qed

text \<open>The steps are used up at the last child, before it, or they suffice.\<close>

lemma prune_stale:
  assumes "ar_status A = 2" and "ar_children A = b # bs @ [h]"
    and "ar_contender_index A = 0" "ar_opponent_index A = 0" "ar_contender_duplicates A = []"
    and "\<forall>x \<in> set (b # bs). beaten A x" "distinct (map ct_proposer (b # bs))" and "ct_status b \<noteq> 2"
    and "is_viable_signature A (ct_signature h)"
  shows "\<exists>B. pruneChildren (Suc (length bs)) A = Inr (B, ct_contract (last (b # bs)))"
proof -
  obtain B where B: "eliminated_within (ct_proposer ` set (b # bs)) A B"
    "pruneChildren (Suc (length bs + 0)) A =
      and_then (next_contender 0 (Suc (length bs)) (last (b # bs), ct_signature (last (b # bs))) B) (\<lambda>(u, n, c, C).
      prune_match n u (u + 1) c (C\<lparr>ar_contender_index := u\<rparr>))"
    using prune_beaten [OF assms(1-8), of 0] by blast
  note frame = eliminated_within_frame [OF B(1)]
  show ?thesis using B(2) assms(2,9) by (simp add: prune_match_def frame nth_append)
qed

lemma prune_exhausted:
  assumes "ar_status A = 2" and "ar_children A = b # bs @ x # rest"
    and "ar_contender_index A = 0" "ar_opponent_index A = 0" "ar_contender_duplicates A = []"
    and "\<forall>x \<in> set (b # bs). beaten A x" "distinct (map ct_proposer (b # bs))" and "ct_status b \<noteq> 2"
    and "\<not> is_viable_signature A (ct_signature x)"
  shows "\<exists>B. pruneChildren (Suc (length bs)) A = Inr (B, 0)"
proof -
  obtain B where B: "eliminated_within (ct_proposer ` set (b # bs)) A B"
    "pruneChildren (Suc (length bs + 0)) A =
      and_then (next_contender 0 (Suc (length bs)) (last (b # bs), ct_signature (last (b # bs))) B) (\<lambda>(u, n, c, C).
      prune_match n u (u + 1) c (C\<lparr>ar_contender_index := u\<rparr>))"
    using prune_beaten [OF assms(1-8), of 0] by blast
  note frame = eliminated_within_frame [OF B(1)]
  show ?thesis using B(2) assms(2,9) by (simp add: prune_match_def frame nth_append)
qed

lemma prune_sufficient:
  assumes "ar_status A = 2" and "ar_children A = b # bs @ [h]"
    and "ar_contender_index A = 0" "ar_opponent_index A = 0" "ar_contender_duplicates A = []"
    and "\<forall>x \<in> set (b # bs). beaten A x" "distinct (map ct_proposer (b # bs))" and "ct_status b \<noteq> 2"
    and "is_viable_signature A (ct_signature h)" and "\<not> is_child_eliminated A h" and "ct_proposer h \<notin> ct_proposer ` set (b # bs)"
  shows "\<exists>B. pruneChildren (Suc (length bs + Suc m)) A = Inr (B, ct_contract h)"
proof -
  obtain B where B: "eliminated_within (ct_proposer ` set (b # bs)) A B"
    "pruneChildren (Suc (length bs + Suc m)) A =
      and_then (next_contender (Suc m) (Suc (length bs)) (last (b # bs), ct_signature (last (b # bs))) B) (\<lambda>(u, n, c, C).
      prune_match n u (u + 1) c (C\<lparr>ar_contender_index := u\<rparr>))"
    using prune_beaten [OF assms(1-8), of "Suc m"] by blast
  note frame = eliminated_within_frame [OF B(1)]
  have "\<not> is_child_eliminated B h" using frame(6) [OF assms(11)] assms(10) by simp
  then show ?thesis using B(2) assms(2,9) by (simp add: prune_match_def frame nth_append Let_def)
qed

text \<open>A tournament in which a viable child follows children that are all proven faulty.\<close>

definition siege :: "arena \<Rightarrow> contestant list \<Rightarrow> contestant \<Rightarrow> bool" where
  "siege A bads h \<longleftrightarrow>
     ar_status A = 2 \<and> ar_children A = bads @ [h] \<and> ar_contender_index A = 0 \<and> ar_opponent_index A = 0 \<and>
     ar_contender_duplicates A = [] \<and> distinct (map ct_proposer (bads @ [h])) \<and>
     (\<forall>b \<in> set bads. beaten A b \<and> ct_status b = 0 \<and> ct_contract b \<noteq> 0 \<and> ct_contract b \<noteq> ct_contract h) \<and>
     is_viable_signature A (ct_signature h) \<and> \<not> is_child_eliminated A h \<and> ct_status h = 0 \<and> ct_contract h \<noteq> 0"

lemma siege_survivor:
  assumes "siege A bads h" and "bads \<noteq> []"
  shows "\<exists>B. pruneChildren (length (ar_children A) * 2) A = Inr (B, ct_contract h)"
proof -
  obtain b bs where bads: "bads = b # bs" using assms(2) by (cases bads) auto
  have "length (ar_children A) * 2 = Suc (length bs + Suc (Suc (Suc (length bs))))"
    using assms(1) by (simp add: siege_def bads)
  then show ?thesis
    using prune_sufficient [of A b bs h "Suc (Suc (length bs))"] assms(1) by (simp only:) (auto simp: siege_def bads)
qed

lemma siege_resolves:
  assumes "siege A bads h" and "bads \<noteq> []"
    and ended: "ar_valid_child_signature A \<noteq> 0 \<or> get_challenger_duration A h now = Inr 0"
  shows "\<exists>B. resolve_child (length bads) now A = Inr B"
proof -
  obtain B where "pruneChildren (length (ar_children A) * 2) A = Inr (B, ct_contract h)"
    using siege_survivor [OF assms(1,2)] by blast
  moreover have "ar_valid_child_signature A \<noteq> 0 \<Longrightarrow> ct_signature h = ar_valid_child_signature A"
    using assms(1) by (simp add: siege_def is_viable_signature_def)
  ultimately show ?thesis using assms(1) ended
    by (auto simp: resolve_child_def siege_def index_vec_def nth_append)
qed

text \<open>
  The call of the pruning loops: with no more faulty children than it has steps it names a child, though at
  the limit not the honest one, and with more it names none.
\<close>

lemma siege_prune_few:
  assumes "siege A bads h" and "bads \<noteq> []" and "length bads \<le> ELIMINATIONS_LIMIT"
  shows "\<exists>B survivor. pruneChildren ELIMINATIONS_LIMIT A = Inr (B, survivor) \<and> survivor \<noteq> 0"
proof -
  obtain b bs where b: "bads = b # bs" using assms(2) by (cases bads) auto
  show ?thesis
  proof (cases "length bads = ELIMINATIONS_LIMIT")
    case True
    moreover have "ct_contract (last bads) \<noteq> 0" using assms(1,2) by (simp add: siege_def)
    ultimately show ?thesis
      using prune_stale [of A b bs h] assms(1) by (auto simp: siege_def b True [symmetric])
  next
    case False
    then obtain m where "ELIMINATIONS_LIMIT = Suc (length bs + Suc m)"
      using assms(3) less_imp_Suc_add [of "length bads" ELIMINATIONS_LIMIT] by (auto simp: b)
    with prune_sufficient [of A b bs h m] assms(1) show ?thesis by (auto simp: siege_def b)
  qed
qed

lemma siege_prune_many:
  assumes "siege A bads h" and "ELIMINATIONS_LIMIT < length bads"
  shows "\<exists>B. pruneChildren ELIMINATIONS_LIMIT A = Inr (B, 0)"
proof -
  obtain b bs where b: "bads = b # bs" using assms(2) by (cases bads) auto
  define cs where "cs = take (ELIMINATIONS_LIMIT - 1) bs"
  have cs: "Suc (length cs) = ELIMINATIONS_LIMIT" using assms(2) by (simp add: cs_def b ELIMINATIONS_LIMIT_def)
  obtain x rest where split: "bs = cs @ x # rest"
    using assms(2) id_take_nth_drop [of "ELIMINATIONS_LIMIT - 1" bs] by (auto simp: cs_def b ELIMINATIONS_LIMIT_def)
  have "\<not> is_viable_signature A (ct_signature x)" using assms(1) by (auto simp: siege_def b split beaten_def)
  then show ?thesis
    using prune_exhausted [of A b cs x "rest @ [h]"] assms(1) by (auto simp: siege_def b split cs)
qed

section \<open>Sufficient steps\<close>

text \<open>What pruning never changes.\<close>

definition same_claims :: "arena \<Rightarrow> arena \<Rightarrow> bool" where
  "same_claims A A' \<longleftrightarrow> ar_children A' = ar_children A \<and> is_viable_signature A' = is_viable_signature A"

lemma same_claims_simps [simp]:
  "same_claims A A" "same_claims (A\<lparr>ar_contender_duplicates := ds\<rparr>) B = same_claims A B" "same_claims A (B\<lparr>ar_contender_duplicates := ds\<rparr>) = same_claims A B"
  "same_claims A (B\<lparr>ar_contender_index := u\<rparr>) = same_claims A B"
  by (simp_all add: same_claims_def is_viable_signature_def fun_eq_iff)

lemma same_claims_trans: "same_claims A B \<Longrightarrow> same_claims B C \<Longrightarrow> same_claims A C"
  by (simp add: same_claims_def)

lemma eliminate_same: "eliminate child prover A = Inr B \<Longrightarrow> same_claims A B \<and> ar_contender_duplicates B = ar_contender_duplicates A"
  by (auto simp: eliminate_def same_claims_def is_viable_signature_def fun_eq_iff bail_def split: if_splits)

lemma eliminate_duplicates_steps:
  "eliminate_duplicates recipient n A = Inr (m, B) \<Longrightarrow> same_claims A B \<and> n - length (ar_contender_duplicates A) \<le> m"
proof (induction recipient n A arbitrary: m B rule: eliminate_duplicates.induct)
  case (2 recipient n A)
  show ?case
  proof (cases "ar_contender_duplicates A = []")
    case True
    then show ?thesis using "2.prems" by simp
  next
    case False
    then obtain duplicate A1 where A1: "index_vec (ar_children A) (last (ar_contender_duplicates A)) = Inr duplicate"
      "(if is_child_eliminated A duplicate then Inr A else eliminate duplicate recipient A) = Inr A1"
      "eliminate_duplicates recipient n (A1\<lparr>ar_contender_duplicates := butlast (ar_contender_duplicates A1)\<rparr>) = Inr (m, B)"
      using "2.prems" by (auto simp: res_simps)
    have same: "same_claims A A1" "ar_contender_duplicates A1 = ar_contender_duplicates A"
      using A1(2) eliminate_same by (auto split: if_splits)
    from "2.IH" [OF False A1(1,2,3)] have "same_claims A1 B" "n - (length (ar_contender_duplicates A) - 1) \<le> m"
      by (simp_all add: same(2))
    moreover have "0 < length (ar_contender_duplicates A)" using False by simp
    ultimately show ?thesis using same_claims_trans [OF same(1)] by simp
  qed
qed simp

lemma next_contender_steps:
  assumes "next_contender n u c A = Inr (u', m, c', B)" and "length (ar_children A) - u \<le> n"
  shows "same_claims A B \<and> (u' < length (ar_children A) \<longrightarrow>
    c' = (ar_children A ! u', ct_signature (ar_children A ! u')) \<and> is_viable_signature A (ct_signature (ar_children A ! u')))"
  using assms
proof (induction n u c A rule: next_contender.induct)
  case (2 n u c A)
  show ?case
  proof (cases "length (ar_children A) \<le> u")
    case True
    then show ?thesis using "2.prems" by simp
  next
    case False
    let ?c = "ar_children A ! u"
    have less: "length (ar_children A) - Suc u \<le> n" using "2.prems"(2) False by simp
    consider (out) "is_child_eliminated A ?c" | (found) "\<not> is_child_eliminated A ?c" "is_viable_signature A (ct_signature ?c)"
      | (bad) "\<not> is_child_eliminated A ?c" "\<not> is_viable_signature A (ct_signature ?c)" by blast
    then show ?thesis
    proof cases
      case out
      then show ?thesis using "2.IH"(1) [OF False refl out] "2.prems"(1) False less by simp
    next
      case found
      then show ?thesis using "2.prems"(1) False by (auto simp: Let_def)
    next
      case bad
      then obtain A1 where A1: "eliminate ?c (get_payout_recipient A (ct_signature ?c)) A = Inr A1"
        "next_contender n (Suc u) (?c, ct_signature ?c) A1 = Inr (u', m, c', B)"
        using "2.prems"(1) False by (auto simp: Let_def res_simps)
      have same: "same_claims A A1" using eliminate_same [OF A1(1)] by simp
      then have "same_claims A1 B \<and> (u' < length (ar_children A1) \<longrightarrow>
          c' = (ar_children A1 ! u', ct_signature (ar_children A1 ! u')) \<and> is_viable_signature A1 (ct_signature (ar_children A1 ! u')))"
        using "2.IH"(2) [OF False refl bad(1) refl bad(2) A1] less by (simp add: same_claims_def)
      then show ?thesis using same same_claims_trans [OF same] by (simp add: same_claims_def)
    qed
  qed
qed simp

lemma prune_match_survivor:
  assumes "prune_match n u v c A = Inr (B, s)" and "s \<noteq> 0"
  shows "u < length (ar_children A)" "s = ct_contract (fst c)" "is_viable_signature A (ct_signature (ar_children A ! u))"
  using assms by (auto simp: prune_match_def res_simps split: if_splits)

text \<open>With enough steps, a survivor is a child that is final or viable.\<close>

lemma prune_survivor:
  assumes "pruneChildren n A = Inr (B, s)" and "s \<noteq> 0"
    and steps: "length (ar_children A) + length (ar_contender_duplicates A) \<le> n"
  shows "\<exists>child \<in> set (ar_children A). s = ct_contract child \<and> (ct_status child = 2 \<or> is_viable_signature A (ct_signature child))"
proof -
  let ?u = "ar_contender_index A"
  define v where "v = (if ar_opponent_index A \<le> ?u then ?u + 1 else ar_opponent_index A)"
  have u: "?u < length (ar_children A)"
    using assms(1,2) by (auto simp: pruneChildren_def Let_def res_simps index_vec_def bail_def split: if_splits)
  let ?c = "ar_children A ! ?u"
  consider (final) "ct_status ?c = 2" "s = ct_contract ?c"
    | (replaced) A1 u m c where "replace_contender n v (?c, ct_signature ?c) A = Inr (A1, Some (u, m, c))"
        "prune_match m u (u + 1) c A1 = Inr (B, s)"
    | (same) "is_viable_signature A (ct_signature ?c)" "prune_match n ?u v (?c, ct_signature ?c) A = Inr (B, s)"
    using assms(1,2) u
    by (auto simp: pruneChildren_def Let_def res_simps bail_def v_def [symmetric] split: if_splits option.splits)
  then show ?thesis
  proof cases
    case final
    then show ?thesis using u by auto
  next
    case replaced
    then obtain k A2 A3 A4 where parts: "eliminate_duplicates (get_payout_recipient A (ct_signature ?c)) n A = Inr (k, A2)" "k \<noteq> 0"
      "(if is_child_eliminated A2 ?c then Inr A2 else eliminate ?c (get_payout_recipient A (ct_signature ?c)) A2) = Inr A3"
      "next_contender (k - 1) v (?c, ct_signature ?c) A3 = Inr (u, m, c, A4)" "A1 = A4\<lparr>ar_contender_index := u\<rparr>"
      by (auto simp: replace_contender_def Let_def res_simps split: if_splits)
    have "same_claims A A2" "n - length (ar_contender_duplicates A) \<le> k"
      using eliminate_duplicates_steps [OF parts(1)] by auto
    moreover from parts(3) have "same_claims A2 A3" using eliminate_same by (auto split: if_splits)
    ultimately have A3: "same_claims A A3" and k: "length (ar_children A) \<le> k" using same_claims_trans steps by auto
    have "?u < v" by (simp add: v_def)
    then have "length (ar_children A3) - v \<le> k - 1"
      using A3 k u parts(2) by (simp add: same_claims_def)
    from next_contender_steps [OF parts(4) this] A3 prune_match_survivor [OF replaced(2) assms(2)] show ?thesis
      by (auto simp: parts(5) same_claims_def)
  next
    case same
    then show ?thesis using u prune_match_survivor [OF same(2) assms(2)] by auto
  qed
qed

section \<open>Properties\<close>

text \<open>
  A child that was proven faulty, or that lost to a validity proof, is never resolved: when
  \<open>resolve\<close> of a child succeeds, the child was in progress and its signature is viable, that is, it is the one a
  validity proof accepted, or, without such a proof, no fault was proven for it and its clock has
  expired. The contract prunes with enough steps to rule out the stale survivor.
\<close>

theorem resolved_child_viable:
  assumes resolved: "resolve_child i now A = Inr B"
    and children: "distinct (map ct_contract (ar_children A))" "\<forall>child \<in> set (ar_children A). ct_contract child \<noteq> 0"
    and duplicates: "length (ar_contender_duplicates A) \<le> length (ar_children A)"
  shows "\<exists>child. i < length (ar_children A) \<and> child = ar_children A ! i \<and> ct_status child = 0 \<and>
    is_viable_signature A (ct_signature child) \<and>
    (ar_valid_child_signature A = 0 \<longrightarrow> ar_proof_status A (ct_signature child) \<noteq> 1 \<and> get_challenger_duration A child now = Inr 0)"
proof -
  let ?child = "ar_children A ! i"
  have i: "i < length (ar_children A)" using resolved by (auto simp: resolve_child_def res_simps)
  have status: "ct_status ?child = 0" using resolved by (auto simp: resolve_child_def res_simps bail_def split: if_splits)
  obtain C where prune: "pruneChildren (length (ar_children A) * 2) A = Inr (C, ct_contract ?child)"
    using resolved by (auto simp: resolve_child_def res_simps bail_def split: if_splits)
  have clock: "ar_valid_child_signature A = 0 \<Longrightarrow> get_challenger_duration A ?child now = Inr 0"
    using resolved by (auto simp: resolve_child_def res_simps bail_def word_gt_0 split: if_splits)
  have "ct_contract ?child \<noteq> 0" using children(2) i by simp
  from prune_survivor [OF prune this] duplicates obtain x where x: "x \<in> set (ar_children A)" "ct_contract ?child = ct_contract x"
    "ct_status x = 2 \<or> is_viable_signature A (ct_signature x)" by auto
  then have "x = ?child" using children(1) i by (auto simp: distinct_map inj_on_def)
  with x(3) status have "is_viable_signature A (ct_signature ?child)" by auto
  with i status clock show ?thesis by (auto simp: is_viable_signature_def)
qed

definition sample_arena :: arena where
  "sample_arena = \<lparr>ar_status = 2,
     ar_children = [\<lparr>ct_contract = 2, ct_game_index = 1, ct_proposer = 2, ct_signature = 6, ct_created_at = 10, ct_status = 0\<rparr>,
       \<lparr>ct_contract = 3, ct_game_index = 2, ct_proposer = 3, ct_signature = 5, ct_created_at = 11, ct_status = 0\<rparr>],
     ar_contender_index = 0, ar_opponent_index = 0, ar_contender_duplicates = [], ar_valid_child_signature = 0,
     ar_proof_status = (\<lambda>s. if s = 6 then 1 else 0), ar_prover = (\<lambda>_. 9), ar_elimination_round = (\<lambda>_. 0),
     ar_eliminations = (\<lambda>_. []), ar_max_clock = 100\<rparr>"

theorem resolved_child_viable_witness:
  "\<exists>B. resolve_child 1 200 sample_arena = Inr B \<and> is_viable_signature sample_arena (ct_signature (ar_children sample_arena ! 1))"
proof -
  have "siege sample_arena [ar_children sample_arena ! 0] (ar_children sample_arena ! 1)"
    by (simp add: siege_def beaten_def is_viable_signature_def is_child_eliminated_def sample_arena_def)
  moreover have "get_challenger_duration sample_arena (ar_children sample_arena ! 1) 200 = Inr 0"
    by (simp add: get_challenger_duration_def sample_arena_def)
  ultimately have "\<exists>B. resolve_child 1 200 sample_arena = Inr B"
    using siege_resolves [of sample_arena "[ar_children sample_arena ! 0]"] by simp
  then obtain B where B: "resolve_child 1 200 sample_arena = Inr B" by blast
  from resolved_child_viable [OF B] B show ?thesis by (auto simp: sample_arena_def)
qed

end
