(* ===== verification/Resolution.thy ===== *)
theory Resolution
  imports Proposing Elimination
begin

text \<open>
  The proposer's resolutions, on the agent's knowledge and on the tournament the contracts play: what is
  resolved, and when a resolution that is due does not happen. The concrete instance is a run of the agent
  on an honest proposal.
\<close>

section \<open>The next proposal\<close>

lemma resolvable_Some:
  assumes "resolvable w a = Inr (Some (parent, p))"
  obtains index where "sa_proposals a (cu_last_resolved_game (sa_cursor a)) = Some parent" "pp_successor parent = Some index"
    "sa_proposals a index = Some p"
    "rw_valid_child_signature w (pp_contract parent) \<noteq> 0 \<or> rw_challenger_duration w (pp_contract p) = 0"
    "rw_status w (pp_contract p) \<noteq> 2"
proof -
  from assms obtain index where "sa_proposals a (cu_last_resolved_game (sa_cursor a)) = Some parent" "pp_successor parent = Some index"
    "sa_proposals a index = Some p"
    by (auto simp: resolvable_def bail_def res_simps split: option.splits if_splits)
  with assms that [of index] show ?thesis
    by (auto simp: resolvable_def res_simps parse_finality_def word_gt_0 split: if_splits)
qed

section \<open>An honest proposal\<close>

text \<open>Game 1 claims the node's root and publishes its one intermediate output, 101, in a blob.\<close>

definition honest_blob :: "blob \<Rightarrow> bool" where
  "honest_blob b \<longleftrightarrow> intermediate_outputs b 1 = Inr [101] \<and> trail_data b 1 = Inr (replicate 4095 0)"

lemma honest_blob_exists: "\<exists>b. honest_blob b"
proof -
  obtain b where b: "field_elements b [0..<FIELD_ELEMENTS_PER_BLOB] = Inr ([101] @ replicate (FIELD_ELEMENTS_PER_BLOB - 1) 0)"
    using output_101_sidecar by blast
  have "honest_blob b"
    using field_elements_part [OF b, of 0 1] field_elements_part [OF b, of 1 FIELD_ELEMENTS_PER_BLOB]
    by (simp add: honest_blob_def intermediate_outputs_def trail_data_def FIELD_ELEMENTS_PER_BLOB_def del: upt_Suc)
  then show ?thesis by blast
qed

definition honest_case :: "blob \<Rightarrow> fault_case" where
  "honest_case b = \<lparr>fc_root = 102, fc_blob = b, fc_trail = replicate 4095 0\<rparr>"

definition honest_loaded :: "blob \<Rightarrow> proposal" where
  "honest_loaded b = (faulty_loaded (honest_case b))\<lparr>pp_io_field_elements := [101]\<rparr>"

definition honest_judged :: "blob \<Rightarrow> proposal" where
  "honest_judged b = (honest_loaded b)\<lparr>pp_correct_parent := Some True, pp_correct_claim := Some True,
     pp_correct_io := [Some True], pp_correct_trail := replicate 4095 (Some True), pp_canonical := Some True\<rparr>"

definition honest_known :: "blob \<Rightarrow> sync_agent" where
  "honest_known b = faulty_first\<lparr>sa_proposals := [0 \<mapsto> faulty_treasury\<lparr>pp_children := {1}, pp_successor := Some 1\<rparr>, 1 \<mapsto> honest_judged b],
     sa_cursor := sample_cursor\<lparr>cu_canonical_proposal_tip := 1, cu_next_factory_index := 2, cu_last_output_index := 2\<rparr>\<rparr>"

lemma honest_load:
  assumes "honest_blob b"
  shows "load_proposal (cv_get_blob (faulty_view (honest_case b))) 2 (faulty_game (honest_case b) 2) = Inr (honest_loaded b)"
  using assms
  by (simp add: honest_blob_def honest_case_def load_proposal_def load_game_def load_io_blob_def faulty_game_def sample_game_def
      faulty_view_def sample_blob_data_def err_context_def sub_u64_def as_usize_def FIELD_ELEMENTS_PER_BLOB_def
      honest_loaded_def faulty_loaded_def)

lemma honest_assess:
  assumes "sa_proposals a 0 = Some q" "is_correct q = Some True" "sa_outputs a 1 = Some 101" "sa_outputs a 2 = Some 102"
    "sa_deployment a = sample_deployment"
  shows "assess_correctness a (honest_loaded b) = Inr ((honest_judged b)\<lparr>pp_canonical := None\<rparr>, True)"
proof -
  let ?f = "\<lambda>cs i. update_vec cs i (Some (replicate 4095 (0 :: U256) ! i = 0))"
  have "try_fold ?f (replicate 4095 None) [0..<4095] = Inr (map (\<lambda>i. Some (replicate 4095 (0 :: U256) ! i = 0)) [0..<4095] @ drop 4095 (replicate 4095 None))"
    by (rule fill_loop_total) (simp_all add: update_vec_def)
  also have "map (\<lambda>i. Some (replicate 4095 (0 :: U256) ! i = 0)) [0..<4095] = replicate 4095 (Some True)"
    by (rule nth_equalityI) simp_all
  finally have tr: "try_fold ?f (replicate 4095 None) [0..<4095] = Inr (replicate 4095 (Some True))" by simp
  have io: "try_fold (assess_io a (honest_loaded b) 0) [None] [0..<1] = Inr [Some True]"
    using assms by (simp add: assess_io_def honest_loaded_def faulty_loaded_def sample_deployment_def add_u64_def mul_u64_def update_vec_def
        hash_to_fe_def BLS_MODULUS_def)
  show ?thesis
    using assms tr io
    by (simp add: assess_correctness_def has_parent_def honest_loaded_def honest_judged_def faulty_loaded_def honest_case_def
        blocks_per_proposal_def mul_u64_def sample_deployment_def saturating_sub_u64_def is_correct_def Let_def)
qed

lemma honest_settle:
  "settle_proposal faulty_first (honest_loaded b) =
     (faulty_first\<lparr>sa_proposals := [0 \<mapsto> faulty_treasury\<lparr>pp_children := {1}, pp_successor := Some 1\<rparr>, 1 \<mapsto> honest_judged b]\<rparr>,
      Inr (SUCCESS 2 7))"
proof -
  let ?a = "faulty_first\<lparr>sa_proposals := [0 \<mapsto> faulty_treasury\<lparr>pp_children := {1}\<rparr>]\<rparr>"
  have part: "determine_tournament_participation faulty_first (honest_loaded b) = (?a, Inr True)"
    by (simp add: faulty_first_def faulty_fetched_def faulty_treasury_def honest_loaded_def faulty_loaded_def sample_eval agent_eval)
  have assess: "assess_correctness ?a (honest_loaded b) = Inr ((honest_judged b)\<lparr>pp_canonical := None\<rparr>, True)"
    by (rule honest_assess [where q = "faulty_treasury\<lparr>pp_children := {1}\<rparr>"])
      (simp_all add: faulty_first_def faulty_fetched_def faulty_treasury_def sample_eval agent_eval)
  have "is_correct ((honest_judged b)\<lparr>pp_canonical := None\<rparr>) = Some True"
    by (simp add: is_correct_def honest_judged_def)
  moreover have "canonical_tip_height ?a = Some 0" "\<not> was_proposer_eliminated_before ?a ((honest_judged b)\<lparr>pp_canonical := None\<rparr>)"
    by (simp_all add: canonical_tip_height_def canonical_tip_def was_proposer_eliminated_before_def faulty_first_def faulty_fetched_def
        faulty_treasury_def load_treasury_def sample_eval)
  ultimately have "determine_if_canonical ?a ((honest_judged b)\<lparr>pp_canonical := None\<rparr>) = Some (honest_judged b, True)"
    by (simp add: determine_if_canonical_def Let_def honest_judged_def honest_loaded_def faulty_loaded_def)
  with part assess show ?thesis
    by (simp add: settle_proposal_def store_proposal_def as_success_def honest_judged_def honest_loaded_def faulty_loaded_def)
qed

lemma honest_second_step:
  assumes "honest_blob b"
  shows "sync_step (faulty_view (honest_case b)) 2 faulty_first [] = Inr (honest_known b, [])"
proof -
  have index: "next_index (sa_cursor faulty_first) = (sa_cursor faulty_first, 1)"
    by (simp add: next_index_def faulty_first_def sample_cursor_def)
  have "note_elimination (faulty_view (honest_case b)) 2 faulty_first = faulty_first"
    by (simp add: note_elimination_def faulty_view_def sample_view_def)
  then have proposal: "sync_proposal (faulty_view (honest_case b)) faulty_first 1 =
      (faulty_first\<lparr>sa_proposals := [0 \<mapsto> faulty_treasury\<lparr>pp_children := {1}, pp_successor := Some 1\<rparr>, 1 \<mapsto> honest_judged b]\<rparr>,
       Inr (SUCCESS 2 7))"
    using honest_load [OF assms] honest_settle [of b]
    by (simp add: sync_proposal_def faulty_view_def sample_view_def KAILUA_GAME_TYPE_def honest_loaded_def faulty_loaded_def
        faulty_first_def faulty_fetched_def sample_eval add_u64_def)
  show ?thesis
    by (simp add: sync_step_def index proposal)
      (simp add: honest_known_def faulty_first_def faulty_fetched_def sample_eval sync_l1_head_def faulty_view_def record_success_def
        honest_judged_def honest_loaded_def faulty_loaded_def advance_def add_u64_def)
qed

lemma honest_call:
  assumes "honest_blob b"
  shows "\<exists>r. sync (faulty_view (honest_case b)) 0 None sample_start = Some (honest_known b, r)"
proof -
  let ?v = "faulty_view (honest_case b)"
  have n: "has_next (sa_cursor faulty_fetched) 2" "has_next (sa_cursor faulty_first) 2" "\<not> has_next (sa_cursor (honest_known b)) 2"
    by (simp_all add: has_next_def honest_known_def faulty_first_def faulty_fetched_def sample_cursor_def)
  have "sync_loop ?v 2 2 faulty_fetched [] = (honest_known b, Inr [])"
    by (subst sync_loop.simps, subst sync_loop.simps, subst sync_loop.simps)
      (use n in \<open>simp add: faulty_first_step honest_second_step [OF assms]\<close>)
  moreover have "sync_resolutions ?v (honest_known b) = Some (honest_known b, Inr ())"
    by (simp add: sync_resolutions.simps resolve_next_def honest_known_def sample_cursor_def faulty_view_def sample_view_def)
  moreover have "(honest_known b)\<lparr>sa_cursor := load_delayed_indices (sa_cursor (honest_known b)) []\<rparr> = honest_known b"
    by (simp add: load_delayed_indices_def)
  moreover have "cv_safe_l2 ?v = Some 2" "cv_game_count ?v = 2" "saturating_sub_u64 2 0 = 2"
    by (simp_all add: faulty_view_def sample_view_def saturating_sub_u64_def)
  ultimately show ?thesis using faulty_new_outputs [of "honest_case b"] by (simp add: sync_def)
qed

lemma honest_known_reach:
  assumes "honest_blob b"
  shows "agent_reach sample_out sample_deployment (honest_known b)"
proof -
  have "agent_reach sample_out sample_deployment sample_start"
    unfolding sample_start_def by (rule agent_reach.start) (simp_all add: sample_cursor_def)
  then show ?thesis using honest_call [OF assms] agent_reach.call [OF _ faulty_node_view] by blast
qed

text \<open>Its clock has expired.\<close>

definition expired_view :: resolve_view where
  "expired_view = \<lparr>rw_status = (\<lambda>_. 0), rw_challenger_duration = (\<lambda>_. 0), rw_valid_child_signature = (\<lambda>_. 0)\<rparr>"

lemma honest_resolvable:
  "resolvable expired_view (honest_known b) = Inr (Some (faulty_treasury\<lparr>pp_children := {1}, pp_successor := Some 1\<rparr>, honest_judged b))"
  by (simp add: resolvable_def honest_known_def sample_cursor_def expired_view_def parse_finality_def err_context_def)

lemma honest_judged_fields: "has_parent (honest_judged b)" "pp_contract (honest_judged b) = 2"
  by (simp_all add: has_parent_def honest_judged_def honest_loaded_def faulty_loaded_def)

section \<open>Properties\<close>

text \<open>
  C36. The proposer resolves honest survivors only. When an attempt sends a resolution that succeeds,
  the proposal it resolves is the recorded successor of the last resolved proposal and a child of it,
  its claim, outputs and trail are those of the node, it is not final yet, its tournament is over,
  by a validity proof or by its clock, and at that moment, after the pruning loop has come to its end, the
  simulated pruning of the whole tournament names it as the survivor: the second round of pruning has nothing
  left to do.
\<close>

theorem resolves_honest_survivor:
  assumes reach: "agent_reach out d a" and resolved: "resolve_next_pending_proposal T w a c = Some (c', Inr True)"
  shows "\<exists>parent index p. sa_proposals a (cu_last_resolved_game (sa_cursor a)) = Some parent \<and> pp_successor parent = Some index \<and>
    sa_proposals a index = Some p \<and> pp_parent p = pp_index parent \<and> honest_proposal out d p \<and>
    (rw_valid_child_signature w (pp_contract parent) \<noteq> 0 \<or> rw_challenger_duration w (pp_contract p) = 0) \<and>
    rw_status w (pp_contract p) \<noteq> 2 \<and>
    prune_children (ts_prune_call T) (ts_prune_agent T) c = Some (c', True) \<and>
    ts_survivor_call T c' = Inr (pp_contract p) \<and> pp_contract p \<noteq> 0 \<and> ts_resolve T c'"
proof -
  from resolved obtain parent p where r: "resolvable w a = Inr (Some (parent, p))"
    by (auto simp: resolve_next_pending_proposal_def split: sum.splits option.splits)
  then obtain index where parts: "sa_proposals a (cu_last_resolved_game (sa_cursor a)) = Some parent" "pp_successor parent = Some index"
    "sa_proposals a index = Some p"
    "rw_valid_child_signature w (pp_contract parent) \<noteq> 0 \<or> rw_challenger_duration w (pp_contract p) = 0"
    "rw_status w (pp_contract p) \<noteq> 2"
    by (rule resolvable_Some)
  note honest = successor_honest [OF reach parts(1-3)]
  have "proposals_ok out d (sa_proposals a)" using reach_ok [OF reach] by (simp add: agent_ok_def)
  from proposals_okD(1) [OF this parts(1)] have index: "pp_index parent = cu_last_resolved_game (sa_cursor a)" .
  from resolved honest(2) obtain c1 b where c1: "prune_children (ts_prune_call T) (ts_prune_agent T) c = Some (c1, b)"
    and rest: "(if \<not> b then Some (c1, Inr False)
      else if (case fetch_parent_tournament_survivor_status p (ts_survivor_call T c1) of Inr (Some True) \<Rightarrow> False | _ \<Rightarrow> True)
        then Some (c1, Inr False) else map_option (\<lambda>(c, ok). (c, Inr ok)) (resolve_proposal T c1)) = Some (c', Inr True :: bool result)"
    unfolding resolve_next_pending_proposal_def r sum.case option.case prod.case
    by (auto simp only: bind_eq_Some_conv prod.case split_paired_Ex if_True)
  from rest have "b" by (rule contrapos_pp) simp
  with c1 have c1: "prune_children (ts_prune_call T) (ts_prune_agent T) c = Some (c1, True)" by simp
  have status: "fetch_parent_tournament_survivor_status p (ts_survivor_call T c1) = Inr (Some True)"
    using rest \<open>b\<close> by (simp split: if_split_asm sum.split_asm option.split_asm bool.split_asm)
  then have c': "resolve_proposal T c1 = Some (c', True)" using rest \<open>b\<close> by auto
  have survivor: "ts_survivor_call T c1 = Inr (pp_contract p)" "pp_contract p \<noteq> 0"
    using status honest(2) by (auto simp: survivor_status)
  from prune_children_survivor [OF c1] obtain s where "ts_prune_call T c1 = Inr s" "s \<noteq> 0" by blast
  from c' prune_children_done [of "ts_prune_call T", OF this] have "c' = c1" "ts_resolve T c1" by (auto simp: resolve_proposal_def)
  with parts honest index c1 survivor show ?thesis by auto
qed

definition duel_arena :: arena where
  "duel_arena = sample_arena\<lparr>ar_proof_status := (\<lambda>s. if s = 5 then 1 else 0)\<rparr>"

lemma duel_survivor: "\<exists>B. pruneChildren (Suc (Suc n)) duel_arena = Inr (B, 2)"
  by (simp add: pruneChildren_def duel_arena_def sample_arena_def index_vec_def is_viable_signature_def is_child_eliminated_def
      prune_match_def get_challenger_duration_def eliminate_def get_payout_recipient_def Let_def)

theorem resolves_honest_survivor_witness:
  "\<exists>b p. resolve_next_pending_proposal (arena_chain False 0 200) expired_view (honest_known b) duel_arena = Some (duel_arena, Inr True) \<and>
    sa_proposals (honest_known b) 1 = Some p \<and> honest_proposal sample_out sample_deployment p \<and>
    ts_survivor_call (arena_chain False 0 200) duel_arena = Inr (pp_contract p)"
proof -
  let ?T = "arena_chain False 0 200"
  obtain b where b: "honest_blob b" using honest_blob_exists by blast
  have "ELIMINATIONS_LIMIT = Suc (Suc 126)" by (simp add: ELIMINATIONS_LIMIT_def)
  then obtain B where "pruneChildren ELIMINATIONS_LIMIT duel_arena = Inr (B, 2)" using duel_survivor by metis
  then have call: "ts_prune_call ?T duel_arena = Inr 2" by (simp add: arena_chain_def)
  obtain C where "pruneChildren (length (ar_children duel_arena) * 2) duel_arena = Inr (C, 2)"
    using duel_survivor [of 2] by (auto simp: duel_arena_def sample_arena_def numeral_eq_Suc)
  then have survivor: "ts_survivor_call ?T duel_arena = Inr 2" by (simp add: arena_chain_def)
  from \<open>pruneChildren (length (ar_children duel_arena) * 2) duel_arena = Inr (C, 2)\<close> have "\<exists>D. resolve_child 0 200 duel_arena = Inr D"
    by (simp add: resolve_child_def index_vec_def get_challenger_duration_def) (simp add: duel_arena_def sample_arena_def)
  then have resolve: "ts_resolve ?T duel_arena" by (auto simp: arena_chain_def)
  have pruned: "prune_children (ts_prune_call ?T) f duel_arena = Some (duel_arena, True)" for f
    using prune_children_done [of "ts_prune_call ?T" duel_arena 2] call by simp
  have "fetch_parent_tournament_survivor_status (honest_judged b) (ts_survivor_call ?T duel_arena) = Inr (Some True)"
    using survivor honest_judged_fields [of b] by (simp add: survivor_status)
  then have run: "resolve_next_pending_proposal ?T expired_view (honest_known b) duel_arena = Some (duel_arena, Inr True)"
    using pruned resolve honest_judged_fields(1) [of b]
    by (simp add: resolve_next_pending_proposal_def honest_resolvable resolve_proposal_def)
  from resolves_honest_survivor [OF honest_known_reach [OF b] run] run show ?thesis
    by (auto simp: honest_known_def sample_cursor_def)
qed

text \<open>
  C37. Too many faulty siblings stop the proposer although the contracts would resolve. Take an honest
  proposal that is ready for resolution and follows proven faulty siblings in its tournament. With no
  more of them than one pruning step eliminates, the proposer resolves it in one attempt; also at the
  limit, where the simulated step names an eliminated sibling as the survivor, for the survivor check
  prunes with enough steps. With more, and a provider of the agent that cannot sign, through which the
  pruning transactions of the first loop are sent, the proposer gives up and waits, in every iteration
  anew, although a resolution transaction would have succeeded at once, for the contract prunes with
  enough steps on its own.
\<close>

theorem faulty_siblings_stall:
  assumes siege: "siege A bads h" and bads: "bads \<noteq> []"
    and ready: "resolvable w a = Inr (Some (parent, p))" "has_parent p" "pp_contract p = ct_contract h"
    and ended: "ar_valid_child_signature A \<noteq> 0 \<or> get_challenger_duration A h now = Inr 0"
  shows "(length bads \<le> ELIMINATIONS_LIMIT \<longrightarrow>
      resolve_next_pending_proposal (arena_chain agent_signs (length bads) now) w a A = Some (A, Inr True)) \<and>
    (ELIMINATIONS_LIMIT < length bads \<and> \<not> agent_signs \<longrightarrow>
      resolve_next_pending_proposal (arena_chain agent_signs (length bads) now) w a A = Some (A, Inr False)) \<and>
    (\<exists>B. resolve_child (length bads) now A = Inr B)"
proof (intro conjI impI)
  let ?T = "arena_chain agent_signs (length bads) now"
  show resolves: "\<exists>B. resolve_child (length bads) now A = Inr B" by (rule siege_resolves [OF siege bads ended])
  show "resolve_next_pending_proposal ?T w a A = Some (A, Inr True)" if few: "length bads \<le> ELIMINATIONS_LIMIT"
  proof -
    obtain B s where "pruneChildren ELIMINATIONS_LIMIT A = Inr (B, s)" "s \<noteq> 0" using siege_prune_few [OF siege bads few] by blast
    then have pruned: "prune_children (ts_prune_call ?T) f A = Some (A, True)" for f
      using prune_children_done [of "ts_prune_call ?T" A s] by (simp add: arena_chain_def)
    obtain C where "pruneChildren (length (ar_children A) * 2) A = Inr (C, ct_contract h)"
      using siege_survivor [OF siege bads] by blast
    then have "fetch_parent_tournament_survivor_status p (ts_survivor_call ?T A) = Inr (Some True)"
      using siege ready(3) by (simp add: survivor_status arena_chain_def siege_def)
    moreover have "ts_resolve ?T A" using resolves by (auto simp: arena_chain_def)
    ultimately show ?thesis
      using ready(1,2) pruned by (simp add: resolve_next_pending_proposal_def resolve_proposal_def)
  qed
  show "resolve_next_pending_proposal ?T w a A = Some (A, Inr False)" if many: "ELIMINATIONS_LIMIT < length bads \<and> \<not> agent_signs"
  proof -
    obtain B where "pruneChildren ELIMINATIONS_LIMIT A = Inr (B, 0)" using siege_prune_many [OF siege] many by blast
    then have "prune_children (ts_prune_call ?T) (ts_prune_agent ?T) A = Some (A, False)"
      using many by (subst prune_children.simps) (simp add: arena_chain_def)
    then show ?thesis using ready(1,2) by (simp add: resolve_next_pending_proposal_def)
  qed
qed

text \<open>A tournament of some faulty children and the honest one.\<close>

definition faulty_child :: "nat \<Rightarrow> contestant" where
  "faulty_child i = \<lparr>ct_contract = of_nat i + 10, ct_game_index = i + 2, ct_proposer = of_nat i + 10, ct_signature = 5,
     ct_created_at = 11, ct_status = 0\<rparr>"

definition besieged_arena :: "nat \<Rightarrow> arena" where
  "besieged_arena n = duel_arena\<lparr>ar_children := map faulty_child [0..<n] @ [ar_children duel_arena ! 0]\<rparr>"

lemma besieged:
  assumes "n < 150"
  shows "siege (besieged_arena n) (map faulty_child [0..<n]) (ar_children duel_arena ! 0)"
proof -
  have small: "(of_nat i :: Address) + 10 = of_nat (i + 10)" for i by simp
  have unat: "unat (of_nat i :: Address) = i" if "i < 200" for i using that by (simp add: unat_of_nat)
  have inj: "(of_nat i :: Address) = of_nat j \<longleftrightarrow> i = j" if "i < 200" "j < 200" for i j
    using unat [OF that(1)] unat [OF that(2)] by metis
  have addr: "(of_nat i :: Address) + 10 \<noteq> 0" "(of_nat i :: Address) + 10 \<noteq> 2" if "i < n" for i
    using inj [of "i + 10" 0] inj [of "i + 10" 2] that assms by simp_all
  have "inj_on (\<lambda>i. (of_nat i :: Address) + 10) {0..<n}" by (rule inj_onI) (use inj assms in auto)
  then have "distinct (map ct_proposer (map faulty_child [0..<n] @ [ar_children duel_arena ! 0]))"
    using addr by (auto simp: distinct_map faulty_child_def comp_def duel_arena_def sample_arena_def)
  moreover have "beaten (besieged_arena n) (faulty_child i) \<and> ct_status (faulty_child i) = 0 \<and> ct_contract (faulty_child i) \<noteq> 0 \<and>
      ct_contract (faulty_child i) \<noteq> ct_contract (ar_children duel_arena ! 0)" if "i < n" for i
    using addr [OF that] by (simp add: beaten_def faulty_child_def besieged_arena_def duel_arena_def sample_arena_def is_viable_signature_def)
  ultimately show ?thesis
    by (auto simp: siege_def besieged_arena_def is_viable_signature_def is_child_eliminated_def)
      (simp_all add: duel_arena_def sample_arena_def)
qed

theorem faulty_siblings_stall_witness:
  "\<exists>b. agent_reach sample_out sample_deployment (honest_known b) \<and>
    resolve_next_pending_proposal (arena_chain False 128 200) expired_view (honest_known b) (besieged_arena 128) =
      Some (besieged_arena 128, Inr True) \<and>
    resolve_next_pending_proposal (arena_chain False 129 200) expired_view (honest_known b) (besieged_arena 129) =
      Some (besieged_arena 129, Inr False) \<and>
    (\<exists>B. resolve_child 129 200 (besieged_arena 129) = Inr B)"
proof -
  obtain b where b: "honest_blob b" using honest_blob_exists by blast
  have same: "pp_contract (honest_judged b) = ct_contract (ar_children duel_arena ! 0)"
    by (simp add: honest_judged_fields duel_arena_def sample_arena_def)
  have clock: "get_challenger_duration (besieged_arena n) (ar_children duel_arena ! 0) 200 = Inr 0" for n
    by (simp add: get_challenger_duration_def besieged_arena_def duel_arena_def sample_arena_def)
  note run = faulty_siblings_stall [OF besieged _ honest_resolvable honest_judged_fields(1) same, of _ 200 False, OF _ _ disjI2 [OF clock]]
  from run [of 128] run [of 129] honest_known_reach [OF b] show ?thesis by (auto simp: ELIMINATIONS_LIMIT_def)
qed

end
