(* ===== verification/Spec2Isabelle.thy ===== *)
theory Spec2Isabelle
  imports Recursion Prove Settlement Resolution
begin

text \<open>
  A verification development for Kailua (\<open>src/\<close>), a system of fault and validity proofs for optimistic
  rollups.

  \<^bold>\<open>The program.\<close> Proposers publish claims about the state of a rollup, with intermediate outputs in
  blobs, as games of the contracts in \<open>src/crates/contracts\<close>. A guest program inside a zero-knowledge
  virtual machine (\<open>src/crates/kona\<close>) derives and executes rollup blocks from a witness and commits to
  a journal; a journal and its receipt prove a step from one output root to another. The prover
  (\<open>src/crates/prover\<close>) divides a range of blocks into proofs, generates witnesses and composes the
  receipts. The synchronization agent (\<open>src/crates/sync\<close>) follows the games and judges them by the
  outputs of an op-node. The validator (\<open>src/crates/validator\<close>) has the prover prove the faults that
  the agent found and submits the proofs; the proposer (\<open>src/crates/proposer\<close>) extends and resolves
  the canonical chain of games.

  \<^bold>\<open>Conventions.\<close> Theory \<open>Prelude\<close>: machine integers are words, \<open>failure\<close> has the panics and the
  \<open>anyhow\<close> errors of the code, \<open>'a result\<close> is its \<open>Result\<close>, and the build decides whether an overflow
  panics (host) or wraps (guest). Hash functions, the KZG library, the virtual machine, decoders of
  foreign formats, nodes and services are parameters, with what is relied on as named hypotheses of
  the theorems. \<open>Codec\<close> states the interface of byte encodings as a locale.

  \<^bold>\<open>The guest.\<close>
  \<^item> \<open>Config\<close> (\<open>kona/src/config.rs\<close>): the hash of the rollup configuration binds it up to defaults.
  \<^item> \<open>Journal\<close> (\<open>journal.rs\<close>): the packed journal and its round trip.
  \<^item> \<open>Blobs\<close> (\<open>blobs.rs\<close>): field elements of blobs, and the provider that opens every blob it returns.
  \<^item> \<open>Oracle\<close>, \<open>Oracle_Replay\<close> (\<open>oracle/\<close>): the preimage oracles; validation is sound, recording replays,
    and \<open>get\<close> on shards refines a removal from one sequence.
  \<^item> \<open>Precondition\<close> (\<open>precondition.rs\<close>): validation of the published outputs, exactly and without panic.
  \<^item> \<open>L1_Chain\<close> (\<open>kona.rs\<close>): the walk to the blocks of an L1 head.
  \<^item> \<open>Executor\<close> (\<open>executor.rs\<close>): execution traces, their commitment, the cached executor.
  \<^item> \<open>Core\<close> (\<open>client/core.rs\<close>): derivation and execution, and what a result means. The starting points of
    runs (\<open>agreed_safe_head\<close>, \<open>execution_start\<close>, \<open>derivation_start\<close>) are determined by the inputs, and the runs
    themselves (\<open>execution_chain\<close>, \<open>derives\<close>) thread the state of the executor and of the driver,
    so the output roots of a derivation are unique (\<open>claim_derived_unique\<close>).
  \<^item> \<open>Stitching\<close>, \<open>Recursion\<close> (\<open>client/stitching.rs\<close>, \<open>client/stateless.rs\<close>): composition of journals; any
    provable journal, at any depth of composition, is a chain of steps of the core client.

  \<^bold>\<open>The prover.\<close>
  \<^item> \<open>Witgen\<close> (\<open>client/witgen.rs\<close>, \<open>proof.rs\<close>): the encoded witness makes the guest see what was recorded.
  \<^item> \<open>Work_Pool\<close>: the scheme of divide and conquer over jobs, as a locale.
  \<^item> \<open>Tasks\<close>, \<open>Prove\<close> (\<open>tasks.rs\<close>, \<open>prove.rs\<close>): division of proofs, their composition, termination; a
    claim that the node does not know makes the division loop for ever.

  \<^bold>\<open>The host programs.\<close>
  \<^item> \<open>Blob_Points\<close>, \<open>Proposal\<close> (\<open>sync/src/blobs.rs\<close>, \<open>proposal.rs\<close>, \<open>fault.rs\<close>): loading of games, verdicts,
    positions of field elements, sidecars.
  \<^item> \<open>Sync\<close>, \<open>Sync_Verdicts\<close>, \<open>Sync_Runs\<close>, \<open>Lineage\<close> (\<open>agent.rs\<close>, \<open>cursor.rs\<close>, \<open>deployment.rs\<close>): the agent as
    a state machine. The locale \<open>sync_invariant\<close> turns what single steps keep into what calls of \<open>sync\<close>
    keep; it is interpreted for the verdicts, the queue, the successors and the deployment with one
    output per proposal.
  \<^item> \<open>Validator\<close>, \<open>Dispute_Sample\<close>, \<open>Disputes\<close> (\<open>proposals/processing.rs\<close>, \<open>dispatch.rs\<close>, \<open>requests.rs\<close>): which
    proofs are requested, and that no request gets lost.
  \<^item> \<open>Submission\<close>, \<open>Settlement\<close> (\<open>proposals/receipts.rs\<close>, \<open>trails.rs\<close>, \<open>mod.rs\<close>, outcome of a task in
    \<open>tasks.rs\<close>): transactions made of receipts, against the proof transactions of \<open>KailuaTournament.sol\<close> with
    all their checks and their effect. A fault proof goes through if the treasury knows the game
    its L1 head comes from.
  \<^item> \<open>Proposer\<close>, \<open>Proposing\<close> (\<open>propose.rs\<close>, \<open>fetch.rs\<close>): when and what is proposed; a proposal is honest.
  \<^item> \<open>Elimination\<close>, \<open>Resolution\<close> (\<open>resolve.rs\<close>, \<open>pruneChildren\<close> and \<open>resolve\<close> of the contracts): what is
    resolved, and when a resolution that is due does not happen.

  \<^bold>\<open>Composition.\<close> The verdicts of the agent are those of its node (\<open>Sync_Runs\<close>); the validator
  requests proofs of exactly the wrong ones, from a shared root to a differing one (\<open>Disputes\<close>); the
  receipt of such a request makes an open tournament mark the proposal as faulty, with two exceptions
  (\<open>Settlement\<close>: an L1 head of a foreign game, a claim that repeats the first output), and a journal that the guest can prove
  is a chain of derived steps (\<open>Recursion\<close>). The proposer's own proposals are honest (\<open>Proposing\<close>) and
  only an honest survivor is resolved (\<open>Resolution\<close>).

  \<^bold>\<open>Loops.\<close> Loops that end are recursive functions with a measure. Those that need not end (the division
  of a derivation, the resolutions of the agent, the pruning of the proposer) are partial functions
  into \<open>option\<close>; that they return is proved where it holds. The loop over trail faults runs as often as
  the buffer had entries, as in the code, and the pruning of the contract counts its step limit down,
  so their recursion on a number is the code's own bound and not fuel.

  \<^bold>\<open>Not modelled.\<close> The alternative data availability clients (\<open>hana\<close>, \<open>hokulea\<close>): thin variants of the
  stitching client over foreign libraries. The back ends of the prover (zkVM, Bonsai, Boundless),
  its native client, preflight and key-value stores: remote services, processes and databases. The
  RPC service, the command line, telemetry, providers and transaction policies: input and output.
  The \<open>rkyv\<close> adapters: decoders are parameters. The worker pools and the main loops of validator and
  proposer: concurrency of processes around the modelled steps. The \<open>devnet\<close> feature and the build
  of the guest image. Of the contracts, only the proof transactions, the pruning and the resolution.
\<close>

end
